(* ===== verification/Prelude.thy ===== *)
theory Prelude
  imports Main "HOL-Library.Word"
begin

text \<open>
  Shared vocabulary of the development: Go's machine integers as words, byte slices as lists of
  bytes, Go error values with the wrapping that \<^verbatim>\<open>errors.Is\<close> looks through, and the
  big-endian routines of Go's \<^verbatim>\<open>encoding/binary\<close> with their round trips. The collections
  \<open>bytes_simps\<close>, \<open>err_simps\<close>, \<open>store_simps\<close> and \<open>keys_simps\<close> gather the facts
  that the component theories hand to the simplifier.
\<close>

unbundle bit_operations_syntax

named_theorems bytes_simps "byte-level encodings and their lengths"
named_theorems err_simps "what errors.Is says of the errors the code builds"
named_theorems store_simps "reads and writes of a key-value store"
named_theorems keys_simps "state keys: their bytes, lengths and distinctness"

section \<open>Machine types\<close>

type_synonym byte = "8 word"
type_synonym u8 = "8 word"
type_synonym u16 = "16 word"
type_synonym u32 = "32 word"
type_synonym u64 = "64 word"
type_synonym i64 = "64 word"
type_synonym bytes = "byte list"

text \<open>A Go \<^verbatim>\<open>int64\<close> is a 64-bit word read in two's complement.\<close>

definition i64_less :: "i64 \<Rightarrow> i64 \<Rightarrow> bool" where
  "i64_less a b \<longleftrightarrow> sint a < sint b"

definition i64_le :: "i64 \<Rightarrow> i64 \<Rightarrow> bool" where
  "i64_le a b \<longleftrightarrow> sint a \<le> sint b"

text \<open>The bytes of a Go string literal (ASCII only in this code base).\<close>

definition bytes_of_string :: "string \<Rightarrow> bytes" where
  "bytes_of_string s = map (\<lambda>c. word_of_nat (of_char c)) s"

section \<open>Errors\<close>

text \<open>
  A package-level \<^verbatim>\<open>var ErrX = errors.New(..)\<close> is a sentinel: it is compared by identity.
  \<^verbatim>\<open>fmt.Errorf\<close> with \<^verbatim>\<open>%w\<close> wraps an error, without it the error is fresh. The
  arguments of the format are kept as values, so no information of the message is lost.
\<close>

datatype (plugins only: code size) sentinel =
    ErrNotFound                \<comment> \<open>avalanchego/database\<close>
  | ErrWrongSize               \<comment> \<open>avalanchego/database, errWrongSize\<close>
  | ErrInsufficientLength      \<comment> \<open>avalanchego/utils/wrappers\<close>
  | ErrInvalidInput            \<comment> \<open>wrappers, errInvalidInput\<close>
  | ErrBadBool                 \<comment> \<open>wrappers, errBadBool\<close>
  | ErrOversized               \<comment> \<open>wrappers, errOversized\<close>
  | ErrOverflow | ErrUnderflow \<comment> \<open>avalanchego/utils/math\<close>
  | ErrMarshalNil | ErrMarshalZeroLength | ErrUnmarshalZeroLength
  | ErrMaxSliceLenExceeded | ErrUnexportedField \<comment> \<open>avalanchego/codec\<close>
  | ErrInvalidHashLen          \<comment> \<open>avalanchego/utils/hashing\<close>
  | ErrFieldNotPopulated | ErrTooManyItems | ErrDuplicateItem
  | ErrBadChecksum | ErrMissingChecksum \<comment> \<open>hypersdk/codec\<close>
  | ErrInvalidKeyOrPermission | ErrTStateKeyValue \<comment> \<open>hypersdk/state/tstate\<close>
  | ErrInvalidKeyValue | ErrTooManyActions | ErrActionNotActivated | ErrAuthNotActivated
  | ErrInvalidChainID | ErrMisalignedTime | ErrTimestampExpired | ErrFutureTimestamp
    \<comment> \<open>hypersdk/chain, hypersdk/internal/validitywindow\<close>
  | ErrInsufficientBalance | ErrInvalidAddress | ErrInvalidBalance \<comment> \<open>storage\<close>
  | ErrAmountCannotBeZero | ErrMaxPriceCannotBeZero | ErrMarketNotFound
  | ErrMarketInteraction | ErrInsufficientFunds \<comment> \<open>actions, buy\<close>
  | ErrUnmarshalEmptyCreateMarket | ErrDescriptionTooLong | ErrOracleSourceTooLong
  | ErrOracleParametersTooLong | ErrEndTimeInPast | ErrResolutionTimeBeforeEndTime
    \<comment> \<open>actions, create market\<close>
  | ErrTxGeneratorFundsExhausted \<comment> \<open>load\<close>
  | ErrInvalidArgs | ErrMissingSubcommand | ErrCliInvalidAddress | ErrInvalidKeyType
    \<comment> \<open>cmd/prediction-cli\<close>
  | ErrWrongDimensionSize      \<comment> \<open>hypersdk/fees\<close>
  | ErrAlreadyRegisteredKeyType | ErrAuthInvalidKeyType \<comment> \<open>hypersdk/auth\<close>
  | ErrDuplicate | ErrNoChains | ErrNoKeys \<comment> \<open>hypersdk/cli\<close>
  | ErrCanceled | ErrDeadlineExceeded \<comment> \<open>context\<close>
  | ErrSyntax | ErrRange       \<comment> \<open>strconv\<close>
  | ErrDuplicateTx | ErrTimestampTooEarly | ErrTimestampTooEarlyEmptyBlock | ErrTimestampTooLate
  | ErrInvalidBlockHeight | ErrInvalidUnitsConsumed | ErrFailedToFetchParentHeight
  | ErrFailedToParseParentHeight | ErrFailedToFetchParentTimestamp
  | ErrFailedToParseParentTimestamp | ErrFailedToFetchParentFee | ErrStateRootMismatch \<comment> \<open>hypersdk/chain\<close>
  | ErrFetcherInvalidKeyValue  \<comment> \<open>hypersdk/internal/fetcher\<close>
  | ErrUnexpectedEOF           \<comment> \<open>io\<close>
  | ErrInvalidFieldOrder | ErrUnexpectedWireType | ErrInvalidWireType | ErrZeroValue | ErrUnknownField
  | ErrInvalidLength | ErrPaddedZeroes | ErrCanotoOverflow \<comment> \<open>canoto\<close>

datatype fmt_arg = FU8 u8 | FU64 u64 | FI64 i64 | FNat nat | FBytes bytes | FStr string

datatype go_error =
    Sentinel sentinel
  | ErrNew string
  | Errorf string "fmt_arg list"
  | Wrapf string "fmt_arg list" go_error
  | Wrap2f string "fmt_arg list" go_error go_error

fun errors_Is :: "go_error \<Rightarrow> sentinel \<Rightarrow> bool" where
  "errors_Is (Sentinel s) t = (s = t)"
| "errors_Is (ErrNew _) t = False"
| "errors_Is (Errorf _ _) t = False"
| "errors_Is (Wrapf _ _ e) t = errors_Is e t"
| "errors_Is (Wrap2f _ _ e d) t = (errors_Is e t \<or> errors_Is d t)"

text \<open>A Go result \<^verbatim>\<open>(T, error)\<close> is a sum, a lone \<^verbatim>\<open>error\<close> is an option.\<close>

type_synonym 'a result = "go_error + 'a"

lemma Sentinel_Is [err_simps]: "errors_Is (Sentinel s) s"
  by simp

lemma Wrapf_Is [err_simps]: "errors_Is (Wrapf f as (Sentinel s)) s"
  by simp

section \<open>encoding/binary, big endian\<close>

definition PutUint16 :: "u16 \<Rightarrow> bytes" where
  "PutUint16 v = [ucast (drop_bit 8 v), ucast v]"

definition PutUint32 :: "u32 \<Rightarrow> bytes" where
  "PutUint32 v = [ucast (drop_bit 24 v), ucast (drop_bit 16 v), ucast (drop_bit 8 v), ucast v]"

definition PutUint64 :: "u64 \<Rightarrow> bytes" where
  "PutUint64 v =
     [ucast (drop_bit 56 v), ucast (drop_bit 48 v), ucast (drop_bit 40 v), ucast (drop_bit 32 v),
      ucast (drop_bit 24 v), ucast (drop_bit 16 v), ucast (drop_bit 8 v), ucast v]"

text \<open>
  The readers index the first bytes of the slice; Go panics on a shorter slice. Every caller
  checks the length first, so the last equations are never reached from the code.
\<close>

fun Uint16 :: "bytes \<Rightarrow> u16" where
  "Uint16 (b0 # b1 # _) = (ucast b1 OR push_bit 8 (ucast b0))"
| "Uint16 _ = 0"

fun Uint32 :: "bytes \<Rightarrow> u32" where
  "Uint32 (b0 # b1 # b2 # b3 # _) =
     (ucast b3 OR push_bit 8 (ucast b2) OR push_bit 16 (ucast b1) OR push_bit 24 (ucast b0))"
| "Uint32 _ = 0"

fun Uint64 :: "bytes \<Rightarrow> u64" where
  "Uint64 (b0 # b1 # b2 # b3 # b4 # b5 # b6 # b7 # _) =
     (ucast b7 OR push_bit 8 (ucast b6) OR push_bit 16 (ucast b5) OR push_bit 24 (ucast b4) OR
      push_bit 32 (ucast b3) OR push_bit 40 (ucast b2) OR push_bit 48 (ucast b1) OR
      push_bit 56 (ucast b0))"
| "Uint64 _ = 0"

lemma length_PutUint16 [simp, bytes_simps]: "length (PutUint16 v) = 2"
  by (simp add: PutUint16_def)

lemma length_PutUint32 [simp, bytes_simps]: "length (PutUint32 v) = 4"
  by (simp add: PutUint32_def)

lemma length_PutUint64 [simp, bytes_simps]: "length (PutUint64 v) = 8"
  by (simp add: PutUint64_def)

lemma PutUint64_not_Nil [simp]: "PutUint64 v \<noteq> []"
  by (simp add: PutUint64_def)

lemma Uint16_PutUint16 [simp, bytes_simps]: "Uint16 (PutUint16 v @ r) = v"
proof (rule bit_word_eqI)
  fix n assume "n < LENGTH(16)"
  then have n: "n < 16" by simp
  then consider "n < 8" | "8 \<le> n" by linarith
  then show "bit (Uint16 (PutUint16 v @ r)) n = bit v n"
    using n by cases (auto simp: PutUint16_def bit_simps)
qed

lemma Uint32_PutUint32 [simp, bytes_simps]: "Uint32 (PutUint32 v @ r) = v"
proof (rule bit_word_eqI)
  fix n assume "n < LENGTH(32)"
  then have n: "n < 32" by simp
  then consider "n < 8" | "8 \<le> n" "n < 16" | "16 \<le> n" "n < 24" | "24 \<le> n" by linarith
  then show "bit (Uint32 (PutUint32 v @ r)) n = bit v n"
    using n by cases (auto simp: PutUint32_def bit_simps)
qed

lemma Uint64_PutUint64 [simp, bytes_simps]: "Uint64 (PutUint64 v @ r) = v"
proof (rule bit_word_eqI)
  fix n assume "n < LENGTH(64)"
  then have n: "n < 64" by simp
  then consider "n < 8" | "8 \<le> n" "n < 16" | "16 \<le> n" "n < 24" | "24 \<le> n" "n < 32"
    | "32 \<le> n" "n < 40" | "40 \<le> n" "n < 48" | "48 \<le> n" "n < 56" | "56 \<le> n"
    by linarith
  then show "bit (Uint64 (PutUint64 v @ r)) n = bit v n"
    using n by cases (auto simp: PutUint64_def bit_simps)
qed

lemmas Uint_Put_nil [simp] =
  Uint16_PutUint16 [where r = "[]", simplified]
  Uint32_PutUint32 [where r = "[]", simplified]
  Uint64_PutUint64 [where r = "[]", simplified]

lemma PutUint64_inj [simp]: "PutUint64 a = PutUint64 b \<longleftrightarrow> a = b"
  by (metis Uint_Put_nil(3))

lemma PutUint16_inj [simp]: "PutUint16 a = PutUint16 b \<longleftrightarrow> a = b"
  by (metis Uint_Put_nil(1))

section \<open>Lists and words\<close>

lemma length_8_cases:
  assumes "length xs = 8"
  obtains b0 b1 b2 b3 b4 b5 b6 b7 where "xs = [b0, b1, b2, b3, b4, b5, b6, b7]"
proof -
  have "xs = [xs ! 0, xs ! 1, xs ! 2, xs ! 3, xs ! 4, xs ! 5, xs ! 6, xs ! 7]"
    by (rule nth_equalityI) (use assms in \<open>auto simp: less_Suc_eq numeral_eq_Suc\<close>)
  then show thesis by (rule that)
qed

lemma byte_high_bits: "8 \<le> n \<Longrightarrow> \<not> bit (b :: byte) n"
  by (auto dest: bit_imp_le_length)

lemma PutUint64_Uint64 [bytes_simps]:
  assumes "length xs = 8"
  shows "PutUint64 (Uint64 xs) = xs"
proof -
  obtain b0 b1 b2 b3 b4 b5 b6 b7 where xs: "xs = [b0, b1, b2, b3, b4, b5, b6, b7]"
    using assms by (rule length_8_cases)
  show ?thesis
    unfolding xs PutUint64_def
    by (simp, intro conjI; rule bit_word_eqI; simp add: bit_simps byte_high_bits)
qed

lemma PutUint32_Uint32 [bytes_simps]:
  assumes "length xs = 4"
  shows "PutUint32 (Uint32 xs) = xs"
proof -
  from assms obtain b0 b1 b2 b3 where xs: "xs = [b0, b1, b2, b3]"
    by (auto simp: length_Suc_conv eval_nat_numeral)
  show ?thesis
    unfolding xs PutUint32_def by (simp, intro conjI; rule bit_word_eqI; simp add: bit_simps byte_high_bits)
qed

lemma PutUint16_Uint16 [bytes_simps]:
  assumes "length xs = 2"
  shows "PutUint16 (Uint16 xs) = xs"
proof -
  from assms obtain b0 b1 where xs: "xs = [b0, b1]"
    by (auto simp: length_Suc_conv eval_nat_numeral)
  show ?thesis
    unfolding xs PutUint16_def by (simp, intro conjI; rule bit_word_eqI; simp add: bit_simps byte_high_bits)
qed

lemma u64_sub_add_cancel: "(b::u64) \<le> a \<Longrightarrow> unat (a - b) = unat a - unat b"
  by (rule unat_sub)

lemma unat_add_no_wrap: "unat (a::u64) + unat b < 2 ^ 64 \<Longrightarrow> unat (a + b) = unat a + unat b"
  by (simp add: unat_word_ariths)

lemma unat_mult_no_wrap: "unat (a::u64) * unat b < 2 ^ 64 \<Longrightarrow> unat (a * b) = unat a * unat b"
  by (simp add: unat_word_ariths)

lemma take_append_exact: "length xs = n \<Longrightarrow> take n (xs @ ys) = xs"
  by simp

lemma drop_append_exact: "length xs = n \<Longrightarrow> drop n (xs @ ys) = ys"
  by simp

end
