(* ===== verification/Packing.thy ===== *)
theory Packing
  imports Prelude
begin

text \<open>
  The byte packer of avalanchego (\<^verbatim>\<open>utils/wrappers\<close>), the hypersdk wrapper around it
  (\<^verbatim>\<open>codec/packer.go\<close>) and the database helpers that pack a \<^verbatim>\<open>uint64\<close>.
  Writing is shown to append the big-endian encoding or to record
  \<open>ErrInsufficientLength\<close> (\<open>emit\<close>); reading is shown to consume exactly the encoding
  that writing produced. The locale \<open>wire_field\<close> states that contract once; every kind of
  field is an interpretation of it.
\<close>

section \<open>wrappers.Errs and wrappers.Packer\<close>

text \<open>
  \<open>Offset\<close> and \<open>MaxSize\<close> are Go \<^verbatim>\<open>int\<close>s that start non-negative and only grow, so
  they are naturals; the \<^verbatim>\<open>errNegativeOffset\<close> branch of \<^verbatim>\<open>checkSpace\<close> and its
  test for a negative size are then dead. The capacity of \<open>Bytes\<close> is not observable: a slice
  that grows into spare capacity exposes zero bytes, as appending zeroes does.
\<close>

record Packer =
  Err :: "go_error option"
  MaxSize :: nat
  Bytes :: bytes
  Offset :: nat

definition Errored :: "Packer \<Rightarrow> bool" where
  "Errored p \<longleftrightarrow> Err p \<noteq> None"

definition Errs_Add :: "go_error \<Rightarrow> Packer \<Rightarrow> Packer" where
  "Errs_Add e p = (if Err p = None then p\<lparr>Err := Some e\<rparr> else p)"

definition MaxStringLen :: nat where
  "MaxStringLen = 65535"

definition checkSpace :: "nat \<Rightarrow> Packer \<Rightarrow> Packer" where
  "checkSpace n p =
     (if length (Bytes p) < Offset p + n then Errs_Add (Sentinel ErrInsufficientLength) p else p)"

definition expand :: "nat \<Rightarrow> Packer \<Rightarrow> Packer" where
  "expand n p =
     (let neededSize = n + Offset p in
      if neededSize \<le> length (Bytes p) then p
      else if neededSize > MaxSize p then p\<lparr>Err := Some (Sentinel ErrInsufficientLength)\<rparr>
      else p\<lparr>Bytes := Bytes p @ replicate (neededSize - length (Bytes p)) 0\<rparr>)"

text \<open>Go's \<^verbatim>\<open>copy(dst[off:], src)\<close>: as many bytes as fit.\<close>

definition copy_at :: "nat \<Rightarrow> bytes \<Rightarrow> bytes \<Rightarrow> bytes" where
  "copy_at off src dst =
     take off dst @ take (length dst - off) src @ drop (off + length src) dst"

definition PackFixedBytes :: "bytes \<Rightarrow> Packer \<Rightarrow> Packer" where
  "PackFixedBytes bs p0 =
     (let p = expand (length bs) p0 in
      if Errored p then p
      else p\<lparr>Bytes := copy_at (Offset p) bs (Bytes p), Offset := Offset p + length bs\<rparr>)"

definition PackByte :: "byte \<Rightarrow> Packer \<Rightarrow> Packer" where
  "PackByte v p0 =
     (let p = expand 1 p0 in
      if Errored p then p
      else p\<lparr>Bytes := (Bytes p)[Offset p := v], Offset := Offset p + 1\<rparr>)"

definition PackShort :: "u16 \<Rightarrow> Packer \<Rightarrow> Packer" where
  "PackShort v p0 =
     (let p = expand 2 p0 in
      if Errored p then p
      else p\<lparr>Bytes := copy_at (Offset p) (PutUint16 v) (Bytes p), Offset := Offset p + 2\<rparr>)"

definition PackInt :: "u32 \<Rightarrow> Packer \<Rightarrow> Packer" where
  "PackInt v p0 =
     (let p = expand 4 p0 in
      if Errored p then p
      else p\<lparr>Bytes := copy_at (Offset p) (PutUint32 v) (Bytes p), Offset := Offset p + 4\<rparr>)"

definition PackLong :: "u64 \<Rightarrow> Packer \<Rightarrow> Packer" where
  "PackLong v p0 =
     (let p = expand 8 p0 in
      if Errored p then p
      else p\<lparr>Bytes := copy_at (Offset p) (PutUint64 v) (Bytes p), Offset := Offset p + 8\<rparr>)"

definition PackBool :: "bool \<Rightarrow> Packer \<Rightarrow> Packer" where
  "PackBool b p = (if b then PackByte 1 p else PackByte 0 p)"

definition PackBytes :: "bytes \<Rightarrow> Packer \<Rightarrow> Packer" where
  "PackBytes bs p = PackFixedBytes bs (PackInt (word_of_nat (length bs)) p)"

definition PackStr :: "bytes \<Rightarrow> Packer \<Rightarrow> Packer" where
  "PackStr s p =
     (if length s > MaxStringLen then Errs_Add (Sentinel ErrInvalidInput) p
      else PackFixedBytes s (PackShort (word_of_nat (length s)) p))"

definition UnpackFixedBytes :: "nat \<Rightarrow> Packer \<Rightarrow> bytes \<times> Packer" where
  "UnpackFixedBytes n p0 =
     (let p = checkSpace n p0 in
      if Errored p then ([], p)
      else (take n (drop (Offset p) (Bytes p)), p\<lparr>Offset := Offset p + n\<rparr>))"

definition UnpackByte :: "Packer \<Rightarrow> byte \<times> Packer" where
  "UnpackByte p0 =
     (let p = checkSpace 1 p0 in
      if Errored p then (0, p) else (Bytes p ! Offset p, p\<lparr>Offset := Offset p + 1\<rparr>))"

definition UnpackShort :: "Packer \<Rightarrow> u16 \<times> Packer" where
  "UnpackShort p0 =
     (let p = checkSpace 2 p0 in
      if Errored p then (0, p)
      else (Uint16 (drop (Offset p) (Bytes p)), p\<lparr>Offset := Offset p + 2\<rparr>))"

definition UnpackInt :: "Packer \<Rightarrow> u32 \<times> Packer" where
  "UnpackInt p0 =
     (let p = checkSpace 4 p0 in
      if Errored p then (0, p)
      else (Uint32 (drop (Offset p) (Bytes p)), p\<lparr>Offset := Offset p + 4\<rparr>))"

definition UnpackLong :: "Packer \<Rightarrow> u64 \<times> Packer" where
  "UnpackLong p0 =
     (let p = checkSpace 8 p0 in
      if Errored p then (0, p)
      else (Uint64 (drop (Offset p) (Bytes p)), p\<lparr>Offset := Offset p + 8\<rparr>))"

definition UnpackBool :: "Packer \<Rightarrow> bool \<times> Packer" where
  "UnpackBool p0 =
     (let (b, p) = UnpackByte p0 in
      if b = 0 then (False, p)
      else if b = 1 then (True, p)
      else (False, Errs_Add (Sentinel ErrBadBool) p))"

definition UnpackBytes :: "Packer \<Rightarrow> bytes \<times> Packer" where
  "UnpackBytes p0 = (let (size, p) = UnpackInt p0 in UnpackFixedBytes (unat size) p)"

definition UnpackLimitedBytes :: "u32 \<Rightarrow> Packer \<Rightarrow> bytes \<times> Packer" where
  "UnpackLimitedBytes limit p0 =
     (let (size, p) = UnpackInt p0 in
      if size > limit then ([], Errs_Add (Sentinel ErrOversized) p)
      else UnpackFixedBytes (unat size) p)"

definition UnpackStr :: "Packer \<Rightarrow> bytes \<times> Packer" where
  "UnpackStr p0 = (let (strSize, p) = UnpackShort p0 in UnpackFixedBytes (unat strSize) p)"

definition UnpackLimitedStr :: "u16 \<Rightarrow> Packer \<Rightarrow> bytes \<times> Packer" where
  "UnpackLimitedStr limit p0 =
     (let (strSize, p) = UnpackShort p0 in
      if strSize > limit then ([], Errs_Add (Sentinel ErrOversized) p)
      else UnpackFixedBytes (unat strSize) p)"

section \<open>hypersdk codec.Packer\<close>

definition NewReader :: "bytes \<Rightarrow> nat \<Rightarrow> Packer" where
  "NewReader src limit = \<lparr>Err = None, MaxSize = limit, Bytes = src, Offset = 0\<rparr>"

text \<open>\<open>initial\<close> is the capacity reserved up front, the slice itself starts empty.\<close>

definition NewWriter :: "nat \<Rightarrow> nat \<Rightarrow> Packer" where
  "NewWriter initial limit = \<lparr>Err = None, MaxSize = limit, Bytes = [], Offset = 0\<rparr>"

definition PackUint64 :: "u64 \<Rightarrow> Packer \<Rightarrow> Packer" where
  "PackUint64 v p = PackLong v p"

definition UnpackUint64 :: "bool \<Rightarrow> Packer \<Rightarrow> u64 \<times> Packer" where
  "UnpackUint64 required p0 =
     (let (v, p) = UnpackLong p0 in
      if required \<and> v = 0
      then (v, Errs_Add (Wrapf ''%w: Uint64 field is not populated'' []
                           (Sentinel ErrFieldNotPopulated)) p)
      else (v, p))"

definition PackInt64 :: "i64 \<Rightarrow> Packer \<Rightarrow> Packer" where
  "PackInt64 v p = PackLong v p"

definition UnpackInt64 :: "bool \<Rightarrow> Packer \<Rightarrow> i64 \<times> Packer" where
  "UnpackInt64 required p0 =
     (let (v, p) = UnpackLong p0 in
      if required \<and> v = 0
      then (v, Errs_Add (Wrapf ''%w: Int64 field is not populated'' []
                           (Sentinel ErrFieldNotPopulated)) p)
      else (v, p))"

definition Packer_Empty :: "Packer \<Rightarrow> bool" where
  "Packer_Empty p \<longleftrightarrow> Offset p = length (Bytes p)"

section \<open>avalanchego database helpers\<close>

definition database_PackUInt64 :: "u64 \<Rightarrow> bytes" where
  "database_PackUInt64 v = PutUint64 v"

definition database_ParseUInt64 :: "bytes \<Rightarrow> u64 result" where
  "database_ParseUInt64 b =
     (if length b \<noteq> 8 then Inl (Sentinel ErrWrongSize) else Inr (Uint64 b))"

section \<open>Writing appends\<close>

text \<open>
  \<open>fresh_writer p\<close>: no error yet and everything written so far is kept. \<open>emit\<close> is what
  every pack operation does to such a packer.
\<close>

definition fresh_writer :: "Packer \<Rightarrow> bool" where
  "fresh_writer p \<longleftrightarrow> Err p = None \<and> Offset p = length (Bytes p)"

definition appended :: "bytes \<Rightarrow> Packer \<Rightarrow> Packer" where
  "appended xs p = p\<lparr>Bytes := Bytes p @ xs, Offset := Offset p + length xs\<rparr>"

definition fits :: "bytes \<Rightarrow> Packer \<Rightarrow> bool" where
  "fits xs p \<longleftrightarrow> xs = [] \<or> length (Bytes p) + length xs \<le> MaxSize p"

definition emit :: "bytes \<Rightarrow> Packer \<Rightarrow> Packer" where
  "emit xs p =
     (if fits xs p then appended xs p else p\<lparr>Err := Some (Sentinel ErrInsufficientLength)\<rparr>)"

lemma appended_Nil [simp]: "appended [] p = p"
  by (simp add: appended_def)

lemma appended_appended [simp]: "appended ys (appended xs p) = appended (xs @ ys) p"
  by (simp add: appended_def)

lemma appended_sel [simp]:
  "Bytes (appended xs p) = Bytes p @ xs" "MaxSize (appended xs p) = MaxSize p"
  "Err (appended xs p) = Err p" "Offset (appended xs p) = Offset p + length xs"
  by (simp_all add: appended_def)

lemma fresh_writer_appended [simp]: "fresh_writer (appended xs p) = fresh_writer p"
  by (simp add: fresh_writer_def)

lemma fresh_writer_NewWriter [simp]: "fresh_writer (NewWriter i l)"
  by (simp add: fresh_writer_def NewWriter_def)

lemma copy_at_end [simp]:
  "copy_at (length xs) ys (xs @ replicate (length ys) 0) = xs @ ys"
  by (simp add: copy_at_def)

lemma expand_fresh:
  assumes "fresh_writer p"
  shows "expand n p =
    (if n = 0 then p
     else if length (Bytes p) + n > MaxSize p then p\<lparr>Err := Some (Sentinel ErrInsufficientLength)\<rparr>
     else p\<lparr>Bytes := Bytes p @ replicate n 0\<rparr>)"
  using assms by (auto simp: expand_def fresh_writer_def Let_def)

lemma copy_at_end_n: "length ys = n \<Longrightarrow> copy_at (length xs) ys (xs @ replicate n 0) = xs @ ys"
  by auto

lemma PackFixedBytes_emit: "fresh_writer p \<Longrightarrow> PackFixedBytes bs p = emit bs p"
  by (cases "bs = []")
     (simp_all add: PackFixedBytes_def expand_fresh emit_def fits_def appended_def Errored_def
        fresh_writer_def copy_at_def)

text \<open>The fixed-width writers are the same operation on their big-endian encodings.\<close>

lemma Pack_as_PackFixedBytes:
  "PackShort v = PackFixedBytes (PutUint16 v)"
  "PackInt w = PackFixedBytes (PutUint32 w)"
  "PackLong x = PackFixedBytes (PutUint64 x)"
  by (rule ext, simp add: PackShort_def PackInt_def PackLong_def PackFixedBytes_def Let_def)+

lemma PackByte_emit: "fresh_writer p \<Longrightarrow> PackByte v p = emit [v] p"
  by (simp add: PackByte_def expand_fresh emit_def fits_def appended_def Errored_def
        fresh_writer_def list_update_append)

lemma emit_error: "Err p = Some e \<Longrightarrow> Err (PackFixedBytes bs p) \<noteq> None"
  by (auto simp: PackFixedBytes_def expand_def Let_def Errored_def)

section \<open>Reading consumes\<close>

definition unread :: "Packer \<Rightarrow> bytes" where
  "unread p = drop (Offset p) (Bytes p)"

definition advance :: "nat \<Rightarrow> Packer \<Rightarrow> Packer" where
  "advance n p = p\<lparr>Offset := Offset p + n\<rparr>"

lemma advance_sel [simp]:
  "Err (advance n p) = Err p" "Bytes (advance n p) = Bytes p" "Offset (advance n p) = Offset p + n"
  "MaxSize (advance n p) = MaxSize p"
  by (simp_all add: advance_def)

lemma advance_advance [simp]: "advance m (advance n p) = advance (n + m) p"
  by (simp add: advance_def add.assoc)

lemma advance_0 [simp]: "advance 0 p = p"
  by (simp add: advance_def)

lemma unread_advance [simp]: "unread (advance n p) = drop n (unread p)"
  by (simp add: unread_def add.commute)

lemma unread_NewReader [simp]: "unread (NewReader bs l) = bs"
  by (simp add: unread_def NewReader_def)

lemma Err_NewReader [simp]: "Err (NewReader bs l) = None"
  by (simp add: NewReader_def)

lemma checkSpace_ok [simp]:
  "n \<le> length (unread p) \<Longrightarrow> Offset p \<le> length (Bytes p) \<Longrightarrow> checkSpace n p = p"
  by (auto simp: checkSpace_def unread_def)

lemma checkSpace_short:
  "Err p = None \<Longrightarrow> length (Bytes p) < Offset p + n \<Longrightarrow>
   checkSpace n p = p\<lparr>Err := Some (Sentinel ErrInsufficientLength)\<rparr>"
  by (simp add: checkSpace_def Errs_Add_def)

definition good_reader :: "Packer \<Rightarrow> bool" where
  "good_reader p \<longleftrightarrow> Err p = None \<and> Offset p \<le> length (Bytes p)"

lemma good_reader_NewReader [simp]: "good_reader (NewReader bs l)"
  by (simp add: good_reader_def NewReader_def)

lemma good_reader_advance:
  "good_reader p \<Longrightarrow> n \<le> length (unread p) \<Longrightarrow> good_reader (advance n p)"
  by (auto simp: good_reader_def unread_def)

lemma UnpackFixedBytes_read:
  "good_reader p \<Longrightarrow> unread p = xs @ r \<Longrightarrow> length xs = n \<Longrightarrow>
   UnpackFixedBytes n p = (xs, advance n p)"
  by (simp add: UnpackFixedBytes_def Errored_def good_reader_def advance_def)
     (simp add: unread_def)

lemma UnpackByte_read:
  assumes "good_reader p" and "unread p = b # r"
  shows "UnpackByte p = (b, advance 1 p)"
proof -
  have "Bytes p ! Offset p = b"
    using assms by (metis good_reader_def unread_def hd_drop_conv_nth drop_all
        le_neq_implies_less list.sel(1) list.distinct(1))
  then show ?thesis
    using assms by (simp add: UnpackByte_def Errored_def good_reader_def advance_def)
qed

lemma UnpackShort_read:
  "good_reader p \<Longrightarrow> unread p = PutUint16 v @ r \<Longrightarrow> UnpackShort p = (v, advance 2 p)"
  by (simp add: UnpackShort_def Errored_def good_reader_def advance_def) (simp add: unread_def)

lemma UnpackInt_read:
  "good_reader p \<Longrightarrow> unread p = PutUint32 v @ r \<Longrightarrow> UnpackInt p = (v, advance 4 p)"
  by (simp add: UnpackInt_def Errored_def good_reader_def advance_def) (simp add: unread_def)

lemma UnpackLong_read:
  "good_reader p \<Longrightarrow> unread p = PutUint64 v @ r \<Longrightarrow> UnpackLong p = (v, advance 8 p)"
  by (simp add: UnpackLong_def Errored_def good_reader_def advance_def) (simp add: unread_def)

text \<open>Conversely, a read that succeeds has found the bytes it returns.\<close>

lemma checkSpace_good:
  assumes "good_reader p" and "Err (checkSpace n p) = None"
  shows "checkSpace n p = p" and "n \<le> length (unread p)"
  using assms by (auto simp: checkSpace_def Errs_Add_def good_reader_def unread_def split: if_splits)

lemma UnpackFixedBytes_sound:
  assumes "good_reader p" and "UnpackFixedBytes n p = (bs, p')" and "Err p' = None"
  shows "length bs = n" and "\<exists>r. unread p = bs @ r" and "p' = advance n p"
proof -
  have e: "Err (checkSpace n p) = None"
    using assms(2,3) by (auto simp: UnpackFixedBytes_def Let_def Errored_def split: if_splits)
  have "bs = take n (unread p)" "p' = advance n p"
    using assms(2) e checkSpace_good(1) [OF assms(1) e]
    by (auto simp: UnpackFixedBytes_def Errored_def unread_def advance_def Let_def)
  then show "length bs = n" "\<exists>r. unread p = bs @ r" "p' = advance n p"
    using checkSpace_good(2) [OF assms(1) e] by (auto intro: exI [of _ "drop n (unread p)"])
qed

text \<open>The fixed-width readers read as many bytes and take them for a big-endian number.\<close>

lemma Unpack_as_UnpackFixedBytes:
  assumes "good_reader p"
  shows "UnpackShort p = apfst Uint16 (UnpackFixedBytes 2 p)"
    and "UnpackInt p = apfst Uint32 (UnpackFixedBytes 4 p)"
    and "UnpackLong p = apfst Uint64 (UnpackFixedBytes 8 p)"
    and "UnpackByte p = apfst (\<lambda>bs. if bs = [] then 0 else hd bs) (UnpackFixedBytes 1 p)"
proof -
  have 2: "2 \<le> length xs \<Longrightarrow> Uint16 (take 2 xs) = Uint16 xs" for xs
    by (cases xs rule: Uint16.cases) (simp_all add: eval_nat_numeral)
  have 4: "4 \<le> length xs \<Longrightarrow> Uint32 (take 4 xs) = Uint32 xs" for xs
    by (cases xs rule: Uint32.cases) (simp_all add: eval_nat_numeral)
  have 8: "8 \<le> length xs \<Longrightarrow> Uint64 (take 8 xs) = Uint64 xs" for xs
    by (cases xs rule: Uint64.cases) (simp_all add: eval_nat_numeral)
  have s: "checkSpace n p = p \<and> n \<le> length (unread p)" if "\<not> Errored (checkSpace n p)" for n
    using that checkSpace_good [OF assms, of n] by (auto simp: Errored_def)
  show "UnpackShort p = apfst Uint16 (UnpackFixedBytes 2 p)"
    using s [of 2] by (auto simp: UnpackShort_def UnpackFixedBytes_def Let_def unread_def 2)
  show "UnpackInt p = apfst Uint32 (UnpackFixedBytes 4 p)"
    using s [of 4] by (auto simp: UnpackInt_def UnpackFixedBytes_def Let_def unread_def 4)
  show "UnpackLong p = apfst Uint64 (UnpackFixedBytes 8 p)"
    using s [of 8] by (auto simp: UnpackLong_def UnpackFixedBytes_def Let_def unread_def 8)
  show "UnpackByte p = apfst (\<lambda>bs. if bs = [] then 0 else hd bs) (UnpackFixedBytes 1 p)"
    using s [of 1] by (auto simp: UnpackByte_def UnpackFixedBytes_def Let_def unread_def hd_drop_conv_nth)
qed

lemma fixed_width_sound:
  assumes "good_reader p" and "apfst f (UnpackFixedBytes n p) = (v, p')" and "Err p' = None"
    and "\<And>xs. length xs = n \<Longrightarrow> e (f xs) = xs"
  shows "(\<exists>r. unread p = e v @ r) \<and> p' = advance (length (e v)) p"
proof -
  obtain bs where bs: "UnpackFixedBytes n p = (bs, p')" "v = f bs" using assms(2) by (cases "UnpackFixedBytes n p") auto
  from UnpackFixedBytes_sound [OF assms(1) bs(1) assms(3)] show ?thesis by (simp add: bs(2) assms(4))
qed

section \<open>The contract of a wire field\<close>

text \<open>
  A kind of field is written by \<open>pack\<close> and read back by \<open>unpack\<close>; \<open>enc\<close> is the
  encoding both agree on. Everything a client of the packer needs follows from the laws: writing
  appends the encoding or fails, reading consumes it, and a read that succeeds has found the encoding
  of what it returns.
\<close>

locale wire_field =
  fixes pack :: "'a \<Rightarrow> Packer \<Rightarrow> Packer"
    and unpack :: "Packer \<Rightarrow> 'a \<times> Packer"
    and enc :: "'a \<Rightarrow> bytes"
    and valid :: "'a \<Rightarrow> bool"
  assumes pack_fits: "fresh_writer p \<Longrightarrow> valid v \<Longrightarrow> fits (enc v) p \<Longrightarrow> pack v p = appended (enc v) p"
    and pack_full: "fresh_writer p \<Longrightarrow> valid v \<Longrightarrow> \<not> fits (enc v) p \<Longrightarrow>
      Err (pack v p) = Some (Sentinel ErrInsufficientLength)"
    and unpack_read: "good_reader p \<Longrightarrow> valid v \<Longrightarrow> unread p = enc v @ r \<Longrightarrow>
      unpack p = (v, advance (length (enc v)) p)"
    and unpack_sound: "good_reader p \<Longrightarrow> unpack p = (v, p') \<Longrightarrow> Err p' = None \<Longrightarrow>
      valid v \<and> (\<exists>r. unread p = enc v @ r) \<and> p' = advance (length (enc v)) p"
begin

lemma pack_Err:
  "fresh_writer p \<Longrightarrow> valid v \<Longrightarrow>
   Err (pack v p) = (if fits (enc v) p then None else Some (Sentinel ErrInsufficientLength))"
  by (simp add: pack_fits pack_full) (simp add: fresh_writer_def)

lemma write_read:
  assumes "valid v" and "length (enc v) \<le> limit"
  shows "unpack (NewReader (Bytes (pack v (NewWriter i limit))) l) =
           (v, advance (length (enc v)) (NewReader (enc v) l))"
proof -
  have "fits (enc v) (NewWriter i limit)"
    using assms(2) by (simp add: fits_def NewWriter_def)
  then have "Bytes (pack v (NewWriter i limit)) = enc v"
    using assms(1) by (simp add: pack_fits) (simp add: NewWriter_def)
  then show ?thesis
    using unpack_read [of "NewReader (enc v) l" v "[]"] assms(1) by simp
qed

end

lemma Err_PackFixedBytes_full:
  "Err p = Some (Sentinel ErrInsufficientLength) \<Longrightarrow>
   Err (PackFixedBytes bs p) = Some (Sentinel ErrInsufficientLength)"
  by (auto simp: PackFixedBytes_def expand_def Let_def Errored_def)

lemma PackFixedBytes_twice:
  assumes "fresh_writer p"
  shows "fits (xs @ ys) p \<Longrightarrow> PackFixedBytes ys (PackFixedBytes xs p) = appended (xs @ ys) p"
    and "\<not> fits (xs @ ys) p \<Longrightarrow>
      Err (PackFixedBytes ys (PackFixedBytes xs p)) = Some (Sentinel ErrInsufficientLength)"
proof -
  assume f: "fits (xs @ ys) p"
  then have "PackFixedBytes xs p = appended xs p"
    using assms by (auto simp: PackFixedBytes_emit emit_def fits_def)
  moreover have "fits ys (appended xs p)"
    using f by (auto simp: fits_def)
  ultimately show "PackFixedBytes ys (PackFixedBytes xs p) = appended (xs @ ys) p"
    using assms by (simp add: PackFixedBytes_emit emit_def)
next
  assume f: "\<not> fits (xs @ ys) p"
  show "Err (PackFixedBytes ys (PackFixedBytes xs p)) = Some (Sentinel ErrInsufficientLength)"
  proof (cases "fits xs p")
    case True
    then have x: "PackFixedBytes xs p = appended xs p"
      using assms by (simp add: PackFixedBytes_emit emit_def)
    have "\<not> fits ys (appended xs p)"
      using f True by (auto simp: fits_def)
    then show ?thesis
      using assms by (simp add: x PackFixedBytes_emit emit_def)
  next
    case False
    then have "Err (PackFixedBytes xs p) = Some (Sentinel ErrInsufficientLength)"
      using assms by (simp add: PackFixedBytes_emit emit_def)
    then show ?thesis by (rule Err_PackFixedBytes_full)
  qed
qed

definition enc_bool :: "bool \<Rightarrow> bytes" where
  "enc_bool b = [if b then 1 else 0]"

definition enc_str :: "bytes \<Rightarrow> bytes" where
  "enc_str s = PutUint16 (word_of_nat (length s)) @ s"

definition enc_blob :: "bytes \<Rightarrow> bytes" where
  "enc_blob s = PutUint32 (word_of_nat (length s)) @ s"

lemma UnpackByte_sound:
  assumes "good_reader p" and "UnpackByte p = (v, p')" and "Err p' = None"
  shows "(\<exists>r. unread p = [v] @ r) \<and> p' = advance (length [v]) p"
proof -
  have "[if xs = [] then 0 else hd xs] = xs" if "length xs = 1" for xs :: bytes
    using that by (cases xs) simp_all
  with fixed_width_sound [where e = "\<lambda>v. [v]", OF assms(1)
      assms(2) [unfolded Unpack_as_UnpackFixedBytes(4) [OF assms(1)]] assms(3)]
  show ?thesis by blast
qed

lemma UnpackBool_sound:
  assumes "good_reader p" and "UnpackBool p = (b, p')" and "Err p' = None"
  shows "(\<exists>r. unread p = enc_bool b @ r) \<and> p' = advance (length (enc_bool b)) p"
proof -
  obtain v q where v: "UnpackByte p = (v, q)" by force
  with assms(2,3) have "Err q = None" "p' = q" "v = (if b then 1 else 0)"
    by (auto simp: UnpackBool_def Errs_Add_def split: if_splits)
  moreover have "(\<exists>r. unread p = [v] @ r) \<and> q = advance (length [v]) p"
    using UnpackByte_sound [OF assms(1) v] \<open>Err q = None\<close> by blast
  ultimately show ?thesis by (simp add: enc_bool_def)
qed

interpretation byte_field: wire_field PackByte UnpackByte "\<lambda>v. [v]" "\<lambda>_. True"
proof unfold_locales
  fix p v p' assume "good_reader p" "UnpackByte p = (v, p')" "Err p' = None"
  then show "True \<and> (\<exists>r. unread p = [v] @ r) \<and> p' = advance (length [v]) p"
    using UnpackByte_sound by blast
qed (simp_all add: PackByte_emit emit_def UnpackByte_read)

interpretation bool_field: wire_field PackBool UnpackBool enc_bool "\<lambda>_. True"
  by unfold_locales
     (auto simp: PackBool_def PackByte_emit emit_def fits_def enc_bool_def UnpackBool_def
        UnpackByte_read dest: UnpackBool_sound)

interpretation short_field: wire_field PackShort UnpackShort PutUint16 "\<lambda>_. True"
proof unfold_locales
  fix p v p' assume p: "good_reader p" "UnpackShort p = (v, p')" "Err p' = None"
  show "True \<and> (\<exists>r. unread p = PutUint16 v @ r) \<and> p' = advance (length (PutUint16 v)) p"
    using fixed_width_sound [where e = PutUint16, OF p(1) p(2) [unfolded Unpack_as_UnpackFixedBytes(1) [OF p(1)]] p(3)]
    by (simp add: PutUint16_Uint16)
qed (simp_all add: Pack_as_PackFixedBytes PackFixedBytes_emit emit_def UnpackShort_read)

interpretation int_field: wire_field PackInt UnpackInt PutUint32 "\<lambda>_. True"
proof unfold_locales
  fix p v p' assume p: "good_reader p" "UnpackInt p = (v, p')" "Err p' = None"
  show "True \<and> (\<exists>r. unread p = PutUint32 v @ r) \<and> p' = advance (length (PutUint32 v)) p"
    using fixed_width_sound [where e = PutUint32, OF p(1) p(2) [unfolded Unpack_as_UnpackFixedBytes(2) [OF p(1)]] p(3)]
    by (simp add: PutUint32_Uint32)
qed (simp_all add: Pack_as_PackFixedBytes PackFixedBytes_emit emit_def UnpackInt_read)

interpretation long_field: wire_field PackLong UnpackLong PutUint64 "\<lambda>_. True"
proof unfold_locales
  fix p v p' assume p: "good_reader p" "UnpackLong p = (v, p')" "Err p' = None"
  show "True \<and> (\<exists>r. unread p = PutUint64 v @ r) \<and> p' = advance (length (PutUint64 v)) p"
    using fixed_width_sound [where e = PutUint64, OF p(1) p(2) [unfolded Unpack_as_UnpackFixedBytes(3) [OF p(1)]] p(3)]
    by (simp add: PutUint64_Uint64)
qed (simp_all add: Pack_as_PackFixedBytes PackFixedBytes_emit emit_def UnpackLong_read)

lemma unat_of_nat_small_u16: "n \<le> MaxStringLen \<Longrightarrow> unat (word_of_nat n :: u16) = n"
  by (simp add: MaxStringLen_def unat_of_nat)

lemma unat_of_nat_small_u32: "n < 2 ^ 32 \<Longrightarrow> unat (word_of_nat n :: u32) = n"
  by (simp add: unat_of_nat)

lemma UnpackStr_read:
  assumes "good_reader p" and "length s \<le> MaxStringLen" and "unread p = enc_str s @ r"
  shows "UnpackStr p = (s, advance (length (enc_str s)) p)"
proof -
  have u: "UnpackShort p = (word_of_nat (length s), advance 2 p)"
    using assms(1) assms(3) by (simp add: UnpackShort_read enc_str_def)
  have g: "good_reader (advance 2 p)" "unread (advance 2 p) = s @ r"
    using assms(1,3) by (simp_all add: good_reader_advance enc_str_def)
  show ?thesis
    using UnpackFixedBytes_read [OF g refl] assms(2)
    by (simp add: UnpackStr_def u unat_of_nat_small_u16 enc_str_def)
qed

lemma UnpackBytes_read:
  assumes "good_reader p" and "length s < 2 ^ 32" and "unread p = enc_blob s @ r"
  shows "UnpackBytes p = (s, advance (length (enc_blob s)) p)"
proof -
  have u: "UnpackInt p = (word_of_nat (length s), advance 4 p)"
    using assms(1) assms(3) by (simp add: UnpackInt_read enc_blob_def)
  have g: "good_reader (advance 4 p)" "unread (advance 4 p) = s @ r"
    using assms(1,3) by (simp_all add: good_reader_advance enc_blob_def)
  show ?thesis
    using UnpackFixedBytes_read [OF g refl] assms(2)
    by (simp add: UnpackBytes_def u unat_of_nat_small_u32 enc_blob_def)
qed

text \<open>A length followed by that many bytes.\<close>

lemma UnpackFixedBytes_error: "Err p \<noteq> None \<Longrightarrow> Err (snd (UnpackFixedBytes n p)) \<noteq> None"
  by (auto simp: UnpackFixedBytes_def checkSpace_def Errs_Add_def Errored_def Let_def)

lemma prefixed_sound:
  assumes "good_reader p" and "UnpackFixedBytes n q = (s, p')" and "Err p' = None"
    and "Err q = None \<Longrightarrow> (\<exists>r. unread p = xs @ r) \<and> q = advance (length xs) p"
  shows "length s = n \<and> (\<exists>r. unread p = (xs @ s) @ r) \<and> p' = advance (length (xs @ s)) p"
proof -
  have "Err q = None" using UnpackFixedBytes_error [of q n] assms(2,3) by (cases "Err q") auto
  then obtain r where r: "unread p = xs @ r" and q: "q = advance (length xs) p" using assms(4) by blast
  then have "good_reader q" "unread q = r" using assms(1) by (simp_all add: good_reader_advance)
  with UnpackFixedBytes_sound [OF _ assms(2,3)] r q show ?thesis by auto
qed

lemma UnpackStr_sound:
  assumes "good_reader p" and "UnpackStr p = (s, p')" and "Err p' = None"
  shows "length s \<le> MaxStringLen \<and> (\<exists>r. unread p = enc_str s @ r) \<and> p' = advance (length (enc_str s)) p"
proof -
  obtain n q where n: "UnpackShort p = (n, q)" "UnpackFixedBytes (unat n) q = (s, p')"
    using assms(2) by (auto simp: UnpackStr_def split: prod.splits)
  from prefixed_sound [OF assms(1) n(2) assms(3), of "PutUint16 n"] short_field.unpack_sound [OF assms(1) n(1)]
  have "length s = unat n \<and> (\<exists>r. unread p = (PutUint16 n @ s) @ r) \<and> p' = advance (length (PutUint16 n @ s)) p" by blast
  moreover have "unat n \<le> MaxStringLen" using unsigned_less [of n, where ?'a = nat] by (simp add: MaxStringLen_def)
  moreover have "word_of_nat (unat n) = n" by simp
  ultimately show ?thesis by (auto simp: enc_str_def)
qed

lemma UnpackBytes_sound:
  assumes "good_reader p" and "UnpackBytes p = (s, p')" and "Err p' = None"
  shows "length s < 2 ^ 32 \<and> (\<exists>r. unread p = enc_blob s @ r) \<and> p' = advance (length (enc_blob s)) p"
proof -
  obtain n q where n: "UnpackInt p = (n, q)" "UnpackFixedBytes (unat n) q = (s, p')"
    using assms(2) by (auto simp: UnpackBytes_def split: prod.splits)
  from prefixed_sound [OF assms(1) n(2) assms(3), of "PutUint32 n"] int_field.unpack_sound [OF assms(1) n(1)]
  have "length s = unat n \<and> (\<exists>r. unread p = (PutUint32 n @ s) @ r) \<and> p' = advance (length (PutUint32 n @ s)) p" by blast
  moreover have "unat n < 2 ^ 32" using unsigned_less [of n, where ?'a = nat] by simp
  ultimately show ?thesis by (auto simp: enc_blob_def)
qed

interpretation str_field: wire_field PackStr UnpackStr enc_str "\<lambda>s. length s \<le> MaxStringLen"
proof unfold_locales
  fix p s p' assume "good_reader p" "UnpackStr p = (s, p')" "Err p' = None"
  then show "length s \<le> MaxStringLen \<and> (\<exists>r. unread p = enc_str s @ r) \<and> p' = advance (length (enc_str s)) p"
    by (rule UnpackStr_sound)
qed (simp_all add: PackStr_def Pack_as_PackFixedBytes enc_str_def PackFixedBytes_twice
        UnpackStr_read [unfolded enc_str_def])

interpretation blob_field: wire_field PackBytes UnpackBytes enc_blob "\<lambda>s. length s < 2 ^ 32"
proof unfold_locales
  fix p s p' assume "good_reader p" "UnpackBytes p = (s, p')" "Err p' = None"
  then show "length s < 2 ^ 32 \<and> (\<exists>r. unread p = enc_blob s @ r) \<and> p' = advance (length (enc_blob s)) p"
    by (rule UnpackBytes_sound)
qed (simp_all add: PackBytes_def Pack_as_PackFixedBytes enc_blob_def PackFixedBytes_twice
        UnpackBytes_read [unfolded enc_blob_def])

end
