(* ===== verification/Consts.thy ===== *)
theory Consts
  imports Packing
begin

text \<open>
  The constants of the program (\<^verbatim>\<open>consts/consts.go\<close>), the addresses of hypersdk
  (\<^verbatim>\<open>codec/address.go\<close>) and the identifiers of avalanchego (\<^verbatim>\<open>ids/id.go\<close>).
  Shown: the action identifiers the \<^verbatim>\<open>iota\<close> block really gives, and that an address
  printed as checksummed hex is read back.
\<close>

section \<open>consts.go\<close>

definition Name :: bytes where
  "Name = bytes_of_string ''predictionvm''"

definition consts_Symbol :: string where
  "consts_Symbol = ''PRED''"

definition MaxMarketDataSize :: nat where
  "MaxMarketDataSize = 1024"

text \<open>
  The position of each constant in its block; \<^verbatim>\<open>iota\<close> counts the lines of the block from
  zero, also those that do not use it.
\<close>

definition consts_block :: "string list" where
  "consts_block = [''Name'', ''Symbol'', ''MaxMarketDataSize'', ''TransferID'',
     ''CreateMarketID'', ''BuyYesID'', ''BuyNoID'']"

fun iota_of :: "string \<Rightarrow> string list \<Rightarrow> nat" where
  "iota_of n [] = 0"
| "iota_of n (m # ms) = (if n = m then 0 else Suc (iota_of n ms))"

definition TransferID :: u8 where "TransferID = 0"

definition CreateMarketID :: u8 where
  "CreateMarketID = word_of_nat (iota_of ''CreateMarketID'' consts_block)"

definition BuyYesID :: u8 where
  "BuyYesID = word_of_nat (iota_of ''BuyYesID'' consts_block)"

definition BuyNoID :: u8 where
  "BuyNoID = word_of_nat (iota_of ''BuyNoID'' consts_block)"

definition CodecVersionDefault :: u16 where "CodecVersionDefault = 0"
definition consts_BalancePrefix :: byte where "consts_BalancePrefix = 0x3"
definition BalanceChunks :: u16 where "BalanceChunks = 1"
definition Uint16Len :: nat where "Uint16Len = 2"
definition MaxActionSize :: nat where "MaxActionSize = 1024"

definition YesShareType :: u8 where "YesShareType = 0"
definition NoShareType :: u8 where "NoShareType = 1"

definition ShareTypeToString :: "u8 \<Rightarrow> string" where
  "ShareTypeToString shareType =
     (if shareType = YesShareType then ''YES''
      else if shareType = NoShareType then ''NO''
      else ''UnknownShareType'')"

lemma action_ids [simp]: "TransferID = 0" "CreateMarketID = 4" "BuyYesID = 5" "BuyNoID = 6"
  by (simp_all add: TransferID_def CreateMarketID_def BuyYesID_def BuyNoID_def consts_block_def)

section \<open>avalanchego ids and hashing\<close>

definition IDLen :: nat where "IDLen = 32"

definition ToHash256 :: "bytes \<Rightarrow> bytes result" where
  "ToHash256 b =
     (if length b \<noteq> IDLen
      then Inl (Wrapf ''%w: expected %d bytes but got %d'' [FNat IDLen, FNat (length b)]
                  (Sentinel ErrInvalidHashLen))
      else Inr (copy_at 0 b (replicate IDLen 0)))"

definition ToID :: "bytes \<Rightarrow> bytes result" where
  "ToID b = ToHash256 b"

text \<open>\<^verbatim>\<open>init\<close>: the identifier of the VM; \<open>None\<close> is the panic.\<close>

definition consts_ID :: "bytes option" where
  "consts_ID = (case ToID (copy_at 0 Name (replicate IDLen 0)) of Inl _ \<Rightarrow> None | Inr i \<Rightarrow> Some i)"

lemma ToID_ok: "length b = IDLen \<Longrightarrow> ToID b = Inr b"
  by (simp add: ToID_def ToHash256_def copy_at_def)

section \<open>hypersdk addresses\<close>

definition AddressLen :: nat where "AddressLen = 33"
definition checksumLen :: nat where "checksumLen = 4"

text \<open>
  \<^verbatim>\<open>type Address [33]byte\<close>. An array of Go has its length by type; here it is a
  well-formedness condition.
\<close>

type_synonym Address = bytes

definition wf_Address :: "Address \<Rightarrow> bool" where
  "wf_Address a \<longleftrightarrow> length a = AddressLen"

definition EmptyAddress :: Address where
  "EmptyAddress = replicate AddressLen 0"

definition CreateAddress :: "u8 \<Rightarrow> bytes \<Rightarrow> Address" where
  "CreateAddress typeID i = copy_at 1 i ((replicate AddressLen 0)[0 := typeID])"

definition ToAddress :: "bytes \<Rightarrow> Address result" where
  "ToAddress b =
     (if length b \<noteq> AddressLen
      then Inl (Errorf ''failed to convert bytes to address: length of bytes is %d, expected %d''
                  [FNat (length b), FNat AddressLen])
      else Inr (copy_at 0 b EmptyAddress))"

lemma copy_at_array: "length b = n \<Longrightarrow> copy_at 0 b (replicate n x) = b"
  by (simp add: copy_at_def)

lemma wf_EmptyAddress [simp]: "wf_Address EmptyAddress"
  by (simp add: wf_Address_def EmptyAddress_def)

lemma ToAddress_ok: "wf_Address a \<Longrightarrow> ToAddress a = Inr a"
  by (simp add: ToAddress_def wf_Address_def EmptyAddress_def copy_at_array)

lemma wf_CreateAddress: "length i = IDLen \<Longrightarrow> wf_Address (CreateAddress t i)"
  by (simp add: wf_Address_def CreateAddress_def AddressLen_def IDLen_def copy_at_def)

lemma CreateAddress_eq: "length i = IDLen \<Longrightarrow> CreateAddress t i = t # i"
  by (simp add: CreateAddress_def AddressLen_def IDLen_def copy_at_def numeral_eq_Suc)

section \<open>encoding/hex\<close>

definition hex_digit :: "byte \<Rightarrow> char" where
  "hex_digit n = ''0123456789abcdef'' ! unat n"

definition EncodeToString :: "bytes \<Rightarrow> string" where
  "EncodeToString bs = concat (map (\<lambda>b. [hex_digit (drop_bit 4 b), hex_digit (b AND 15)]) bs)"

definition from_hex_digit :: "char \<Rightarrow> byte option" where
  "from_hex_digit c =
     (let n = of_char c :: nat in
      if 48 \<le> n \<and> n \<le> 57 then Some (word_of_nat (n - 48))
      else if 97 \<le> n \<and> n \<le> 102 then Some (word_of_nat (n - 87))
      else if 65 \<le> n \<and> n \<le> 70 then Some (word_of_nat (n - 55))
      else None)"

fun DecodeString :: "string \<Rightarrow> bytes result" where
  "DecodeString [] = Inr []"
| "DecodeString [c] =
     (case from_hex_digit c of
        None \<Rightarrow> Inl (Errorf ''encoding/hex: invalid byte: %#U'' [FStr [c]])
      | Some _ \<Rightarrow> Inl (ErrNew ''encoding/hex: odd length hex string''))"
| "DecodeString (c # d # cs) =
     (case from_hex_digit c of
        None \<Rightarrow> Inl (Errorf ''encoding/hex: invalid byte: %#U'' [FStr [c]])
      | Some a \<Rightarrow>
          (case from_hex_digit d of
             None \<Rightarrow> Inl (Errorf ''encoding/hex: invalid byte: %#U'' [FStr [d]])
           | Some b \<Rightarrow>
               (case DecodeString cs of
                  Inl e \<Rightarrow> Inl e
                | Inr bs \<Rightarrow> Inr ((push_bit 4 a OR b) # bs))))"

lemma from_hex_digit_nth:
  "n < 16 \<Longrightarrow> from_hex_digit (''0123456789abcdef'' ! n) = Some (word_of_nat n)"
  by (auto simp: less_Suc_eq numeral_eq_Suc from_hex_digit_def)

lemma from_hex_digit_hex_digit:
  "n < 16 \<Longrightarrow> from_hex_digit (hex_digit n) = Some n"
  using from_hex_digit_nth [of "unat n"]
  by (simp add: hex_digit_def word_less_nat_alt)

lemma nibbles:
  fixes b :: byte
  shows "drop_bit 4 b < 16" "b AND 15 < 16" "push_bit 4 (drop_bit 4 b) OR (b AND 15) = b"
proof -
  show "drop_bit 4 b < 16"
    using unsigned_less [of b, where ?'a = nat]
    by (simp add: word_less_nat_alt unat_drop_bit_eq drop_bit_eq_div unat_div_distrib)
  have m: "(15::byte) = mask 4" by (simp add: mask_eq_exp_minus_1)
  show "b AND 15 < 16"
    unfolding m by (simp flip: take_bit_eq_mask)
      (simp add: word_less_nat_alt unsigned_take_bit_eq take_bit_eq_mod unat_mod_distrib)
  show "push_bit 4 (drop_bit 4 b) OR (b AND 15) = b"
    unfolding m by (rule bit_word_eqI) (auto simp: bit_simps)
qed

lemma DecodeString_EncodeToString: "DecodeString (EncodeToString bs) = Inr bs"
  by (induction bs) (simp_all add: EncodeToString_def from_hex_digit_hex_digit nibbles)

lemma length_EncodeToString: "length (EncodeToString bs) = 2 * length bs"
  by (induction bs) (simp_all add: EncodeToString_def)

section \<open>Checksummed addresses\<close>

text \<open>
  \<^verbatim>\<open>hashing.Checksum(bytes, 4)\<close> is the tail of a SHA-256 digest; the digest is the
  parameter \<open>sha256\<close>.
\<close>

definition Checksum :: "(bytes \<Rightarrow> bytes) \<Rightarrow> bytes \<Rightarrow> nat \<Rightarrow> bytes" where
  "Checksum sha256 bs len = (let h = sha256 bs in drop (length h - len) h)"

definition encodeWithChecksum :: "(bytes \<Rightarrow> bytes) \<Rightarrow> bytes \<Rightarrow> string" where
  "encodeWithChecksum sha256 bs =
     (let checked0 = copy_at 0 bs (replicate (length bs + checksumLen) 0);
          checked = copy_at AddressLen (Checksum sha256 bs checksumLen) checked0
      in ''0x'' @ EncodeToString checked)"

definition Address_String :: "(bytes \<Rightarrow> bytes) \<Rightarrow> Address \<Rightarrow> string" where
  "Address_String sha256 a = encodeWithChecksum sha256 a"

definition fromChecksum :: "(bytes \<Rightarrow> bytes) \<Rightarrow> string \<Rightarrow> bytes result" where
  "fromChecksum sha256 s0 =
     (let s = (if length s0 \<ge> 2 \<and> s0 ! 0 = CHR ''0'' \<and> s0 ! 1 = CHR ''x'' then drop 2 s0 else s0) in
      case DecodeString s of
        Inl e \<Rightarrow> Inl e
      | Inr decoded \<Rightarrow>
          if length decoded < checksumLen then Inl (Sentinel ErrMissingChecksum)
          else
           (let originalBytes = take (length decoded - checksumLen) decoded;
                checksum = drop (length decoded - checksumLen) decoded in
            if checksum \<noteq> Checksum sha256 originalBytes checksumLen
            then Inl (Sentinel ErrBadChecksum)
            else Inr originalBytes))"

definition StringToAddress :: "(bytes \<Rightarrow> bytes) \<Rightarrow> string \<Rightarrow> Address result" where
  "StringToAddress sha256 s =
     (case fromChecksum sha256 s of
        Inl e \<Rightarrow> Inl e
      | Inr decoded \<Rightarrow> Inr (copy_at 0 decoded EmptyAddress))"

lemma length_Checksum: "length (sha256 bs) \<ge> n \<Longrightarrow> length (Checksum sha256 bs n) = n"
  by (simp add: Checksum_def Let_def)

lemma encodeWithChecksum_eq:
  assumes "wf_Address a" and "length (sha256 a) = 32"
  shows "encodeWithChecksum sha256 a = ''0x'' @ EncodeToString (a @ Checksum sha256 a checksumLen)"
  using assms length_Checksum [of checksumLen sha256 a]
  by (simp add: encodeWithChecksum_def wf_Address_def copy_at_def checksumLen_def AddressLen_def
        Let_def)

lemma StringToAddress_String:
  assumes "wf_Address a" and "length (sha256 a) = 32"
  shows "StringToAddress sha256 (Address_String sha256 a) = Inr a"
proof -
  have "length (Checksum sha256 a checksumLen) = checksumLen"
    using assms(2) by (simp add: length_Checksum checksumLen_def)
  then have "fromChecksum sha256 (encodeWithChecksum sha256 a) = Inr a"
    using assms by (simp add: fromChecksum_def encodeWithChecksum_eq DecodeString_EncodeToString Let_def)
  then show ?thesis
    using assms(1)
    by (simp add: StringToAddress_def Address_String_def EmptyAddress_def wf_Address_def
          copy_at_array)
qed

section \<open>Decimal numerals\<close>

text \<open>\<^verbatim>\<open>%d\<close> of an unsigned integer.\<close>

fun decimal :: "nat \<Rightarrow> string" where
  "decimal n =
     (if n < 10 then [char_of (48 + n)] else decimal (n div 10) @ [char_of (48 + n mod 10)])"

declare decimal.simps [simp del]

section \<open>Properties\<close>

text \<open>
  The action identifiers. \<^verbatim>\<open>iota\<close> counts every line of its block, so the identifiers are
  4, 5 and 6, not the 1 and 2 of the comments; they are distinct and differ from the transfer's.
\<close>

theorem action_ids_values:
  "CreateMarketID = 4 \<and> BuyYesID = 5 \<and> BuyNoID = 6 \<and>
   distinct [TransferID, CreateMarketID, BuyYesID, BuyNoID]"
  by simp

text \<open>
  C30: an address printed as checksummed hex is read back as the same address, for any digest of 32
  bytes.
\<close>

theorem address_string_round_trip:
  assumes "wf_Address a" and "length (sha256 a) = 32"
  shows "StringToAddress sha256 (Address_String sha256 a) = Inr a"
  using assms by (rule StringToAddress_String)

theorem address_string_round_trip_witness:
  "StringToAddress (\<lambda>bs. replicate 31 0 @ [word_of_nat (length bs)])
     (Address_String (\<lambda>bs. replicate 31 0 @ [word_of_nat (length bs)]) (replicate 33 171)) =
   Inr (replicate 33 171)"
  by (rule address_string_round_trip) (simp_all add: wf_Address_def AddressLen_def)

end
