(* ===== verification/StateKeys.thy ===== *)
theory StateKeys
  imports Prelude "HOL-Library.AList"
begin

text \<open>
  The state keys of hypersdk: the chunk suffix every key carries (\<^verbatim>\<open>keys/keys.go\<close>) and the
  permissions a transaction declares for its keys (\<^verbatim>\<open>state/keys.go\<close>). A key's last two
  bytes are the largest number of 64-byte chunks its value may take.
\<close>

section \<open>keys/keys.go\<close>

definition chunkSize :: nat where
  "chunkSize = 64"

definition keys_Valid :: "bytes \<Rightarrow> bool" where
  "keys_Valid key \<longleftrightarrow> length key \<ge> 2"

definition MaxChunks :: "bytes \<Rightarrow> u16 option" where
  "MaxChunks key =
     (if length key < 2 then None else Some (Uint16 (drop (length key - 2) key)))"

definition numChunks :: "nat \<Rightarrow> u16 option" where
  "numChunks valueLen =
     (if valueLen = 0 then Some 0
      else let raw = valueLen div chunkSize + 1 in
           if raw > 65535 then None else Some (word_of_nat raw))"

definition NumChunks :: "bytes \<Rightarrow> u16 option" where
  "NumChunks value = numChunks (length value)"

definition keys_Verify :: "u32 \<Rightarrow> u16 \<Rightarrow> bytes \<Rightarrow> bool" where
  "keys_Verify maxKeySize maxValueChunks key =
     (if (word_of_nat (length key) :: u32) > maxKeySize then False
      else case MaxChunks key of None \<Rightarrow> False | Some keyChunks \<Rightarrow> keyChunks \<le> maxValueChunks)"

definition VerifyValue :: "bytes \<Rightarrow> bytes \<Rightarrow> bool" where
  "VerifyValue key value =
     (case NumChunks value of
        None \<Rightarrow> False
      | Some valueChunks \<Rightarrow>
          (case MaxChunks key of None \<Rightarrow> False | Some keyChunks \<Rightarrow> valueChunks \<le> keyChunks))"

definition EncodeChunks :: "bytes \<Rightarrow> u16 \<Rightarrow> bytes" where
  "EncodeChunks key maxChunks = key @ PutUint16 maxChunks"

definition keys_Encode :: "bytes \<Rightarrow> nat \<Rightarrow> bytes option" where
  "keys_Encode key maxSize = map_option (EncodeChunks key) (numChunks maxSize)"

definition DecodeChunks :: "bytes \<Rightarrow> u16 option" where
  "DecodeChunks key =
     (if length key < 2 then None else Some (Uint16 (drop (length key - 2) key)))"

section \<open>state/keys.go\<close>

type_synonym Permissions = byte

definition PermNone :: Permissions where "PermNone = 0"
definition PermRead :: Permissions where "PermRead = 1"
definition PermAllocate :: Permissions where "PermAllocate = push_bit 1 1 OR PermRead"
definition PermWrite :: Permissions where "PermWrite = push_bit 2 1 OR PermRead"
definition PermAll :: Permissions where "PermAll = PermRead OR PermAllocate OR PermWrite"

definition Perm_Has :: "Permissions \<Rightarrow> Permissions \<Rightarrow> bool" where
  "Perm_Has p require \<longleftrightarrow> require AND (NOT p) = 0"

text \<open>
  A \<^verbatim>\<open>state.Keys\<close> map, as an association list so that the code that ranges over it can be
  written down; a missing key has no permission.
\<close>

type_synonym Keys = "(bytes \<times> Permissions) list"

definition Keys_lookup :: "Keys \<Rightarrow> bytes \<Rightarrow> Permissions" where
  "Keys_lookup k key = (case map_of k key of None \<Rightarrow> PermNone | Some p \<Rightarrow> p)"

definition Keys_Add :: "Keys \<Rightarrow> bytes \<Rightarrow> Permissions \<Rightarrow> bool \<times> Keys" where
  "Keys_Add k key permission =
     (if \<not> keys_Valid key then (False, k)
      else (True, AList.update key (Keys_lookup k key OR permission) k))"

definition Keys_Has :: "Keys \<Rightarrow> bytes \<Rightarrow> Permissions \<Rightarrow> bool" where
  "Keys_Has k key permission = Perm_Has (Keys_lookup k key) permission"

fun Keys_ChunkSizes :: "Keys \<Rightarrow> (u16 list) option" where
  "Keys_ChunkSizes [] = Some []"
| "Keys_ChunkSizes ((key, _) # ks) =
     (case DecodeChunks key of
        None \<Rightarrow> None
      | Some c \<Rightarrow> map_option (Cons c) (Keys_ChunkSizes ks))"

text \<open>
  The keys without their permissions, as the slice the code builds: it is made with the length of the
  map and then appended to, so that as many empty keys stand before the keys.
\<close>

definition WithoutPermissions :: "Keys \<Rightarrow> bytes list" where
  "WithoutPermissions k = replicate (length k) [] @ map fst k"

text \<open>
  The keys a simulation records: asking for a permission adds it, and is always granted. Only the
  JSON-RPC call that simulates actions makes a view over such keys; it is not modelled, and they are not
  one of the scopes below.
\<close>

definition SimulatedKeys_Has :: "Keys \<Rightarrow> bytes \<Rightarrow> Permissions \<Rightarrow> bool \<times> Keys" where
  "SimulatedKeys_Has d key perm = (True, snd (Keys_Add d key perm))"

datatype Scope = ScopeKeys Keys | FullAccess

fun Scope_Has :: "Scope \<Rightarrow> bytes \<Rightarrow> Permissions \<Rightarrow> bool" where
  "Scope_Has (ScopeKeys k) key perm = Keys_Has k key perm"
| "Scope_Has FullAccess key perm = True"

section \<open>Facts about permissions and chunks\<close>

lemmas Perm_defs =
  PermNone_def PermRead_def PermAllocate_def PermWrite_def PermAll_def

lemma Perm_Has_bits: "Perm_Has p r \<longleftrightarrow> (\<forall>n. bit r n \<longrightarrow> bit p n)"
proof -
  have "Perm_Has p r \<longleftrightarrow> (\<forall>n<8. bit r n \<longrightarrow> bit p n)"
    by (auto simp: Perm_Has_def bit_eq_iff bit_simps)
  also have "\<dots> \<longleftrightarrow> (\<forall>n. bit r n \<longrightarrow> bit p n)"
    using bit_imp_le_length [of r] by auto
  finally show ?thesis .
qed

lemma Perm_Has_trans: "Perm_Has p q \<Longrightarrow> Perm_Has q r \<Longrightarrow> Perm_Has p r"
  by (simp add: Perm_Has_bits)

lemma Perm_Has_or: "Perm_Has p r \<Longrightarrow> Perm_Has (p OR q) r" "Perm_Has q r \<Longrightarrow> Perm_Has (p OR q) r"
  by (auto simp: Perm_Has_bits bit_simps)

lemma Perm_Has_refl [simp]: "Perm_Has p p"
  by (simp add: Perm_Has_bits)

lemma Perm_Has_Write_Read: "Perm_Has p PermWrite \<Longrightarrow> Perm_Has p PermRead"
  by (rule Perm_Has_trans [of p PermWrite]) (simp_all add: Perm_defs, simp add: Perm_Has_def)

lemma Perm_Has_consts [keys_simps]:
  "Perm_Has (PermRead OR PermWrite) PermRead" "Perm_Has (PermRead OR PermWrite) PermWrite"
  "\<not> Perm_Has (PermRead OR PermWrite) PermAllocate"
  "\<not> Perm_Has PermNone PermRead" "\<not> Perm_Has PermNone PermWrite" "\<not> Perm_Has PermNone PermAllocate"
  "Perm_Has PermRead PermRead" "\<not> Perm_Has PermRead PermWrite" "\<not> Perm_Has PermRead PermAllocate"
  "Perm_Has PermWrite PermRead" "\<not> Perm_Has PermWrite PermAllocate"
  by (simp_all add: Perm_Has_def Perm_defs)

lemma Keys_lookup_Add:
  "keys_Valid key \<Longrightarrow>
   Keys_lookup (snd (Keys_Add k key p)) key' =
     (if key' = key then Keys_lookup k key OR p else Keys_lookup k key')"
  by (simp add: Keys_Add_def Keys_lookup_def update_conv')

lemma Keys_Add_mono:
  "Keys_Has k key' r \<Longrightarrow> Keys_Has (snd (Keys_Add k key p)) key' r"
proof (cases "keys_Valid key")
  case True
  then show "Keys_Has k key' r \<Longrightarrow> ?thesis"
    by (auto simp: Keys_Has_def Keys_lookup_Add Perm_Has_or)
qed (simp add: Keys_Add_def)

lemma Keys_Add_has:
  "keys_Valid key \<Longrightarrow> Keys_Has (snd (Keys_Add k key p)) key p"
  by (simp add: Keys_Has_def Keys_lookup_Add Perm_Has_or)

lemma Scope_Has_Write_Read: "Scope_Has sc k PermWrite \<Longrightarrow> Scope_Has sc k PermRead"
  by (cases sc) (auto simp: Keys_Has_def Perm_Has_Write_Read)

lemma MaxChunks_append2: "MaxChunks (k @ [a, b]) = Some (Uint16 [a, b])"
  by (simp add: MaxChunks_def)

lemma MaxChunks_EncodeChunks [simp]: "MaxChunks (EncodeChunks key c) = Some c"
  by (simp add: EncodeChunks_def MaxChunks_def)

lemma NumChunks_word [simp]: "NumChunks (PutUint64 v) = Some 1"
  by (simp add: NumChunks_def numChunks_def chunkSize_def)

text \<open>A value is admitted exactly when its 64-byte chunks are within the key's suffix.\<close>

lemma VerifyValue_iff:
  assumes "length key \<ge> 2" and "value \<noteq> []"
  shows "VerifyValue key value \<longleftrightarrow>
    length value div 64 + 1 \<le> unat (Uint16 (drop (length key - 2) key))"
proof -
  let ?c = "Uint16 (drop (length key - 2) key)" and ?n = "length value div 64 + 1"
  have c: "unat ?c \<le> 65535"
    using unsigned_less [of ?c, where ?'a = nat] by simp
  show ?thesis
  proof (cases "?n > 65535")
    case True
    then show ?thesis
      using assms c by (simp add: VerifyValue_def NumChunks_def numChunks_def chunkSize_def)
  next
    case False
    then have "unat (word_of_nat ?n :: u16) = ?n"
      using unat_of_nat [of ?n, where ?'a = 16] by simp
    then show ?thesis
      using assms False
      by (simp add: VerifyValue_def NumChunks_def numChunks_def chunkSize_def MaxChunks_def
            word_le_nat_alt)
  qed
qed

end
