(* ===== verification/StateStore.thy ===== *)
theory StateStore
  imports StateKeys
begin

text \<open>
  The interfaces \<^verbatim>\<open>state.Immutable\<close> and \<^verbatim>\<open>state.Mutable\<close> of hypersdk as records
  of operations over a state, the in-memory store the tests run on and the read-only map a block's
  transactions are given. The locale \<open>scoped_store\<close> is the contract the storage layer and the
  actions rely on: reads and writes of a finite map, each guarded by a permission, and an insert
  that leaves the state alone when it fails.
\<close>

section \<open>state/state.go\<close>

record 's state_Immutable =
  GetValue :: "'s \<Rightarrow> bytes \<Rightarrow> bytes result"

record 's state_Mutable = "'s state_Immutable" +
  Insert :: "'s \<Rightarrow> bytes \<Rightarrow> bytes \<Rightarrow> go_error option \<times> 's"
  Remove :: "'s \<Rightarrow> bytes \<Rightarrow> go_error option \<times> 's"

section \<open>state/storage.go and chain/chaintest/state.go\<close>

definition ImmutableStorage_GetValue :: "(bytes \<rightharpoonup> bytes) \<Rightarrow> bytes \<Rightarrow> bytes result" where
  "ImmutableStorage_GetValue i key =
     (case i key of Some v \<Rightarrow> Inr v | None \<Rightarrow> Inl (Sentinel ErrNotFound))"

record InMemoryStore =
  Storage :: "bytes \<rightharpoonup> bytes"

definition NewInMemoryStore :: InMemoryStore where
  "NewInMemoryStore = \<lparr>Storage = Map.empty\<rparr>"

definition InMemoryStore_GetValue :: "InMemoryStore \<Rightarrow> bytes \<Rightarrow> bytes result" where
  "InMemoryStore_GetValue i key =
     (case Storage i key of None \<Rightarrow> Inl (Sentinel ErrNotFound) | Some val \<Rightarrow> Inr val)"

definition InMemoryStore_Insert ::
  "InMemoryStore \<Rightarrow> bytes \<Rightarrow> bytes \<Rightarrow> go_error option \<times> InMemoryStore" where
  "InMemoryStore_Insert i key value = (None, i\<lparr>Storage := (Storage i)(key \<mapsto> value)\<rparr>)"

definition InMemoryStore_Remove ::
  "InMemoryStore \<Rightarrow> bytes \<Rightarrow> go_error option \<times> InMemoryStore" where
  "InMemoryStore_Remove i key = (None, i\<lparr>Storage := (Storage i)(key := None)\<rparr>)"

definition InMemoryStore_Mutable :: "InMemoryStore state_Mutable" where
  "InMemoryStore_Mutable =
     \<lparr>GetValue = InMemoryStore_GetValue, Insert = InMemoryStore_Insert,
      Remove = InMemoryStore_Remove\<rparr>"

section \<open>The contract of a scoped store\<close>

text \<open>
  What an insert needs: write permission, a value within the key's chunks, and for a key that is
  not there yet the allocate permission too.
\<close>

definition insertable ::
  "(bytes \<rightharpoonup> bytes) \<Rightarrow> (bytes \<Rightarrow> Permissions \<Rightarrow> bool) \<Rightarrow> (bytes \<Rightarrow> bytes \<Rightarrow> bool) \<Rightarrow>
   bytes \<Rightarrow> bytes \<Rightarrow> bool" where
  "insertable m allowed roomy k v \<longleftrightarrow>
     allowed k PermWrite \<and> roomy k v \<and> (m k = None \<longrightarrow> allowed k PermAllocate)"

definition insert_error ::
  "(bytes \<Rightarrow> Permissions \<Rightarrow> bool) \<Rightarrow> (bytes \<Rightarrow> bytes \<Rightarrow> bool) \<Rightarrow> bytes \<Rightarrow> bytes \<Rightarrow> go_error" where
  "insert_error allowed roomy k v =
     (if allowed k PermWrite \<and> \<not> roomy k v then Sentinel ErrTStateKeyValue
      else Sentinel ErrInvalidKeyOrPermission)"

definition found :: "bytes option \<Rightarrow> bytes result" where
  "found r = (case r of None \<Rightarrow> Inl (Sentinel ErrNotFound) | Some v \<Rightarrow> Inr v)"

lemma found_simps [simp, store_simps]:
  "found None = Inl (Sentinel ErrNotFound)" "found (Some v) = Inr v"
  by (simp_all add: found_def)

locale scoped_store =
  fixes mu :: "'s state_Mutable"
    and inv :: "'s \<Rightarrow> bool"
    and contents :: "'s \<Rightarrow> (bytes \<rightharpoonup> bytes)"
    and allowed :: "'s \<Rightarrow> bytes \<Rightarrow> Permissions \<Rightarrow> bool"
    and roomy :: "bytes \<Rightarrow> bytes \<Rightarrow> bool"
  assumes get: "inv s \<Longrightarrow>
      GetValue mu s k =
        (if allowed s k PermRead then found (contents s k)
         else Inl (Sentinel ErrInvalidKeyOrPermission))"
    and insert_ok: "inv s \<Longrightarrow> insertable (contents s) (allowed s) roomy k v \<Longrightarrow>
      \<exists>s'. Insert mu s k v = (None, s') \<and> inv s' \<and> contents s' = (contents s)(k \<mapsto> v) \<and>
           allowed s' = allowed s"
    and insert_fail: "inv s \<Longrightarrow> \<not> insertable (contents s) (allowed s) roomy k v \<Longrightarrow>
      Insert mu s k v = (Some (insert_error (allowed s) roomy k v), s)"
    and write_reads: "allowed s k PermWrite \<Longrightarrow> allowed s k PermRead"
begin

lemma insertable_reads: "insertable (contents s) (allowed s) roomy k v \<Longrightarrow> allowed s k PermRead"
  by (simp add: insertable_def write_reads)

lemma insertE:
  assumes "inv s" and "insertable (contents s) (allowed s) roomy k v"
  obtains s' where "Insert mu s k v = (None, s')" "inv s'" "contents s' = (contents s)(k \<mapsto> v)"
    "allowed s' = allowed s"
  using insert_ok [OF assms] by blast

lemma insert_then_get:
  assumes "inv s" and "insertable (contents s) (allowed s) roomy k v"
  shows "GetValue mu (snd (Insert mu s k v)) k' =
           (if k' = k then Inr v else GetValue mu s k')"
proof -
  from assms obtain s' where "Insert mu s k v = (None, s')" "inv s'"
    "contents s' = (contents s)(k \<mapsto> v)" "allowed s' = allowed s"
    by (rule insertE)
  with assms show ?thesis by (simp add: get insertable_reads)
qed

end

section \<open>The in-memory store meets the contract\<close>

lemmas InMemoryStore_defs =
  InMemoryStore_Mutable_def InMemoryStore_GetValue_def InMemoryStore_Insert_def

interpretation mem: scoped_store InMemoryStore_Mutable "\<lambda>_. True" Storage "\<lambda>_ _ _. True" "\<lambda>_ _. True"
  by unfold_locales (auto simp: InMemoryStore_defs insertable_def split: option.splits)

text \<open>
  Where every insert goes through, what a relation keeps is kept by any client that only inserts.
  \<open>tracked_store\<close> follows a reflexive and transitive relation through such a client.
\<close>

locale tracked_store =
  fixes mu :: "'s state_Mutable" and rel :: "'s \<Rightarrow> 's \<Rightarrow> bool"
  assumes rel_refl [intro, simp]: "rel s s"
    and rel_trans: "rel s t \<Longrightarrow> rel t u \<Longrightarrow> rel s u"
    and rel_insert: "rel s (snd (Insert mu s k v))"
begin

lemma rel_insert': "Insert mu s k v = (e, s') \<Longrightarrow> rel s s'"
  using rel_insert [of s k v] by simp

lemma rel_insert_after: "rel s t \<Longrightarrow> Insert mu t k v = (e, t') \<Longrightarrow> rel s t'"
  using rel_insert' rel_trans by blast

end

end
