(* ===== verification/TState.thy ===== *)
theory TState
  imports StateStore
begin

text \<open>
  The transaction state of hypersdk (\<^verbatim>\<open>state/tstate\<close>): a view layers the changes of one
  transaction over the block's changes and the parent state, checks the declared permissions and
  chunk limits, logs every operation and can roll back to an earlier point of the log. Shown: the
  view meets \<open>scoped_store\<close>, and a rollback restores the values of the view exactly.

  A view keeps its own copy of the \<open>TState\<close> it was made from. hypersdk's executor never runs two
  transactions with overlapping keys at the same time, so a transaction sees no other one's commit.
\<close>

section \<open>tstate.go\<close>

text \<open>\<^verbatim>\<open>maybe.Maybe\<close> is \<open>option\<close>; \<open>Some None\<close> in a change map is a deletion.\<close>

type_synonym changes = "bytes \<rightharpoonup> bytes option"

record TState =
  tstate_ops :: nat
  changedKeys :: changes

definition TState_New :: TState where
  "TState_New = \<lparr>tstate_ops = 0, changedKeys = Map.empty\<rparr>"

text \<open>The value, whether the key was changed, and whether it exists.\<close>

definition getChangedValue :: "TState \<Rightarrow> bytes \<Rightarrow> bytes \<times> bool \<times> bool" where
  "getChangedValue t key =
     (case changedKeys t key of
        Some v \<Rightarrow> (case v of None \<Rightarrow> ([], True, False) | Some x \<Rightarrow> (x, True, True))
      | None \<Rightarrow> ([], False, False))"

section \<open>tstate_view.go\<close>

datatype opType = createOp | insertOp | removeOp

record op =
  op_t :: opType
  op_k :: bytes
  pastV :: bytes
  pastAllocates :: "u16 option"
  pastWrites :: "u16 option"

record TStateView =
  view_ts :: TState
  pendingChangedKeys :: changes
  view_ops :: "op list"
  view_scope :: Scope
  view_storage :: "bytes \<Rightarrow> bytes result"
  view_allocates :: "bytes \<rightharpoonup> u16"
  view_writes :: "bytes \<rightharpoonup> u16"

definition NewView :: "TState \<Rightarrow> Scope \<Rightarrow> (bytes \<Rightarrow> bytes result) \<Rightarrow> TStateView" where
  "NewView t scope storage =
     \<lparr>view_ts = t, pendingChangedKeys = Map.empty, view_ops = [], view_scope = scope,
      view_storage = storage, view_allocates = Map.empty, view_writes = Map.empty\<rparr>"

text \<open>One iteration of the loop of \<^verbatim>\<open>Rollback\<close>.\<close>

definition undo_op :: "op \<Rightarrow> TStateView \<Rightarrow> TStateView" where
  "undo_op o0 v =
     (let k = op_k o0 in
      case op_t o0 of
        createOp \<Rightarrow>
          (let v1 = v\<lparr>view_allocates := (view_allocates v)(k := None)\<rparr> in
           case pastWrites o0 of
             Some w \<Rightarrow> v1\<lparr>view_writes := (view_writes v1)(k \<mapsto> w),
                         pendingChangedKeys := (pendingChangedKeys v1)(k \<mapsto> None)\<rparr>
           | None \<Rightarrow> v1\<lparr>view_writes := (view_writes v1)(k := None),
                       pendingChangedKeys := (pendingChangedKeys v1)(k := None)\<rparr>)
      | insertOp \<Rightarrow>
          (case pastWrites o0 of
             Some w \<Rightarrow> v\<lparr>view_writes := (view_writes v)(k \<mapsto> w),
                        pendingChangedKeys := (pendingChangedKeys v)(k \<mapsto> Some (pastV o0))\<rparr>
           | None \<Rightarrow> v\<lparr>view_writes := (view_writes v)(k := None),
                      pendingChangedKeys := (pendingChangedKeys v)(k := None)\<rparr>)
      | removeOp \<Rightarrow>
          (let v1 = (case pastAllocates o0 of
                       Some a \<Rightarrow> v\<lparr>view_allocates := (view_allocates v)(k \<mapsto> a)\<rparr>
                     | None \<Rightarrow> v) in
           case pastWrites o0 of
             Some w \<Rightarrow> v1\<lparr>view_writes := (view_writes v1)(k \<mapsto> w),
                         pendingChangedKeys := (pendingChangedKeys v1)(k \<mapsto> Some (pastV o0))\<rparr>
           | None \<Rightarrow> v1\<lparr>view_writes := (view_writes v1)(k := None),
                       pendingChangedKeys := (pendingChangedKeys v1)(k := None)\<rparr>))"

definition Rollback :: "nat \<Rightarrow> TStateView \<Rightarrow> TStateView" where
  "Rollback restorePoint v =
     (fold undo_op (rev (drop restorePoint (view_ops v))) v)
       \<lparr>view_ops := take restorePoint (view_ops v)\<rparr>"

definition OpIndex :: "TStateView \<Rightarrow> nat" where
  "OpIndex v = length (view_ops v)"

definition checkScope :: "TStateView \<Rightarrow> bytes \<Rightarrow> Permissions \<Rightarrow> bool" where
  "checkScope v k perm = Scope_Has (view_scope v) k perm"

definition view_getValue :: "TStateView \<Rightarrow> bytes \<Rightarrow> bytes result" where
  "view_getValue v key =
     (case pendingChangedKeys v key of
        Some m \<Rightarrow> (case m of None \<Rightarrow> Inl (Sentinel ErrNotFound) | Some x \<Rightarrow> Inr x)
      | None \<Rightarrow>
          (let (x, changed, exists) = getChangedValue (view_ts v) key in
           if changed then (if exists then Inr x else Inl (Sentinel ErrNotFound))
           else view_storage v key))"

definition TStateView_GetValue :: "TStateView \<Rightarrow> bytes \<Rightarrow> bytes result" where
  "TStateView_GetValue v key =
     (if \<not> checkScope v key PermRead then Inl (Sentinel ErrInvalidKeyOrPermission)
      else view_getValue v key)"

definition isUnchanged :: "TStateView \<Rightarrow> bytes \<Rightarrow> bytes \<Rightarrow> bool \<Rightarrow> bool result" where
  "isUnchanged v key nval nexists =
     (let (x, changed, exists) = getChangedValue (view_ts v) key in
      if changed then Inr (\<not> exists \<and> \<not> nexists \<or> exists \<and> nexists \<and> x = nval)
      else case view_storage v key of
             Inr scopeVal \<Rightarrow> Inr (nexists \<and> scopeVal = nval)
           | Inl e \<Rightarrow> if e = Sentinel ErrNotFound then Inr (\<not> nexists) else Inl e)"

text \<open>What both branches of \<^verbatim>\<open>Insert\<close> do after the operation is known.\<close>

definition record_insert ::
  "op \<Rightarrow> bytes \<Rightarrow> bool \<Rightarrow> TStateView \<Rightarrow> TStateView" where
  "record_insert o0 value unchanged v =
     (let k = op_k o0;
          v1 = v\<lparr>view_ops := view_ops v @ [o0],
                 pendingChangedKeys := (pendingChangedKeys v)(k \<mapsto> Some value)\<rparr> in
      if unchanged
      then v1\<lparr>view_allocates := (view_allocates v1)(k := None),
              view_writes := (view_writes v1)(k := None),
              pendingChangedKeys := (pendingChangedKeys v1)(k := None)\<rparr>
      else v1)"

definition TStateView_Insert ::
  "TStateView \<Rightarrow> bytes \<Rightarrow> bytes \<Rightarrow> go_error option \<times> TStateView" where
  "TStateView_Insert v k value =
     (if \<not> checkScope v k PermWrite then (Some (Sentinel ErrInvalidKeyOrPermission), v)
      else if \<not> VerifyValue k value then (Some (Sentinel ErrTStateKeyValue), v)
      else
       (let valueChunks = (case NumChunks value of None \<Rightarrow> 0 | Some c \<Rightarrow> c) in
        case isUnchanged v k value True of
          Inl e \<Rightarrow> (Some e, v)
        | Inr unchanged \<Rightarrow>
            (case view_getValue v k of
               Inr past \<Rightarrow>
                 if past = value then (None, v)
                 else (None, record_insert
                        \<lparr>op_t = insertOp, op_k = k, pastV = past,
                         pastAllocates = view_allocates v k, pastWrites = view_writes v k\<rparr>
                        value unchanged
                        (v\<lparr>view_writes := (view_writes v)(k \<mapsto> valueChunks)\<rparr>))
             | Inl e \<Rightarrow>
                 if e \<noteq> Sentinel ErrNotFound then (Some e, v)
                 else if \<not> checkScope v k PermAllocate
                 then (Some (Sentinel ErrInvalidKeyOrPermission), v)
                 else
                  (let keyChunks = (case MaxChunks k of None \<Rightarrow> 0 | Some c \<Rightarrow> c) in
                   (None, record_insert
                      \<lparr>op_t = createOp, op_k = k, pastV = [],
                       pastAllocates = view_allocates v k, pastWrites = view_writes v k\<rparr>
                      value unchanged
                      (v\<lparr>view_allocates := (view_allocates v)(k \<mapsto> keyChunks),
                         view_writes := (view_writes v)(k \<mapsto> valueChunks)\<rparr>))))))"

definition TStateView_Remove :: "TStateView \<Rightarrow> bytes \<Rightarrow> go_error option \<times> TStateView" where
  "TStateView_Remove v k =
     (if \<not> checkScope v k PermWrite then (Some (Sentinel ErrInvalidKeyOrPermission), v)
      else case view_getValue v k of
        Inl e \<Rightarrow> if e \<noteq> Sentinel ErrNotFound then (Some e, v) else (None, v)
      | Inr past \<Rightarrow>
          (case isUnchanged v k [] False of
             Inl e \<Rightarrow> (Some e, v)
           | Inr unchanged \<Rightarrow>
               (let o0 = \<lparr>op_t = removeOp, op_k = k, pastV = past,
                          pastAllocates = view_allocates v k, pastWrites = view_writes v k\<rparr>;
                    v1 = v\<lparr>view_ops := view_ops v @ [o0]\<rparr>;
                    v2 = (if view_allocates v1 k \<noteq> None
                          then v1\<lparr>view_allocates := (view_allocates v1)(k := None),
                                  view_writes := (view_writes v1)(k := None),
                                  pendingChangedKeys := (pendingChangedKeys v1)(k := None)\<rparr>
                          else v1\<lparr>view_writes := (view_writes v1)(k \<mapsto> 0),
                                  pendingChangedKeys := (pendingChangedKeys v1)(k \<mapsto> None)\<rparr>);
                    v3 = (if unchanged
                          then v2\<lparr>view_allocates := (view_allocates v2)(k := None),
                                  view_writes := (view_writes v2)(k := None),
                                  pendingChangedKeys := (pendingChangedKeys v2)(k := None)\<rparr>
                          else v2)
                in (None, v3))))"

definition Commit :: "TStateView \<Rightarrow> TState" where
  "Commit v =
     (view_ts v)\<lparr>changedKeys := changedKeys (view_ts v) ++ pendingChangedKeys v,
                 tstate_ops := tstate_ops (view_ts v) + length (view_ops v)\<rparr>"

definition TStateView_Mutable :: "TStateView state_Mutable" where
  "TStateView_Mutable =
     \<lparr>GetValue = TStateView_GetValue, Insert = TStateView_Insert, Remove = TStateView_Remove\<rparr>"

section \<open>The view as a map\<close>

definition parent_value :: "TStateView \<Rightarrow> bytes \<Rightarrow> bytes option" where
  "parent_value v k =
     (case changedKeys (view_ts v) k of
        Some m \<Rightarrow> m
      | None \<Rightarrow> (case view_storage v k of Inr x \<Rightarrow> Some x | Inl _ \<Rightarrow> None))"

definition view_contents :: "TStateView \<Rightarrow> bytes \<Rightarrow> bytes option" where
  "view_contents v k =
     (case pendingChangedKeys v k of Some m \<Rightarrow> m | None \<Rightarrow> parent_value v k)"

text \<open>
  A well-formed view: the key has a write count exactly when it has a pending change, and the
  parent state fails with \<open>ErrNotFound\<close> only (as \<^verbatim>\<open>ImmutableStorage\<close> does).
\<close>

definition wf_view :: "TStateView \<Rightarrow> bool" where
  "wf_view v \<longleftrightarrow>
     (\<forall>k. view_writes v k = None \<longleftrightarrow> pendingChangedKeys v k = None) \<and>
     (\<forall>k e. view_storage v k = Inl e \<longrightarrow> e = Sentinel ErrNotFound)"

lemma wf_view_NewView:
  "wf_view (NewView t sc (ImmutableStorage_GetValue m))"
  by (auto simp: wf_view_def NewView_def ImmutableStorage_GetValue_def split: option.splits)

lemma view_getValue_found: "wf_view v \<Longrightarrow> view_getValue v k = found (view_contents v k)"
  by (auto simp: view_getValue_def view_contents_def parent_value_def getChangedValue_def
        wf_view_def found_def split: option.splits sum.splits)

lemma isUnchanged_parent:
  "wf_view v \<Longrightarrow>
   isUnchanged v k nval nexists = Inr (parent_value v k = (if nexists then Some nval else None))"
  by (auto simp: isUnchanged_def parent_value_def getChangedValue_def wf_view_def
        split: option.splits sum.splits)

lemma record_insert_sel [simp]:
  "view_ts (record_insert o0 x u v) = view_ts v"
  "view_scope (record_insert o0 x u v) = view_scope v"
  "view_storage (record_insert o0 x u v) = view_storage v"
  "view_ops (record_insert o0 x u v) = view_ops v @ [o0]"
  "pendingChangedKeys (record_insert o0 x u v) =
     (pendingChangedKeys v)(op_k o0 := (if u then None else Some (Some x)))"
  "view_writes (record_insert o0 x u v) =
     (view_writes v)(op_k o0 := (if u then None else view_writes v (op_k o0)))"
  by (simp_all add: record_insert_def Let_def fun_eq_iff)

lemma parent_value_cong:
  "view_ts v' = view_ts v \<Longrightarrow> view_storage v' = view_storage v \<Longrightarrow> parent_value v' = parent_value v"
  by (rule ext) (simp add: parent_value_def split: option.split)

lemma parent_value_record_insert [simp]:
  "parent_value (record_insert o0 x u (v\<lparr>view_allocates := a, view_writes := w\<rparr>)) = parent_value v"
  by (rule parent_value_cong) simp_all

text \<open>The three ways a permitted insert ends: no change, an update, a creation.\<close>

lemma TStateView_Insert_cases:
  assumes wf: "wf_view v"
    and ins: "insertable (view_contents v) (checkScope v) VerifyValue k x"
  obtains (same) "view_contents v k = Some x" "TStateView_Insert v k x = (None, v)"
  | (logged) o0 w where "op_k o0 = k" "w k \<noteq> None" "\<And>j. j \<noteq> k \<Longrightarrow> w j = view_writes v j"
      "pastWrites o0 = view_writes v k"
      "op_t o0 = insertOp \<and> view_contents v k = Some (pastV o0) \<or>
       op_t o0 = createOp \<and> view_contents v k = None"
      "\<exists>a. TStateView_Insert v k x =
         (None, record_insert o0 x (parent_value v k = Some x)
            (v\<lparr>view_allocates := a, view_writes := w\<rparr>))"
proof -
  have sc: "checkScope v k PermWrite" "VerifyValue k x"
    using ins by (simp_all add: insertable_def)
  show thesis
  proof (cases "view_contents v k")
    case None
    then have "checkScope v k PermAllocate" using ins by (simp add: insertable_def)
    with None sc wf show thesis
      by (intro logged [of
            "\<lparr>op_t = createOp, op_k = k, pastV = [],
              pastAllocates = view_allocates v k, pastWrites = view_writes v k\<rparr>"
            "(view_writes v)(k \<mapsto> case NumChunks x of None \<Rightarrow> 0 | Some c \<Rightarrow> c)"])
         (auto simp: TStateView_Insert_def view_getValue_found isUnchanged_parent Let_def)
  next
    case (Some past)
    show thesis
    proof (cases "past = x")
      case True
      with Some sc wf show thesis
        by (intro same) (simp_all add: TStateView_Insert_def view_getValue_found isUnchanged_parent)
    next
      case False
      with Some sc wf show thesis
        by (intro logged [of
              "\<lparr>op_t = insertOp, op_k = k, pastV = past,
                pastAllocates = view_allocates v k, pastWrites = view_writes v k\<rparr>"
              "(view_writes v)(k \<mapsto> case NumChunks x of None \<Rightarrow> 0 | Some c \<Rightarrow> c)"])
           (auto simp: TStateView_Insert_def view_getValue_found isUnchanged_parent Let_def
              intro!: exI [of _ "view_allocates v"])
    qed
  qed
qed

lemma TStateView_Insert_ok:
  assumes "wf_view v" and "insertable (view_contents v) (checkScope v) VerifyValue k x"
  shows "\<exists>v'. TStateView_Insert v k x = (None, v') \<and> wf_view v' \<and>
              view_contents v' = (view_contents v)(k \<mapsto> x) \<and> checkScope v' = checkScope v"
  using assms
proof (cases rule: TStateView_Insert_cases)
  case same
  then have "view_contents v = (view_contents v)(k \<mapsto> x)" by auto
  with same assms(1) show ?thesis by auto
next
  case (logged o0 w)
  then obtain a where eq: "TStateView_Insert v k x =
      (None, record_insert o0 x (parent_value v k = Some x)
               (v\<lparr>view_allocates := a, view_writes := w\<rparr>))" (is "_ = (None, ?v')")
    by blast
  have "wf_view ?v'"
    using assms(1) logged(1-3) by (auto simp: wf_view_def)
  moreover have "view_contents ?v' = (view_contents v)(k \<mapsto> x)"
    using logged(1) by (auto simp: view_contents_def fun_eq_iff split: option.splits)
  moreover have "checkScope ?v' = checkScope v"
    by (simp add: checkScope_def fun_eq_iff)
  ultimately show ?thesis using eq by blast
qed

lemma TStateView_Insert_fail:
  assumes "wf_view v" and "\<not> insertable (view_contents v) (checkScope v) VerifyValue k x"
  shows "TStateView_Insert v k x = (Some (insert_error (checkScope v) VerifyValue k x), v)"
  using assms
  by (auto simp: TStateView_Insert_def insertable_def insert_error_def view_getValue_found
        isUnchanged_parent Let_def)

interpretation tview: scoped_store TStateView_Mutable wf_view view_contents checkScope VerifyValue
proof unfold_locales
  show "GetValue TStateView_Mutable v k =
      (if checkScope v k PermRead then found (view_contents v k)
       else Inl (Sentinel ErrInvalidKeyOrPermission))" if "wf_view v" for v k
    using that by (simp add: TStateView_Mutable_def TStateView_GetValue_def view_getValue_found)
  show "\<exists>v'. Insert TStateView_Mutable v k x = (None, v') \<and> wf_view v' \<and>
      view_contents v' = (view_contents v)(k \<mapsto> x) \<and> checkScope v' = checkScope v"
    if "wf_view v" "insertable (view_contents v) (checkScope v) VerifyValue k x" for v k x
    using TStateView_Insert_ok [OF that] by (simp add: TStateView_Mutable_def)
  show "Insert TStateView_Mutable v k x = (Some (insert_error (checkScope v) VerifyValue k x), v)"
    if "wf_view v" "\<not> insertable (view_contents v) (checkScope v) VerifyValue k x" for v k x
    using TStateView_Insert_fail [OF that] by (simp add: TStateView_Mutable_def)
  show "checkScope v k PermRead" if "checkScope v k PermWrite" for v k
    using that by (simp add: checkScope_def Scope_Has_Write_Read)
qed

section \<open>Rollback\<close>

text \<open>
  Two views with the same data: everything but the log and the allocation counts, which no read
  looks at.
\<close>

definition same_data :: "TStateView \<Rightarrow> TStateView \<Rightarrow> bool" where
  "same_data v w \<longleftrightarrow>
     pendingChangedKeys v = pendingChangedKeys w \<and> view_writes v = view_writes w \<and>
     view_ts v = view_ts w \<and> view_storage v = view_storage w \<and> view_scope v = view_scope w"

lemma same_data_refl [simp]: "same_data v v"
  by (simp add: same_data_def)

lemma same_data_trans: "same_data u v \<Longrightarrow> same_data v w \<Longrightarrow> same_data u w"
  by (simp add: same_data_def)

lemma same_data_contents: "same_data v w \<Longrightarrow> view_contents v = view_contents w"
  by (rule ext) (simp add: same_data_def view_contents_def parent_value_cong [of v w] split: option.split)

lemma undo_op_sel:
  "view_ops (undo_op o0 v) = view_ops v" "view_ts (undo_op o0 v) = view_ts v"
  "view_storage (undo_op o0 v) = view_storage v" "view_scope (undo_op o0 v) = view_scope v"
  "view_writes (undo_op o0 v) = (view_writes v)(op_k o0 := pastWrites o0)"
  "pendingChangedKeys (undo_op o0 v) =
     (pendingChangedKeys v)(op_k o0 :=
        (if pastWrites o0 = None then None
         else Some (if op_t o0 = createOp then None else Some (pastV o0))))"
  by (auto simp: undo_op_def Let_def split: opType.splits option.splits)

lemma undo_op_cong: "same_data v w \<Longrightarrow> same_data (undo_op o0 v) (undo_op o0 w)"
  by (simp add: same_data_def undo_op_sel)

lemma fold_undo_cong: "same_data v w \<Longrightarrow> same_data (fold undo_op os v) (fold undo_op os w)"
  by (induction os arbitrary: v w) (simp_all add: undo_op_cong)

text \<open>
  \<open>extends v w\<close>: the log of \<open>w\<close> is that of \<open>v\<close> and more, and undoing the rest gives back
  the data of \<open>v\<close>.
\<close>

definition extends :: "TStateView \<Rightarrow> TStateView \<Rightarrow> bool" where
  "extends v w \<longleftrightarrow> wf_view v \<longrightarrow> wf_view w \<and>
     (\<exists>os. view_ops w = view_ops v @ os \<and> same_data (fold undo_op (rev os) w) v)"

lemma extends_refl [simp]: "extends v v"
  by (simp add: extends_def)

lemma extends_trans:
  assumes "extends u v" and "extends v w"
  shows "extends u w"
  unfolding extends_def
proof
  assume "wf_view u"
  with assms obtain os os' where v: "wf_view v" "view_ops v = view_ops u @ os"
      "same_data (fold undo_op (rev os) v) u"
    and w: "wf_view w" "view_ops w = view_ops v @ os'" "same_data (fold undo_op (rev os') w) v"
    by (auto simp: extends_def)
  have "same_data (fold undo_op (rev (os @ os')) w) u"
    using fold_undo_cong [OF w(3), of "rev os"] v(3) by (auto intro: same_data_trans)
  with v w show "wf_view w \<and>
      (\<exists>os. view_ops w = view_ops u @ os \<and> same_data (fold undo_op (rev os) w) u)"
    by auto
qed

lemma undo_record_insert:
  assumes "wf_view v" and "op_k o0 = k" and "pastWrites o0 = view_writes v k"
    and "op_t o0 = insertOp \<and> view_contents v k = Some (pastV o0) \<or>
         op_t o0 = createOp \<and> view_contents v k = None"
    and "\<And>j. j \<noteq> k \<Longrightarrow> w j = view_writes v j"
  shows "same_data (undo_op o0 (record_insert o0 x u (v\<lparr>view_allocates := a, view_writes := w\<rparr>))) v"
  using assms
  by (auto simp: same_data_def undo_op_sel fun_eq_iff wf_view_def view_contents_def
        split: option.splits)

lemma extends_Insert: "extends v (snd (TStateView_Insert v k x))"
proof (cases "insertable (view_contents v) (checkScope v) VerifyValue k x")
  case False
  then show ?thesis
    unfolding extends_def
    by (auto simp: TStateView_Insert_fail intro: exI [of _ "[]"])
next
  case True
  show ?thesis
    unfolding extends_def
  proof
    assume wf: "wf_view v"
    obtain v' where v': "TStateView_Insert v k x = (None, v')" "wf_view v'"
      using TStateView_Insert_ok [OF wf True] by blast
    from wf True
    have "\<exists>os. view_ops v' = view_ops v @ os \<and> same_data (fold undo_op (rev os) v') v"
    proof (cases rule: TStateView_Insert_cases)
      case same
      with v' show ?thesis by auto
    next
      case (logged o0 w)
      then obtain a where "v' = record_insert o0 x (parent_value v k = Some x)
          (v\<lparr>view_allocates := a, view_writes := w\<rparr>)"
        using v'(1) by auto
      moreover have "same_data (undo_op o0 (record_insert o0 x (parent_value v k = Some x)
          (v\<lparr>view_allocates := a, view_writes := w\<rparr>))) v"
        by (rule undo_record_insert [OF wf logged(1,4,5,3)])
      ultimately show ?thesis
        by (intro exI [of _ "[o0]"]) simp
    qed
    with v' show "wf_view (snd (TStateView_Insert v k x)) \<and>
        (\<exists>os. view_ops (snd (TStateView_Insert v k x)) = view_ops v @ os \<and>
              same_data (fold undo_op (rev os) (snd (TStateView_Insert v k x))) v)"
      by simp
  qed
qed

lemma extends_Remove: "extends v (snd (TStateView_Remove v k))"
proof (cases "checkScope v k PermWrite \<and> view_contents v k \<noteq> None")
  case False
  then show ?thesis
    unfolding extends_def
    by (auto simp: TStateView_Remove_def view_getValue_found intro: exI [of _ "[]"])
next
  case True
  then obtain past where past: "checkScope v k PermWrite" "view_contents v k = Some past" by auto
  let ?o = "\<lparr>op_t = removeOp, op_k = k, pastV = past,
             pastAllocates = view_allocates v k, pastWrites = view_writes v k\<rparr>"
  let ?w = "snd (TStateView_Remove v k)"
  show ?thesis
    unfolding extends_def
  proof
    assume wf: "wf_view v"
    have "view_ops ?w = view_ops v @ [?o]"
      using past wf by (simp add: TStateView_Remove_def view_getValue_found isUnchanged_parent Let_def)
    moreover have "wf_view ?w"
      using past wf
      by (auto simp: TStateView_Remove_def view_getValue_found isUnchanged_parent Let_def wf_view_def)
    moreover have "same_data (undo_op ?o ?w) v"
      using past wf
      by (auto simp: TStateView_Remove_def view_getValue_found isUnchanged_parent Let_def
            same_data_def undo_op_sel fun_eq_iff wf_view_def view_contents_def split: option.splits)
    ultimately show "wf_view ?w \<and>
        (\<exists>os. view_ops ?w = view_ops v @ os \<and> same_data (fold undo_op (rev os) ?w) v)"
      by (intro conjI exI [of _ "[?o]"]) simp_all
  qed
qed

lemma Rollback_extends:
  assumes "wf_view v" and "extends v w"
  shows "same_data (Rollback (OpIndex v) w) v" and "view_ops (Rollback (OpIndex v) w) = view_ops v"
proof -
  obtain os where os: "view_ops w = view_ops v @ os" "same_data (fold undo_op (rev os) w) v"
    using assms by (auto simp: extends_def)
  show "same_data (Rollback (OpIndex v) w) v"
    using os by (simp add: Rollback_def OpIndex_def same_data_def)
  show "view_ops (Rollback (OpIndex v) w) = view_ops v"
    using os(1) by (simp add: Rollback_def OpIndex_def)
qed

interpretation tview_log: tracked_store TStateView_Mutable extends
  by unfold_locales
     (auto simp: TStateView_Mutable_def extends_Insert intro: extends_trans)

text \<open>The operations a client of a view can perform, as a step relation.\<close>

inductive view_step :: "TStateView \<Rightarrow> TStateView \<Rightarrow> bool" where
  step_insert: "TStateView_Insert v k x = (e, w) \<Longrightarrow> view_step v w"
| step_remove: "TStateView_Remove v k = (e, w) \<Longrightarrow> view_step v w"

inductive_cases view_stepE: "view_step v w"

lemma view_step_extends: "view_step v w \<Longrightarrow> extends v w"
  by (elim view_stepE) (metis extends_Insert snd_conv, metis extends_Remove snd_conv)

lemma view_steps_extend: "view_step\<^sup>*\<^sup>* v w \<Longrightarrow> extends v w"
  by (induction rule: rtranclp_induct) (auto intro: extends_trans view_step_extends)

section \<open>Properties\<close>

text \<open>
  C8: whatever a client of a view inserts or removes, rolling back to the log position it started
  from restores every value of the view.
\<close>

theorem rollback_restores:
  assumes "wf_view v" and "view_step\<^sup>*\<^sup>* v w"
  shows "view_contents (Rollback (OpIndex v) w) = view_contents v \<and>
    OpIndex (Rollback (OpIndex v) w) = OpIndex v"
  using Rollback_extends [OF assms(1) view_steps_extend [OF assms(2)]]
  by (simp add: same_data_contents OpIndex_def)

definition sample_view :: TStateView where
  "sample_view = NewView TState_New FullAccess (ImmutableStorage_GetValue [[5, 0, 1] \<mapsto> [9]])"

lemma wf_sample_view [simp]: "wf_view sample_view"
  by (simp add: sample_view_def wf_view_NewView)

lemma sample_view_contents:
  "view_contents sample_view [5, 0, 1] = Some [9]" "view_contents sample_view [6, 0, 1] = None"
  "OpIndex sample_view = 0"
  by (simp_all add: OpIndex_def sample_view_def NewView_def view_contents_def parent_value_def
        TState_New_def ImmutableStorage_GetValue_def)

theorem rollback_restores_witness:
  "\<exists>w. TStateView_Remove (snd (TStateView_Insert sample_view [6, 0, 1] [7])) [5, 0, 1] = (None, w) \<and>
    view_contents (Rollback 0 w) [5, 0, 1] = Some [9] \<and> view_contents (Rollback 0 w) [6, 0, 1] = None"
proof -
  obtain v1 where v1: "TStateView_Insert sample_view [6, 0, 1] [7] = (None, v1)"
    by (simp add: sample_view_def NewView_def TState_New_def TStateView_Insert_def checkScope_def
          VerifyValue_def NumChunks_def numChunks_def chunkSize_def MaxChunks_def isUnchanged_def
          getChangedValue_def view_getValue_def ImmutableStorage_GetValue_def)
  obtain w where w: "TStateView_Remove v1 [5, 0, 1] = (None, w)"
    using v1
    by (auto simp: sample_view_def NewView_def TState_New_def TStateView_Insert_def checkScope_def
          VerifyValue_def NumChunks_def numChunks_def chunkSize_def MaxChunks_def isUnchanged_def
          getChangedValue_def view_getValue_def ImmutableStorage_GetValue_def TStateView_Remove_def
          record_insert_def Let_def)
  have "view_step\<^sup>*\<^sup>* sample_view w"
    using step_insert [OF v1] step_remove [OF w] by (meson rtranclp.simps)
  from rollback_restores [OF wf_sample_view this] v1 w sample_view_contents show ?thesis
    by simp
qed

text \<open>
  C18: a view behaves as a map guarded by its scope. A read needs the read permission. An insert
  needs the write permission, room for the value, and for a key that is not there the allocate
  permission; then it changes that key only, and otherwise it leaves the view alone.
\<close>

theorem view_insert_spec:
  assumes "wf_view v"
  shows "if insertable (view_contents v) (checkScope v) VerifyValue k x
    then \<exists>v'. TStateView_Insert v k x = (None, v') \<and> wf_view v' \<and>
           (\<forall>k'. TStateView_GetValue v' k' = (if k' = k then Inr x else TStateView_GetValue v k'))
    else TStateView_Insert v k x = (Some (insert_error (checkScope v) VerifyValue k x), v)"
proof (cases "insertable (view_contents v) (checkScope v) VerifyValue k x")
  case True
  obtain v' where "TStateView_Insert v k x = (None, v')" "wf_view v'"
    using TStateView_Insert_ok [OF assms True] by blast
  with True tview.insert_then_get [OF assms True] show ?thesis
    by (simp add: TStateView_Mutable_def)
next
  case False
  with assms show ?thesis by (simp add: TStateView_Insert_fail)
qed

theorem view_insert_spec_witness:
  "\<exists>v'. TStateView_Insert sample_view [6, 0, 1] [7] = (None, v') \<and>
    TStateView_GetValue v' [6, 0, 1] = Inr [7] \<and> TStateView_GetValue v' [5, 0, 1] = Inr [9]"
proof -
  have i: "insertable (view_contents sample_view) (checkScope sample_view) VerifyValue [6, 0, 1] [7]"
    by (simp add: insertable_def checkScope_def sample_view_def NewView_def VerifyValue_def
          NumChunks_def numChunks_def chunkSize_def MaxChunks_def)
  have g: "TStateView_GetValue sample_view [5, 0, 1] = Inr [9]"
    by (simp add: TStateView_GetValue_def checkScope_def sample_view_def NewView_def
          view_getValue_def TState_New_def getChangedValue_def ImmutableStorage_GetValue_def)
  show ?thesis
    using view_insert_spec [OF wf_sample_view, of "[6, 0, 1]" "[7]"] i g by auto
qed

text \<open>
  Removing a key that was inserted again after a removal brings its old value back. The view
  takes a key with an allocation for a key of its own and forgets the pending removal.
\<close>

theorem remove_resurrects:
  "\<exists>v1 v2 v3. TStateView_Remove sample_view [5, 0, 1] = (None, v1) \<and>
    TStateView_Insert v1 [5, 0, 1] [8] = (None, v2) \<and>
    TStateView_Remove v2 [5, 0, 1] = (None, v3) \<and>
    TStateView_GetValue v1 [5, 0, 1] = Inl (Sentinel ErrNotFound) \<and>
    TStateView_GetValue v3 [5, 0, 1] = Inr [9]"
  by (simp add: sample_view_def NewView_def TState_New_def TStateView_Insert_def checkScope_def
        VerifyValue_def NumChunks_def numChunks_def chunkSize_def MaxChunks_def isUnchanged_def
        getChangedValue_def view_getValue_def ImmutableStorage_GetValue_def TStateView_Remove_def
        record_insert_def TStateView_GetValue_def Let_def)

end
