(* ===== verification/Balances.thy ===== *)
theory Balances
  imports Consts TState
begin

text \<open>
  Native token balances: \<^verbatim>\<open>storage/storage.go\<close>, \<^verbatim>\<open>storage/state.go\<close> and the
  balance handler of \<^verbatim>\<open>controller/controller.go\<close>. Every operation takes the operations of
  the store it runs on, as the Go code takes a \<^verbatim>\<open>state.Immutable\<close> or
  \<^verbatim>\<open>state.Mutable\<close>. Shown, over any \<open>scoped_store\<close>: what every operation returns and
  stores on every branch, what a read returns after a write, and that a balance stored as zero can
  no longer be read.
\<close>

section \<open>storage.go\<close>

definition BalanceKey :: "Address \<Rightarrow> bytes" where
  "BalanceKey addr =
     (let k0 = replicate (1 + AddressLen + Uint16Len) 0;
          k1 = k0[0 := consts_BalancePrefix];
          k2 = copy_at 1 addr k1
      in copy_at (1 + AddressLen) (PutUint16 BalanceChunks) k2)"

text \<open>The result of \<open>innerGetBalance\<close>: the balance, whether the account exists, the error.\<close>

definition innerGetBalance :: "bytes \<Rightarrow> go_error option \<Rightarrow> u64 \<times> bool \<times> go_error option" where
  "innerGetBalance v err =
     (case err of
        Some e \<Rightarrow> if errors_Is e ErrNotFound then (0, False, None) else (0, False, Some e)
      | None \<Rightarrow>
          (case database_ParseUInt64 v of
             Inl e \<Rightarrow> (0, False, Some e)
           | Inr val \<Rightarrow> (val, True, None)))"

section \<open>state.go\<close>

definition BalancePrefix :: byte where "BalancePrefix = 0x0"
definition MarketPrefix :: byte where "MarketPrefix = 0x1"
definition ShareBalancePrefix :: byte where "ShareBalancePrefix = 0x2"

definition StateKeysBalance :: "Address \<Rightarrow> bytes" where
  "StateKeysBalance addr =
     copy_at 1 addr ((replicate (1 + AddressLen) 0)[0 := BalancePrefix])"

definition AddressFromKey :: "bytes \<Rightarrow> Address result" where
  "AddressFromKey key =
     (if length key \<noteq> 1 + AddressLen then Inl (ErrNew ''invalid key length'')
      else if key ! 0 \<noteq> BalancePrefix then Inl (ErrNew ''invalid prefix'')
      else Inr (copy_at 0 (drop 1 key) EmptyAddress))"

text \<open>
  \<^verbatim>\<open>ReadState\<close>, a parameter of the RPC query: a batch read, one value and one error for
  each key.
\<close>

type_synonym ReadState = "bytes list \<Rightarrow> bytes list \<times> go_error option list"

definition GetBalanceFromState :: "ReadState \<Rightarrow> Address \<Rightarrow> u64 \<times> go_error option" where
  "GetBalanceFromState f addr =
     (let k = StateKeysBalance addr;
          (values, errs) = f [k];
          (bal, _, err) = innerGetBalance (values ! 0) (errs ! 0)
      in (bal, err))"

definition GetBalance ::
  "('s, 'm) state_Immutable_scheme \<Rightarrow> 's \<Rightarrow> Address \<Rightarrow> u64 result" where
  "GetBalance im s addr =
     (case GetValue im s (BalanceKey addr) of
        Inl e \<Rightarrow> if errors_Is e ErrNotFound then Inr 0 else Inl e
      | Inr valBytes \<Rightarrow>
          if length valBytes = 0 then Inr 0
          else
           (let (balance, reader) = UnpackUint64 True (NewReader valBytes (length valBytes)) in
            case Err reader of Some errs \<Rightarrow> Inl errs | None \<Rightarrow> Inr balance))"

definition SetBalance ::
  "'s state_Mutable \<Rightarrow> 's \<Rightarrow> Address \<Rightarrow> u64 \<Rightarrow> go_error option \<times> 's" where
  "SetBalance mu s addr amount =
     (let writer = PackUint64 amount (NewWriter 8 8) in
      case Err writer of
        Some errs \<Rightarrow> (Some errs, s)
      | None \<Rightarrow> Insert mu s (BalanceKey addr) (Bytes writer))"

definition DeductBalance ::
  "'s state_Mutable \<Rightarrow> 's \<Rightarrow> Address \<Rightarrow> u64 \<Rightarrow> go_error option \<times> 's" where
  "DeductBalance mu s addr amount =
     (case GetBalance mu s addr of
        Inl e \<Rightarrow> (Some e, s)
      | Inr currentBalance \<Rightarrow>
          if currentBalance < amount then (Some (Sentinel ErrInsufficientBalance), s)
          else SetBalance mu s addr (currentBalance - amount))"

definition AddBalance ::
  "'s state_Mutable \<Rightarrow> 's \<Rightarrow> Address \<Rightarrow> u64 \<Rightarrow> go_error option \<times> 's" where
  "AddBalance mu s addr amount =
     (case GetBalance mu s addr of
        Inl e \<Rightarrow> (Some e, s)
      | Inr currentBalance \<Rightarrow> SetBalance mu s addr (currentBalance + amount))"

definition EnsureActorHasBalance ::
  "('s, 'm) state_Immutable_scheme \<Rightarrow> 's \<Rightarrow> Address \<Rightarrow> u64 \<Rightarrow> go_error option" where
  "EnsureActorHasBalance im s actor required =
     (case GetBalance im s actor of
        Inl e \<Rightarrow> Some e
      | Inr bal \<Rightarrow> if bal < required then Some (Sentinel ErrInsufficientBalance) else None)"

section \<open>controller.go\<close>

text \<open>The interface \<^verbatim>\<open>chain.BalanceHandler\<close> and the controller that implements it.\<close>

record 's BalanceHandler =
  bh_SponsorStateKeys :: "Address \<Rightarrow> Keys"
  bh_CanDeduct :: "Address \<Rightarrow> 's \<Rightarrow> u64 \<Rightarrow> go_error option"
  bh_Deduct :: "Address \<Rightarrow> 's \<Rightarrow> u64 \<Rightarrow> go_error option \<times> 's"
  bh_AddBalance :: "Address \<Rightarrow> 's \<Rightarrow> u64 \<Rightarrow> go_error option \<times> 's"
  bh_GetBalance :: "Address \<Rightarrow> 's \<Rightarrow> u64 result"

definition SponsorStateKeys :: "Address \<Rightarrow> Keys" where
  "SponsorStateKeys addr = [(StateKeysBalance addr, PermRead)]"

definition CanDeduct ::
  "('s, 'm) state_Immutable_scheme \<Rightarrow> Address \<Rightarrow> 's \<Rightarrow> u64 \<Rightarrow> go_error option" where
  "CanDeduct im addr s amount =
     (case GetBalance im s addr of
        Inl e \<Rightarrow> Some e
      | Inr bal \<Rightarrow> if bal < amount then Some (Sentinel ErrInsufficientBalance) else None)"

definition Controller_Deduct ::
  "'s state_Mutable \<Rightarrow> Address \<Rightarrow> 's \<Rightarrow> u64 \<Rightarrow> go_error option \<times> 's" where
  "Controller_Deduct mu addr s amount = DeductBalance mu s addr amount"

definition Controller_AddBalance ::
  "'s state_Mutable \<Rightarrow> Address \<Rightarrow> 's \<Rightarrow> u64 \<Rightarrow> go_error option \<times> 's" where
  "Controller_AddBalance mu addr s amount = AddBalance mu s addr amount"

definition Controller_GetBalance ::
  "('s, 'm) state_Immutable_scheme \<Rightarrow> Address \<Rightarrow> 's \<Rightarrow> u64 result" where
  "Controller_GetBalance im addr s = GetBalance im s addr"

definition Controller_New :: "'s state_Mutable \<Rightarrow> 's BalanceHandler" where
  "Controller_New mu =
     \<lparr>bh_SponsorStateKeys = SponsorStateKeys, bh_CanDeduct = CanDeduct mu,
      bh_Deduct = Controller_Deduct mu, bh_AddBalance = Controller_AddBalance mu,
      bh_GetBalance = Controller_GetBalance mu\<rparr>"

section \<open>Keys\<close>

lemma BalanceKey_eq [keys_simps]: "wf_Address a \<Longrightarrow> BalanceKey a = 3 # a @ [0, 1]"
  by (simp add: BalanceKey_def wf_Address_def AddressLen_def Uint16Len_def consts_BalancePrefix_def
        BalanceChunks_def PutUint16_def copy_at_def numeral_eq_Suc Let_def)

lemma StateKeysBalance_eq [keys_simps]: "wf_Address a \<Longrightarrow> StateKeysBalance a = 0 # a"
  by (simp add: StateKeysBalance_def wf_Address_def AddressLen_def BalancePrefix_def copy_at_def
        numeral_eq_Suc)

lemma BalanceKey_inj:
  "wf_Address a \<Longrightarrow> wf_Address b \<Longrightarrow> BalanceKey a = BalanceKey b \<longleftrightarrow> a = b"
  by (simp add: keys_simps)

lemma MaxChunks_BalanceKey [keys_simps]: "wf_Address a \<Longrightarrow> MaxChunks (BalanceKey a) = Some 1"
  using MaxChunks_append2 [of "3 # a" 0 1] by (simp add: keys_simps)

lemma keys_Valid_BalanceKey [keys_simps]: "wf_Address a \<Longrightarrow> keys_Valid (BalanceKey a)"
  by (simp add: keys_simps keys_Valid_def)

lemma VerifyValue_BalanceKey [keys_simps]:
  "wf_Address a \<Longrightarrow> VerifyValue (BalanceKey a) (PutUint64 v)"
  by (simp add: VerifyValue_def MaxChunks_BalanceKey)

lemma AddressFromKey_StateKeysBalance:
  "wf_Address a \<Longrightarrow> AddressFromKey (StateKeysBalance a) = Inr a"
  by (simp add: AddressFromKey_def keys_simps wf_Address_def BalancePrefix_def EmptyAddress_def
        copy_at_array)

lemma AddressFromKey_inverse:
  "AddressFromKey key = Inr a \<Longrightarrow> wf_Address a \<and> StateKeysBalance a = key"
  by (cases key)
     (auto simp: AddressFromKey_def wf_Address_def EmptyAddress_def copy_at_array BalancePrefix_def
        StateKeysBalance_eq split: if_splits)

section \<open>Counters stored as eight bytes\<close>

text \<open>
  What \<^verbatim>\<open>UnpackUint64(true)\<close> makes of a stored value. It is shared by balances and share
  balances.
\<close>

definition zero_error :: go_error where
  "zero_error = Wrapf ''%w: Uint64 field is not populated'' [] (Sentinel ErrFieldNotPopulated)"

definition stored_u64 :: "bytes option \<Rightarrow> u64 result" where
  "stored_u64 r =
     (case r of
        None \<Rightarrow> Inr 0
      | Some v \<Rightarrow>
          if v = [] then Inr 0
          else if length v < 8 then Inl (Sentinel ErrInsufficientLength)
          else if Uint64 v = 0 then Inl zero_error
          else Inr (Uint64 v))"

lemma stored_u64_simps [simp, store_simps]:
  "stored_u64 None = Inr 0" "stored_u64 (Some []) = Inr 0"
  "stored_u64 (Some (PutUint64 v)) = (if v = 0 then Inl zero_error else Inr v)"
  by (simp_all add: stored_u64_def)

lemma zero_error_Is [err_simps]:
  "errors_Is zero_error t \<longleftrightarrow> t = ErrFieldNotPopulated" 
  by (auto simp: zero_error_def)

lemma unpack_required:
  assumes "v \<noteq> []"
  shows "(case UnpackUint64 True (NewReader v l) of (balance, reader) \<Rightarrow>
          case Err reader of Some e \<Rightarrow> Inl e | None \<Rightarrow> Inr balance) = stored_u64 (Some v)"
  using assms
  by (auto simp: stored_u64_def zero_error_def UnpackUint64_def UnpackLong_def checkSpace_def
        NewReader_def Errored_def Errs_Add_def Let_def)

lemma pack_counter [simp]:
  "Err (PackUint64 v (NewWriter 8 8)) = None"
  "Bytes (PackUint64 v (NewWriter 8 8)) = PutUint64 v"
  by (simp_all add: PackUint64_def long_field.pack_fits fits_def NewWriter_def fresh_writer_def)

lemma SetBalance_Insert: "SetBalance mu s a v = Insert mu s (BalanceKey a) (PutUint64 v)"
  by (simp add: SetBalance_def)

section \<open>Balances over any store\<close>

context scoped_store
begin

lemma GetBalance_stored:
  "inv s \<Longrightarrow> GetBalance mu s a =
     (if allowed s (BalanceKey a) PermRead then stored_u64 (contents s (BalanceKey a))
      else Inl (Sentinel ErrInvalidKeyOrPermission))"
  by (cases "contents s (BalanceKey a)")
     (auto simp: GetBalance_def get unpack_required)

text \<open>A balance that was written reads back, unless it is zero; no other balance changes.\<close>

lemma SetBalance_GetBalance:
  assumes "inv s" and ok: "insertable (contents s) (allowed s) roomy (BalanceKey a) (PutUint64 v)"
    and wf: "wf_Address a" "wf_Address b"
  shows "GetBalance mu (snd (SetBalance mu s a v)) b =
    (if b = a then (if v = 0 then Inl zero_error else Inr v) else GetBalance mu s b)"
proof -
  obtain s' where s': "Insert mu s (BalanceKey a) (PutUint64 v) = (None, s')" "inv s'"
    "contents s' = (contents s)(BalanceKey a \<mapsto> PutUint64 v)" "allowed s' = allowed s"
    using assms(1) ok by (rule insertE)
  have "allowed s (BalanceKey a) PermRead" using ok by (rule insertable_reads)
  with s' wf assms(1) show ?thesis
    by (simp add: SetBalance_Insert GetBalance_stored BalanceKey_inj)
qed

lemma DeductBalance_spec:
  assumes "inv s"
  shows "DeductBalance mu s a amount =
    (case GetBalance mu s a of
       Inl e \<Rightarrow> (Some e, s)
     | Inr bal \<Rightarrow>
         if bal < amount then (Some (Sentinel ErrInsufficientBalance), s)
         else Insert mu s (BalanceKey a) (PutUint64 (bal - amount)))"
  by (simp add: DeductBalance_def SetBalance_Insert split: sum.splits)

lemma DeductBalance_ok:
  assumes "inv s" and "GetBalance mu s a = Inr bal" and "amount \<le> bal"
    and "insertable (contents s) (allowed s) roomy (BalanceKey a) (PutUint64 (bal - amount))"
  shows "\<exists>s'. DeductBalance mu s a amount = (None, s') \<and> inv s' \<and>
    contents s' = (contents s)(BalanceKey a \<mapsto> PutUint64 (bal - amount)) \<and> allowed s' = allowed s"
  using assms insert_ok [OF assms(1,4)] by (simp add: DeductBalance_spec not_less)

lemma AddBalance_ok:
  assumes "inv s" and "GetBalance mu s a = Inr bal"
    and "insertable (contents s) (allowed s) roomy (BalanceKey a) (PutUint64 (bal + amount))"
  shows "\<exists>s'. AddBalance mu s a amount = (None, s') \<and> inv s' \<and>
    contents s' = (contents s)(BalanceKey a \<mapsto> PutUint64 (bal + amount)) \<and> allowed s' = allowed s"
  using assms insert_ok [OF assms(1,3)] by (simp add: AddBalance_def SetBalance_Insert)

text \<open>The state is untouched by a deduction that fails.\<close>

lemma DeductBalance_fail:
  assumes "inv s" and "DeductBalance mu s a amount = (Some e, s')"
  shows "s' = s"
proof (cases "GetBalance mu s a")
  case (Inr bal)
  show ?thesis
  proof (cases "insertable (contents s) (allowed s) roomy (BalanceKey a) (PutUint64 (bal - amount))")
    case True
    with assms Inr insert_ok [OF assms(1) True] show ?thesis
      by (auto simp: DeductBalance_spec split: if_splits)
  next
    case False
    with assms Inr insert_fail [OF assms(1) False] show ?thesis
      by (auto simp: DeductBalance_spec split: if_splits)
  qed
qed (use assms in \<open>auto simp: DeductBalance_def\<close>)

lemma CanDeduct_iff:
  "inv s \<Longrightarrow> CanDeduct mu a s amount = None \<longleftrightarrow>
     (\<exists>bal. GetBalance mu s a = Inr bal \<and> amount \<le> bal)"
  by (auto simp: CanDeduct_def split: sum.splits)

text \<open>
  What \<^verbatim>\<open>CanDeduct\<close> promises holds when the sponsor's key may be written: the deduction that
  follows succeeds.
\<close>

lemma CanDeduct_Deduct:
  assumes "inv s" and "CanDeduct mu a s amount = None"
    and "allowed s (BalanceKey a) PermWrite" "allowed s (BalanceKey a) PermAllocate"
    and "\<And>v. roomy (BalanceKey a) (PutUint64 v)"
  shows "\<exists>s' bal. Controller_Deduct mu a s amount = (None, s') \<and> inv s' \<and>
    GetBalance mu s a = Inr bal \<and> amount \<le> bal \<and>
    contents s' = (contents s)(BalanceKey a \<mapsto> PutUint64 (bal - amount))"
proof -
  obtain bal where "GetBalance mu s a = Inr bal" "amount \<le> bal"
    using assms(1,2) by (auto simp: CanDeduct_iff)
  moreover have "insertable (contents s) (allowed s) roomy (BalanceKey a) (PutUint64 (bal - amount))"
    using assms(3-5) by (simp add: insertable_def)
  ultimately show ?thesis
    using DeductBalance_ok [OF assms(1), of a bal amount] by (auto simp: Controller_Deduct_def)
qed

end

context tracked_store
begin

lemma rel_DeductBalance: "DeductBalance mu s a v = (e, s') \<Longrightarrow> rel s s'"
  by (auto simp: DeductBalance_def SetBalance_Insert intro: rel_insert' split: sum.splits if_splits)

lemma rel_AddBalance: "AddBalance mu s a v = (e, s') \<Longrightarrow> rel s s'"
  by (auto simp: AddBalance_def SetBalance_Insert intro: rel_insert' split: sum.splits if_splits)

end

section \<open>Properties\<close>

text \<open>
  Deducting from a balance, all branches. The error of reading the balance is returned as it
  is; a balance below the amount gives \<^verbatim>\<open>ErrInsufficientBalance\<close>; otherwise the balance is
  lowered by exactly the amount. Nothing else changes in any case.
\<close>

theorem deduct_balance_outcome:
  "DeductBalance InMemoryStore_Mutable s a amount =
    (case stored_u64 (Storage s (BalanceKey a)) of
       Inl e \<Rightarrow> (Some e, s)
     | Inr bal \<Rightarrow>
         if bal < amount then (Some (Sentinel ErrInsufficientBalance), s)
         else (None, s\<lparr>Storage := (Storage s)(BalanceKey a \<mapsto> PutUint64 (bal - amount))\<rparr>))"
  by (simp add: mem.DeductBalance_spec mem.GetBalance_stored split: sum.splits)
     (simp add: InMemoryStore_defs)

text \<open>
  A deduction and a credit of the same amount cancel, and no other balance changes, as long as
  the balance in between is not zero.
\<close>

theorem deduct_add_cancel:
  assumes "wf_Address a" and "GetBalance InMemoryStore_Mutable s a = Inr bal" and "amount < bal"
  shows "\<exists>s1 s2. DeductBalance InMemoryStore_Mutable s a amount = (None, s1) \<and>
    AddBalance InMemoryStore_Mutable s1 a amount = (None, s2) \<and>
    GetBalance InMemoryStore_Mutable s1 a = Inr (bal - amount) \<and>
    (\<forall>b. wf_Address b \<longrightarrow> GetBalance InMemoryStore_Mutable s2 b = GetBalance InMemoryStore_Mutable s b)"
proof -
  let ?mu = InMemoryStore_Mutable
  have nz: "bal - amount \<noteq> 0" "bal \<noteq> 0" using assms(3) by auto
  obtain s1 where s1: "DeductBalance ?mu s a amount = (None, s1)"
    "Storage s1 = (Storage s)(BalanceKey a \<mapsto> PutUint64 (bal - amount))"
    using mem.DeductBalance_ok [OF _ assms(2) order.strict_implies_order [OF assms(3)]]
    by (auto simp: insertable_def)
  then have g1: "GetBalance ?mu s1 a = Inr (bal - amount)"
    using nz by (simp add: mem.GetBalance_stored)
  then obtain s2 where s2: "AddBalance ?mu s1 a amount = (None, s2)"
    "Storage s2 = (Storage s)(BalanceKey a \<mapsto> PutUint64 bal)"
    using mem.AddBalance_ok [OF _ g1, of amount] s1(2) by (auto simp: insertable_def)
  have "GetBalance ?mu s2 b = GetBalance ?mu s b" if "wf_Address b" for b
    using that assms(1,2) nz s2(2) by (auto simp: mem.GetBalance_stored BalanceKey_inj)
  with s1 s2 g1 show ?thesis by blast
qed

definition one_account :: "Address \<Rightarrow> u64 \<Rightarrow> InMemoryStore" where
  "one_account a v = \<lparr>Storage = [BalanceKey a \<mapsto> PutUint64 v]\<rparr>"

theorem deduct_add_cancel_witness:
  "\<exists>s1 s2. DeductBalance InMemoryStore_Mutable (one_account (replicate 33 1) 50) (replicate 33 1) 20 = (None, s1) \<and>
    AddBalance InMemoryStore_Mutable s1 (replicate 33 1) 20 = (None, s2) \<and>
    GetBalance InMemoryStore_Mutable s1 (replicate 33 1) = Inr 30 \<and>
    GetBalance InMemoryStore_Mutable s2 (replicate 33 1) = Inr 50"
proof -
  have "GetBalance InMemoryStore_Mutable (one_account (replicate 33 1) 50) (replicate 33 1) = Inr 50"
    by (simp add: mem.GetBalance_stored one_account_def)
  moreover have "wf_Address (replicate 33 1)" by (simp add: wf_Address_def AddressLen_def)
  ultimately show ?thesis
    using deduct_add_cancel [of "replicate 33 1" "one_account (replicate 33 1) 50" 50 20]
    by fastforce
qed

text \<open>
  C29: spending a balance to exactly zero locks the account. The deduction succeeds, but the balance
  can no longer be read, and neither a credit nor a further deduction is possible.
\<close>

theorem spent_account_locks:
  assumes "GetBalance InMemoryStore_Mutable s a = Inr bal"
  shows "\<exists>s'. DeductBalance InMemoryStore_Mutable s a bal = (None, s') \<and>
    (\<exists>e. errors_Is e ErrFieldNotPopulated \<and> GetBalance InMemoryStore_Mutable s' a = Inl e \<and>
       (\<forall>n. AddBalance InMemoryStore_Mutable s' a n = (Some e, s') \<and>
            DeductBalance InMemoryStore_Mutable s' a n = (Some e, s') \<and>
            CanDeduct InMemoryStore_Mutable a s' n = Some e))"
proof -
  obtain s' where s': "DeductBalance InMemoryStore_Mutable s a bal = (None, s')"
    "Storage s' = (Storage s)(BalanceKey a \<mapsto> PutUint64 0)"
    using mem.DeductBalance_ok [OF _ assms, of bal] by (auto simp: insertable_def)
  have g: "GetBalance InMemoryStore_Mutable s' a = Inl zero_error"
    by (simp add: mem.GetBalance_stored s')
  show ?thesis
    using s'(1) g
    by (intro exI [of _ s'] conjI exI [of _ zero_error])
       (simp_all add: AddBalance_def DeductBalance_def CanDeduct_def err_simps)
qed

theorem spent_account_locks_witness:
  "\<exists>s'. DeductBalance InMemoryStore_Mutable (one_account (replicate 33 1) 50) (replicate 33 1) 50 = (None, s') \<and>
    (\<exists>e. GetBalance InMemoryStore_Mutable s' (replicate 33 1) = Inl e)"
proof -
  have "GetBalance InMemoryStore_Mutable (one_account (replicate 33 1) 50) (replicate 33 1) = Inr 50"
    by (simp add: mem.GetBalance_stored one_account_def)
  from spent_account_locks [OF this] show ?thesis by blast
qed

text \<open>
  A credit wraps at \<open>2 ^ 64\<close> without an error: the stored balance is the sum modulo
  \<open>2 ^ 64\<close>.
\<close>

theorem add_balance_wraps:
  assumes "GetBalance InMemoryStore_Mutable s a = Inr bal"
  shows "\<exists>s'. AddBalance InMemoryStore_Mutable s a amount = (None, s') \<and>
    map_option (unat \<circ> Uint64) (Storage s' (BalanceKey a)) =
      Some ((unat bal + unat amount) mod 2 ^ 64)"
  using mem.AddBalance_ok [OF _ assms, of amount]
  by (auto simp: insertable_def unat_word_ariths)

theorem add_balance_wraps_witness:
  "\<exists>s'. AddBalance InMemoryStore_Mutable (one_account (replicate 33 1) (- 1)) (replicate 33 1) 3 = (None, s') \<and>
    map_option (unat \<circ> Uint64) (Storage s' (BalanceKey (replicate 33 1))) = Some 2"
proof -
  have "GetBalance InMemoryStore_Mutable (one_account (replicate 33 1) (- 1)) (replicate 33 1) = Inr (- 1)"
    by (simp add: mem.GetBalance_stored one_account_def)
  from add_balance_wraps [OF this, of 3] show ?thesis
    by (simp add: unsigned_minus_1_eq_mask mask_eq_exp_minus_1)
qed

definition read_store :: "InMemoryStore \<Rightarrow> ReadState" where
  "read_store s ks =
     (map (\<lambda>k. case InMemoryStore_GetValue s k of Inl _ \<Rightarrow> [] | Inr v \<Rightarrow> v) ks,
      map (\<lambda>k. case InMemoryStore_GetValue s k of Inl e \<Rightarrow> Some e | Inr _ \<Rightarrow> None) ks)"

text \<open>
  The balance an RPC client reads is not the balance the ledger uses. The query looks under the
  key \<^verbatim>\<open>StateKeysBalance\<close>, which no balance operation ever writes: for an account that exists
  it answers zero.
\<close>

theorem rpc_reads_other_key:
  assumes "wf_Address a" and "SetBalance InMemoryStore_Mutable NewInMemoryStore a v = (None, s)" and "v \<noteq> 0"
  shows "GetBalance InMemoryStore_Mutable s a = Inr v \<and> GetBalanceFromState (read_store s) a = (0, None)"
proof -
  have s: "Storage s = [BalanceKey a \<mapsto> PutUint64 v]"
    using assms(2) by (auto simp: SetBalance_Insert InMemoryStore_defs NewInMemoryStore_def)
  have "StateKeysBalance a \<noteq> BalanceKey a"
    using assms(1) by (simp add: keys_simps)
  with s assms(3) show ?thesis
    by (simp add: mem.GetBalance_stored GetBalanceFromState_def read_store_def innerGetBalance_def
          InMemoryStore_GetValue_def)
qed

theorem rpc_reads_other_key_witness:
  "\<exists>s. SetBalance InMemoryStore_Mutable NewInMemoryStore (replicate 33 1) 50 = (None, s) \<and>
    GetBalance InMemoryStore_Mutable s (replicate 33 1) = Inr 50 \<and>
    GetBalanceFromState (read_store s) (replicate 33 1) = (0, None)"
proof -
  obtain s where s: "SetBalance InMemoryStore_Mutable NewInMemoryStore (replicate 33 1) 50 = (None, s)"
    by (simp add: SetBalance_Insert InMemoryStore_defs)
  have "wf_Address (replicate 33 1)" by (simp add: wf_Address_def AddressLen_def)
  from rpc_reads_other_key [OF this s] s show ?thesis by simp
qed

text \<open>
  The address of a balance key and the key of an address are inverse to each other on the keys
  of \<^verbatim>\<open>StateKeysBalance\<close>; the keys that balances are really stored under are all refused.
\<close>

theorem address_from_key:
  assumes "wf_Address a"
  shows "(AddressFromKey key = Inr a \<longleftrightarrow> key = StateKeysBalance a) \<and>
    AddressFromKey (BalanceKey a) = Inl (ErrNew ''invalid key length'')"
  using assms AddressFromKey_inverse [of key a] AddressFromKey_StateKeysBalance [OF assms]
  by (auto simp: AddressFromKey_def BalanceKey_eq wf_Address_def AddressLen_def)

theorem address_from_key_witness:
  "AddressFromKey (StateKeysBalance (replicate 33 1)) = Inr (replicate 33 1) \<and>
   AddressFromKey (BalanceKey (replicate 33 1)) = Inl (ErrNew ''invalid key length'')"
  using address_from_key [of "replicate 33 1"] by (simp add: wf_Address_def AddressLen_def)

end
