(* ===== verification/LinearCodec.thy ===== *)
theory LinearCodec
  imports Packing
begin

text \<open>
  The reflection codec of avalanchego (\<^verbatim>\<open>codec/reflectcodec\<close>, reached through
  \<^verbatim>\<open>codec/linearcodec\<close>) that the program uses for markets and actions. A Go value is a
  \<open>govalue\<close>, its \<^verbatim>\<open>reflect.Type\<close> a \<open>gotype\<close>. The kinds the program marshals are
  all here (integers, bool, string, pointer, slice, array, struct); interfaces and maps, which no
  struct of this program has, are left out. Shown: marshalling appends the encoding \<open>enc\<close> or
  fails with \<open>ErrInsufficientLength\<close>, unmarshalling that encoding gives the value back, and nothing
  but an encoding is ever unmarshalled.
\<close>

section \<open>Types and values\<close>

datatype field_tag = FieldTag (field_name: string) (serialized: bool) (exported: bool)

datatype gotype =
    TUint8 | TInt8 | TUint16 | TInt16 | TUint32 | TInt32 | TUint64 | TInt64 | TBool | TString
  | TPtr gotype
  | TSlice gotype
  | TArray nat gotype
  | TStruct "field_tag list" "gotype list"

datatype govalue =
    VUint8 u8 | VInt8 u8 | VUint16 u16 | VInt16 u16 | VUint32 u32 | VInt32 u32
  | VUint64 u64 | VInt64 i64 | VBool bool | VString bytes
  | VPtr "govalue option"
  | VSlice gotype "govalue list"
  | VArray gotype "govalue list"
  | VStruct "field_tag list" "govalue list"

definition MaxInt32 :: nat where
  "MaxInt32 = 2147483647"

fun byte_of :: "govalue \<Rightarrow> byte" where
  "byte_of (VUint8 b) = b"
| "byte_of _ = 0"

text \<open>Selectors that turn a decoded struct value back into the fields of a record.\<close>

fun fields_of :: "govalue \<Rightarrow> govalue list" where
  "fields_of (VStruct _ vs) = vs"
| "fields_of _ = []"

fun u64_of :: "govalue \<Rightarrow> u64" where
  "u64_of (VUint64 v) = v"
| "u64_of (VInt64 v) = v"
| "u64_of _ = 0"

fun bytes_of :: "govalue \<Rightarrow> bytes" where
  "bytes_of (VString v) = v"
| "bytes_of (VSlice _ vs) = map byte_of vs"
| "bytes_of (VArray _ vs) = map byte_of vs"
| "bytes_of _ = []"

section \<open>struct_fielder.go\<close>

text \<open>The indices of the fields to serialize; a tagged field that is not exported is an error.\<close>

fun serialized_fields_from :: "nat \<Rightarrow> field_tag list \<Rightarrow> nat list result" where
  "serialized_fields_from i [] = Inr []"
| "serialized_fields_from i (f # fs) =
     (if \<not> serialized f then serialized_fields_from (Suc i) fs
      else if \<not> exported f
      then Inl (Wrapf ''can not marshal %w: %s'' [FStr (field_name f)] (Sentinel ErrUnexportedField))
      else case serialized_fields_from (Suc i) fs of
             Inl e \<Rightarrow> Inl e
           | Inr is \<Rightarrow> Inr (i # is))"

definition GetSerializedFields :: "field_tag list \<Rightarrow> nat list result" where
  "GetSerializedFields fs = serialized_fields_from 0 fs"

section \<open>Marshalling\<close>

type_synonym marshaller = "Packer \<Rightarrow> go_error option \<times> Packer"

text \<open>\<^verbatim>\<open>return p.Err\<close>.\<close>

definition return_Err :: marshaller where
  "return_Err p = (Err p, p)"

fun marshal_slice_elts :: "marshaller list \<Rightarrow> marshaller" where
  "marshal_slice_elts [] p = (None, p)"
| "marshal_slice_elts (m # ms) p =
     (case m p of
        (Some e, p1) \<Rightarrow> (Some e, p1)
      | (None, p1) \<Rightarrow>
          if Offset p = Offset p1
          then (Some (Wrapf ''couldn't marshal slice of zero length values: %w'' []
                        (Sentinel ErrMarshalZeroLength)), p1)
          else marshal_slice_elts ms p1)"

fun marshal_seq :: "marshaller list \<Rightarrow> marshaller" where
  "marshal_seq [] p = (None, p)"
| "marshal_seq (m # ms) p =
     (case m p of
        (Some e, p1) \<Rightarrow> (Some e, p1)
      | (None, p1) \<Rightarrow> marshal_seq ms p1)"

primrec marshal :: "govalue \<Rightarrow> Packer \<Rightarrow> go_error option \<times> Packer" where
  "marshal (VUint8 v) = (\<lambda>p. return_Err (PackByte v p))"
| "marshal (VInt8 v) = (\<lambda>p. return_Err (PackByte v p))"
| "marshal (VUint16 v) = (\<lambda>p. return_Err (PackShort v p))"
| "marshal (VInt16 v) = (\<lambda>p. return_Err (PackShort v p))"
| "marshal (VUint32 v) = (\<lambda>p. return_Err (PackInt v p))"
| "marshal (VInt32 v) = (\<lambda>p. return_Err (PackInt v p))"
| "marshal (VUint64 v) = (\<lambda>p. return_Err (PackLong v p))"
| "marshal (VInt64 v) = (\<lambda>p. return_Err (PackLong v p))"
| "marshal (VString v) = (\<lambda>p. return_Err (PackStr v p))"
| "marshal (VBool v) = (\<lambda>p. return_Err (PackBool v p))"
| "marshal (VPtr v) =
     (\<lambda>p. case map_option marshal v of
            None \<Rightarrow> (Some (Sentinel ErrMarshalNil), p)
          | Some m \<Rightarrow> m p)"
| "marshal (VSlice t vs) =
     (\<lambda>p. let numElts = length vs in
          if numElts > MaxInt32
          then (Some (Wrapf ''%w; slice length, %d, exceeds maximum length, %d''
                        [FNat numElts, FNat MaxInt32] (Sentinel ErrMaxSliceLenExceeded)), p)
          else let p1 = PackInt (word_of_nat numElts) p in
          if Err p1 \<noteq> None then (Err p1, p1)
          else if numElts = 0 then (None, p1)
          else if t = TUint8 then return_Err (PackFixedBytes (map byte_of vs) p1)
          else marshal_slice_elts (map marshal vs) p1)"
| "marshal (VArray t vs) = marshal_seq (map marshal vs)"
| "marshal (VStruct fs vs) =
     (\<lambda>p. case GetSerializedFields fs of
            Inl e \<Rightarrow> (Some e, p)
          | Inr is \<Rightarrow> marshal_seq (map (\<lambda>i. map marshal vs ! i) is) p)"

text \<open>The program always passes a pointer to a struct.\<close>

definition MarshalInto :: "govalue \<Rightarrow> Packer \<Rightarrow> go_error option \<times> Packer" where
  "MarshalInto v p = marshal (VPtr (Some v)) p"

section \<open>Unmarshalling\<close>

type_synonym unmarshaller = "Packer \<Rightarrow> govalue result \<times> Packer"

primrec zero_value :: "gotype \<Rightarrow> govalue" where
  "zero_value TUint8 = VUint8 0"
| "zero_value TInt8 = VInt8 0"
| "zero_value TUint16 = VUint16 0"
| "zero_value TInt16 = VInt16 0"
| "zero_value TUint32 = VUint32 0"
| "zero_value TInt32 = VInt32 0"
| "zero_value TUint64 = VUint64 0"
| "zero_value TInt64 = VInt64 0"
| "zero_value TBool = VBool False"
| "zero_value TString = VString []"
| "zero_value (TPtr t) = VPtr None"
| "zero_value (TSlice t) = VSlice t []"
| "zero_value (TArray n t) = VArray t (replicate n (zero_value t))"
| "zero_value (TStruct fs ts) = VStruct fs (map zero_value ts)"

definition unpacked :: "string \<Rightarrow> ('a \<Rightarrow> govalue) \<Rightarrow> 'a \<times> Packer \<Rightarrow> govalue result \<times> Packer" where
  "unpacked msg C = (\<lambda>(v, p). case Err p of
       None \<Rightarrow> (Inr (C v), p)
     | Some e \<Rightarrow> (Inl (Wrapf msg [] e), p))"

fun unmarshal_slice_elts :: "nat \<Rightarrow> unmarshaller \<Rightarrow> Packer \<Rightarrow> (govalue list) result \<times> Packer" where
  "unmarshal_slice_elts 0 u p = (Inr [], p)"
| "unmarshal_slice_elts (Suc n) u p =
     (case u p of
        (Inl e, p1) \<Rightarrow> (Inl e, p1)
      | (Inr v, p1) \<Rightarrow>
          if Offset p = Offset p1
          then (Inl (Wrapf ''couldn't unmarshal slice of zero length values: %w'' []
                       (Sentinel ErrUnmarshalZeroLength)), p1)
          else (case unmarshal_slice_elts n u p1 of
                  (Inl e, p2) \<Rightarrow> (Inl e, p2)
                | (Inr vs, p2) \<Rightarrow> (Inr (v # vs), p2)))"

fun unmarshal_array_elts :: "nat \<Rightarrow> unmarshaller \<Rightarrow> Packer \<Rightarrow> (govalue list) result \<times> Packer" where
  "unmarshal_array_elts 0 u p = (Inr [], p)"
| "unmarshal_array_elts (Suc n) u p =
     (case u p of
        (Inl e, p1) \<Rightarrow> (Inl e, p1)
      | (Inr v, p1) \<Rightarrow>
          (case unmarshal_array_elts n u p1 of
             (Inl e, p2) \<Rightarrow> (Inl e, p2)
           | (Inr vs, p2) \<Rightarrow> (Inr (v # vs), p2)))"

fun unmarshal_fields ::
  "nat list \<Rightarrow> unmarshaller list \<Rightarrow> govalue list \<Rightarrow> Packer \<Rightarrow> (govalue list) result \<times> Packer" where
  "unmarshal_fields [] us vs p = (Inr vs, p)"
| "unmarshal_fields (i # is) us vs p =
     (case (us ! i) p of
        (Inl e, p1) \<Rightarrow> (Inl e, p1)
      | (Inr v, p1) \<Rightarrow> unmarshal_fields is us (vs[i := v]) p1)"

definition map_result :: "('a \<Rightarrow> 'b) \<Rightarrow> 'a result \<times> Packer \<Rightarrow> 'b result \<times> Packer" where
  "map_result f = (\<lambda>(r, p). (case r of Inl e \<Rightarrow> Inl e | Inr v \<Rightarrow> Inr (f v), p))"

primrec unmarshal :: "gotype \<Rightarrow> Packer \<Rightarrow> govalue result \<times> Packer" where
  "unmarshal TUint8 = (\<lambda>p. unpacked ''couldn't unmarshal uint8: %w'' VUint8 (UnpackByte p))"
| "unmarshal TInt8 = (\<lambda>p. unpacked ''couldn't unmarshal int8: %w'' VInt8 (UnpackByte p))"
| "unmarshal TUint16 = (\<lambda>p. unpacked ''couldn't unmarshal uint16: %w'' VUint16 (UnpackShort p))"
| "unmarshal TInt16 = (\<lambda>p. unpacked ''couldn't unmarshal int16: %w'' VInt16 (UnpackShort p))"
| "unmarshal TUint32 = (\<lambda>p. unpacked ''couldn't unmarshal uint32: %w'' VUint32 (UnpackInt p))"
| "unmarshal TInt32 = (\<lambda>p. unpacked ''couldn't unmarshal int32: %w'' VInt32 (UnpackInt p))"
| "unmarshal TUint64 = (\<lambda>p. unpacked ''couldn't unmarshal uint64: %w'' VUint64 (UnpackLong p))"
| "unmarshal TInt64 = (\<lambda>p. unpacked ''couldn't unmarshal int64: %w'' VInt64 (UnpackLong p))"
| "unmarshal TBool = (\<lambda>p. unpacked ''couldn't unmarshal bool: %w'' VBool (UnpackBool p))"
| "unmarshal TString = (\<lambda>p. unpacked ''couldn't unmarshal string: %w'' VString (UnpackStr p))"
| "unmarshal (TPtr t) = (\<lambda>p. map_result (\<lambda>v. VPtr (Some v)) (unmarshal t p))"
| "unmarshal (TSlice t) =
     (\<lambda>p. let (numElts32, p1) = UnpackInt p in
          case Err p1 of
            Some e \<Rightarrow> (Inl (Wrapf ''couldn't unmarshal slice: %w'' [] e), p1)
          | None \<Rightarrow>
              if unat numElts32 > MaxInt32
              then (Inl (Wrapf ''%w; array length, %d, exceeds maximum length, %d''
                           [FNat (unat numElts32), FNat MaxInt32]
                           (Sentinel ErrMaxSliceLenExceeded)), p1)
              else if t = TUint8
              then (let (bs, p2) = UnpackFixedBytes (unat numElts32) p1 in
                    case Err p2 of
                      Some e \<Rightarrow> (Inl e, p2)
                    | None \<Rightarrow> (Inr (VSlice t (map VUint8 bs)), p2))
              else map_result (VSlice t)
                     (unmarshal_slice_elts (unat numElts32) (unmarshal t) p1))"
| "unmarshal (TArray n t) =
     (\<lambda>p. if t = TUint8
          then (let (bs, p1) = UnpackFixedBytes n p in
                case Err p1 of
                  Some e \<Rightarrow> (Inl e, p1)
                | None \<Rightarrow> (Inr (VArray t (map VUint8 bs)), p1))
          else map_result (VArray t) (unmarshal_array_elts n (unmarshal t) p))"
| "unmarshal (TStruct fs ts) =
     (\<lambda>p. case GetSerializedFields fs of
            Inl e \<Rightarrow> (Inl (Wrapf ''couldn't unmarshal struct: %w'' [] e), p)
          | Inr is \<Rightarrow>
              map_result (VStruct fs)
                (unmarshal_fields is (map unmarshal ts) (map zero_value ts) p))"

definition UnmarshalFrom :: "Packer \<Rightarrow> gotype \<Rightarrow> govalue result \<times> Packer" where
  "UnmarshalFrom p t = unmarshal t p"

section \<open>The encoding\<close>

primrec enc :: "govalue \<Rightarrow> bytes" where
  "enc (VUint8 v) = [v]"
| "enc (VInt8 v) = [v]"
| "enc (VUint16 v) = PutUint16 v"
| "enc (VInt16 v) = PutUint16 v"
| "enc (VUint32 v) = PutUint32 v"
| "enc (VInt32 v) = PutUint32 v"
| "enc (VUint64 v) = PutUint64 v"
| "enc (VInt64 v) = PutUint64 v"
| "enc (VBool v) = enc_bool v"
| "enc (VString v) = enc_str v"
| "enc (VPtr v) = (case map_option enc v of None \<Rightarrow> [] | Some xs \<Rightarrow> xs)"
| "enc (VSlice t vs) = PutUint32 (word_of_nat (length vs)) @ concat (map enc vs)"
| "enc (VArray t vs) = concat (map enc vs)"
| "enc (VStruct fs vs) = concat (map enc vs)"

definition all_serialized :: "field_tag list \<Rightarrow> bool" where
  "all_serialized fs \<longleftrightarrow> list_all (\<lambda>f. serialized f \<and> exported f) fs"

text \<open>\<open>has_type t v\<close>: \<open>v\<close> is a value of type \<open>t\<close>, every struct field serialized.\<close>

primrec has_type :: "gotype \<Rightarrow> govalue \<Rightarrow> bool" where
  "has_type TUint8 v = (case v of VUint8 _ \<Rightarrow> True | _ \<Rightarrow> False)"
| "has_type TInt8 v = (case v of VInt8 _ \<Rightarrow> True | _ \<Rightarrow> False)"
| "has_type TUint16 v = (case v of VUint16 _ \<Rightarrow> True | _ \<Rightarrow> False)"
| "has_type TInt16 v = (case v of VInt16 _ \<Rightarrow> True | _ \<Rightarrow> False)"
| "has_type TUint32 v = (case v of VUint32 _ \<Rightarrow> True | _ \<Rightarrow> False)"
| "has_type TInt32 v = (case v of VInt32 _ \<Rightarrow> True | _ \<Rightarrow> False)"
| "has_type TUint64 v = (case v of VUint64 _ \<Rightarrow> True | _ \<Rightarrow> False)"
| "has_type TInt64 v = (case v of VInt64 _ \<Rightarrow> True | _ \<Rightarrow> False)"
| "has_type TBool v = (case v of VBool _ \<Rightarrow> True | _ \<Rightarrow> False)"
| "has_type TString v = (case v of VString _ \<Rightarrow> True | _ \<Rightarrow> False)"
| "has_type (TPtr t) v = (case v of VPtr (Some w) \<Rightarrow> has_type t w | _ \<Rightarrow> False)"
| "has_type (TSlice t) v =
     (case v of VSlice t' vs \<Rightarrow> t' = t \<and> list_all (has_type t) vs | _ \<Rightarrow> False)"
| "has_type (TArray n t) v =
     (case v of VArray t' vs \<Rightarrow> t' = t \<and> length vs = n \<and> list_all (has_type t) vs | _ \<Rightarrow> False)"
| "has_type (TStruct fs ts) v =
     (case v of
        VStruct fs' vs \<Rightarrow> fs' = fs \<and> length fs = length ts \<and> all_serialized fs \<and>
                          list_all2 (\<lambda>h v. h v) (map has_type ts) vs
      | _ \<Rightarrow> False)"

text \<open>
  The sizes the wire format can carry: a string length in 16 bits, a slice length below
  \<open>MaxInt32\<close>, and no slice element of zero length (the codec refuses those).
\<close>

primrec encodable :: "govalue \<Rightarrow> bool" where
  "encodable (VUint8 v) = True"
| "encodable (VInt8 v) = True"
| "encodable (VUint16 v) = True"
| "encodable (VInt16 v) = True"
| "encodable (VUint32 v) = True"
| "encodable (VInt32 v) = True"
| "encodable (VUint64 v) = True"
| "encodable (VInt64 v) = True"
| "encodable (VBool v) = True"
| "encodable (VString v) = (length v \<le> MaxStringLen)"
| "encodable (VPtr v) = (case map_option encodable v of None \<Rightarrow> False | Some b \<Rightarrow> b)"
| "encodable (VSlice t vs) =
     (length vs \<le> MaxInt32 \<and> list_all (\<lambda>v. enc v \<noteq> []) vs \<and> list_all id (map encodable vs))"
| "encodable (VArray t vs) = list_all id (map encodable vs)"
| "encodable (VStruct fs vs) = list_all id (map encodable vs)"

section \<open>Marshalling appends the encoding\<close>

definition writes :: "marshaller \<Rightarrow> bytes \<Rightarrow> bool" where
  "writes m xs \<longleftrightarrow> (\<forall>p. fresh_writer p \<longrightarrow>
     (if fits xs p then m p = (None, appended xs p)
      else fst (m p) = Some (Sentinel ErrInsufficientLength)))"

lemma writesD:
  "writes m xs \<Longrightarrow> fresh_writer p \<Longrightarrow> fits xs p \<Longrightarrow> m p = (None, appended xs p)"
  by (simp add: writes_def)

lemma writes_full:
  assumes "writes m xs" and "fresh_writer p" and "\<not> fits xs p"
  obtains p1 where "m p = (Some (Sentinel ErrInsufficientLength), p1)"
  using assms by (cases "m p") (auto simp: writes_def)

lemma fits_append: "fits (xs @ ys) p \<longleftrightarrow> fits xs p \<and> fits ys (appended xs p)"
  by (auto simp: fits_def)

context wire_field
begin

lemma writes_field: "valid v \<Longrightarrow> writes (\<lambda>p. return_Err (pack v p)) (enc v)"
  by (simp add: writes_def return_Err_def pack_fits pack_full fresh_writer_def)

end

lemma writes_cases:
  assumes "writes m xs" and "fresh_writer p"
  obtains (ok) "fits xs p" "m p = (None, appended xs p)"
  | (full) p1 where "\<not> fits xs p" "m p = (Some (Sentinel ErrInsufficientLength), p1)"
  using assms by (metis writesD writes_full)

lemma writes_seq:
  "list_all2 writes ms xss \<Longrightarrow> writes (marshal_seq ms) (concat xss)"
proof (induction rule: list_all2_induct)
  case Nil
  show ?case by (simp add: writes_def fits_def)
next
  case (Cons m ms xs xss)
  show ?case
    unfolding writes_def
  proof (intro allI impI)
    fix p assume p: "fresh_writer p"
    from Cons.hyps(1) p
    show "if fits (concat (xs # xss)) p
          then marshal_seq (m # ms) p = (None, appended (concat (xs # xss)) p)
          else fst (marshal_seq (m # ms) p) = Some (Sentinel ErrInsufficientLength)"
    proof (cases rule: writes_cases)
      case ok
      then show ?thesis
        using Cons.IH p by (auto simp: writes_def fits_append)
    qed (simp add: fits_append)
  qed
qed

lemma writes_slice_elts:
  "list_all2 writes ms xss \<Longrightarrow> list_all (\<lambda>xs. xs \<noteq> []) xss \<Longrightarrow>
   writes (marshal_slice_elts ms) (concat xss)"
proof (induction rule: list_all2_induct)
  case Nil
  show ?case by (simp add: writes_def fits_def)
next
  case (Cons m ms xs xss)
  show ?case
    unfolding writes_def
  proof (intro allI impI)
    fix p assume p: "fresh_writer p"
    from Cons.hyps(1) p
    show "if fits (concat (xs # xss)) p
          then marshal_slice_elts (m # ms) p = (None, appended (concat (xs # xss)) p)
          else fst (marshal_slice_elts (m # ms) p) = Some (Sentinel ErrInsufficientLength)"
    proof (cases rule: writes_cases)
      case ok
      then show ?thesis
        using Cons.IH Cons.prems p by (auto simp: writes_def fits_append)
    qed (simp add: fits_append)
  qed
qed

lemma writes_fixed: "writes (\<lambda>p. return_Err (PackFixedBytes bs p)) bs"
  by (auto simp: writes_def return_Err_def PackFixedBytes_emit emit_def fresh_writer_def)

text \<open>A length prefix followed by a body.\<close>

lemma writes_prefixed:
  assumes "writes m xs" and "n \<le> MaxInt32"
  shows "writes (\<lambda>p. let p1 = PackInt (word_of_nat n) p in
                     if Err p1 \<noteq> None then (Err p1, p1) else m p1)
                (PutUint32 (word_of_nat n) @ xs)"
  unfolding writes_def
proof (intro allI impI)
  fix p assume p: "fresh_writer p"
  show "if fits (PutUint32 (word_of_nat n) @ xs) p
        then (let p1 = PackInt (word_of_nat n) p in
                if Err p1 \<noteq> None then (Err p1, p1) else m p1)
             = (None, appended (PutUint32 (word_of_nat n) @ xs) p)
        else fst (let p1 = PackInt (word_of_nat n) p in
                    if Err p1 \<noteq> None then (Err p1, p1) else m p1)
             = Some (Sentinel ErrInsufficientLength)"
  proof (cases "fits (PutUint32 (word_of_nat n)) p")
    case True
    then have "PackInt (word_of_nat n) p = appended (PutUint32 (word_of_nat n)) p"
      using p by (simp add: int_field.pack_fits)
    then show ?thesis
      using assms(1) p True by (auto simp: Let_def writes_def fits_append fresh_writer_def)
  next
    case False
    then have "Err (PackInt (word_of_nat n) p) = Some (Sentinel ErrInsufficientLength)"
      using p by (simp add: int_field.pack_full)
    then show ?thesis
      using False by (simp add: Let_def fits_append)
  qed
qed

lemma serialized_all:
  "all_serialized fs \<Longrightarrow> serialized_fields_from i fs = Inr [i..<i + length fs]"
proof (induction fs arbitrary: i)
  case (Cons f fs)
  then have "serialized_fields_from (Suc i) fs = Inr [Suc i..<Suc i + length fs]"
    by (simp add: all_serialized_def)
  with Cons.prems show ?case
    by (simp add: all_serialized_def upt_conv_Cons del: upt_Suc)
qed simp

lemma GetSerializedFields_all [simp]:
  "all_serialized fs \<Longrightarrow> GetSerializedFields fs = Inr [0..<length fs]"
  by (simp add: GetSerializedFields_def serialized_all)

lemma bytes_of_slice:
  "list_all (has_type TUint8) vs \<Longrightarrow> map byte_of vs = concat (map enc vs)"
proof (induction vs)
  case (Cons v vs)
  then show ?case by (cases v) auto
qed simp

lemma marshal_VSlice_writes:
  assumes t: "has_type (TSlice t) (VSlice t vs)" and e: "encodable (VSlice t vs)"
    and IH: "\<And>v. v \<in> set vs \<Longrightarrow> writes (marshal v) (enc v)"
  shows "writes (marshal (VSlice t vs)) (enc (VSlice t vs))"
proof -
  have n: "length vs \<le> MaxInt32" using e by simp
  have "list_all2 writes (map marshal vs) (map enc vs)"
    using IH by (auto simp: list_all2_conv_all_nth)
  moreover have "list_all (\<lambda>xs. xs \<noteq> []) (map enc vs)"
    using e by (auto simp: list_all_iff)
  ultimately have elts: "writes (marshal_slice_elts (map marshal vs)) (concat (map enc vs))"
    by (rule writes_slice_elts)
  have fixed: "t = TUint8 \<Longrightarrow>
      writes (\<lambda>p. return_Err (PackFixedBytes (map byte_of vs) p)) (concat (map enc vs))"
    using t writes_fixed [of "map byte_of vs"] by (simp add: bytes_of_slice)
  define body where "body = (\<lambda>p. if length vs = 0 then (None, p)
      else if t = TUint8 then return_Err (PackFixedBytes (map byte_of vs) p)
      else marshal_slice_elts (map marshal vs) p)"
  have "writes body (concat (map enc vs))"
    using elts fixed by (auto simp: body_def writes_def fits_def)
  then have "writes (\<lambda>p. let p1 = PackInt (word_of_nat (length vs)) p in
        if Err p1 \<noteq> None then (Err p1, p1) else body p1) (enc (VSlice t vs))"
    using writes_prefixed [OF _ n] by simp
  moreover have "marshal (VSlice t vs) = (\<lambda>p. let p1 = PackInt (word_of_nat (length vs)) p in
        if Err p1 \<noteq> None then (Err p1, p1) else body p1)"
    using n by (simp add: fun_eq_iff Let_def body_def)
  ultimately show ?thesis by simp
qed

lemma marshal_VStruct_writes:
  assumes "all_serialized fs" and "length fs = length vs"
    and IH: "\<And>v. v \<in> set vs \<Longrightarrow> writes (marshal v) (enc v)"
  shows "writes (marshal (VStruct fs vs)) (enc (VStruct fs vs))"
proof -
  have "map (\<lambda>i. map marshal vs ! i) [0..<length fs] = map marshal vs"
    using assms(2) by (metis length_map map_nth)
  moreover have "list_all2 writes (map marshal vs) (map enc vs)"
    using IH by (auto simp: list_all2_conv_all_nth)
  ultimately show ?thesis
    using assms(1) writes_seq by (simp add: fun_eq_iff eta_contract_eq)
qed

text \<open>
  Marshalling a well-typed, encodable value appends exactly its encoding, and fails with
  \<open>ErrInsufficientLength\<close> exactly when the encoding does not fit.
\<close>

lemma marshal_writes:
  "has_type t v \<Longrightarrow> encodable v \<Longrightarrow> writes (marshal v) (enc v)"
proof (induction v arbitrary: t)
  case (VPtr w)
  then obtain x where "w = Some x" by (cases w) auto
  with VPtr show ?case by (cases t) (auto simp: eta_contract_eq)
next
  case (VSlice t' vs)
  from VSlice.prems(1) have t: "t = TSlice t'" and ht: "has_type (TSlice t') (VSlice t' vs)"
    by (cases t; simp)+
  have "writes (marshal v) (enc v)" if "v \<in> set vs" for v
    using VSlice.IH [OF that] ht VSlice.prems(2) that by (auto simp: list_all_iff)
  with ht VSlice.prems(2) show ?case by (rule marshal_VSlice_writes)
next
  case (VArray t' vs)
  from VArray.prems(1) have "list_all (has_type t') vs" by (cases t) auto
  then have "writes (marshal v) (enc v)" if "v \<in> set vs" for v
    using VArray.IH [OF that] VArray.prems(2) that by (auto simp: list_all_iff)
  then have "list_all2 writes (map marshal vs) (map enc vs)"
    by (auto simp: list_all2_conv_all_nth)
  then show ?case by (simp add: writes_seq)
next
  case (VStruct fs vs)
  from VStruct.prems(1) obtain ts where fs: "all_serialized fs" "length fs = length ts"
    and ts: "list_all2 (\<lambda>h v. h v) (map has_type ts) vs"
    by (cases t) auto
  have "writes (marshal v) (enc v)" if "v \<in> set vs" for v
  proof -
    from that ts obtain i where "i < length ts" "v = vs ! i" "has_type (ts ! i) v"
      by (auto simp: in_set_conv_nth list_all2_conv_all_nth)
    moreover have "encodable v" using VStruct.prems(2) that by (auto simp: list_all_iff)
    ultimately show ?thesis using VStruct.IH [OF that] by blast
  qed
  moreover have "length fs = length vs"
    using fs(2) ts by (simp add: list_all2_lengthD [symmetric])
  ultimately show ?case using fs(1) by (intro marshal_VStruct_writes)
qed (simp_all add: byte_field.writes_field bool_field.writes_field short_field.writes_field
       int_field.writes_field long_field.writes_field str_field.writes_field)

section \<open>Unmarshalling reads it back\<close>

definition reads :: "(Packer \<Rightarrow> 'a result \<times> Packer) \<Rightarrow> 'a \<Rightarrow> bytes \<Rightarrow> bool" where
  "reads u v xs \<longleftrightarrow> (\<forall>p r. good_reader p \<and> unread p = xs @ r \<longrightarrow>
     u p = (Inr v, advance (length xs) p))"

lemma readsD:
  "reads u v xs \<Longrightarrow> good_reader p \<Longrightarrow> unread p = xs @ r \<Longrightarrow> u p = (Inr v, advance (length xs) p)"
  by (auto simp: reads_def)

lemma reader_step:
  "good_reader p \<Longrightarrow> unread p = xs @ r \<Longrightarrow>
   good_reader (advance (length xs) p) \<and> unread (advance (length xs) p) = r"
  by (simp add: good_reader_advance)

context wire_field
begin

lemma reads_field: "valid v \<Longrightarrow> reads (\<lambda>p. unpacked msg C (unpack p)) (C v) (enc v)"
  by (auto simp: reads_def unpacked_def unpack_read good_reader_def)

end

lemma reads_map_result: "reads u v xs \<Longrightarrow> reads (\<lambda>p. map_result f (u p)) (f v) xs"
  by (auto simp: reads_def map_result_def)

lemma reads_slice_elts:
  "(\<And>v. v \<in> set vs \<Longrightarrow> reads u v (f v) \<and> f v \<noteq> []) \<Longrightarrow>
   reads (unmarshal_slice_elts (length vs) u) vs (concat (map f vs))"
proof (induction vs)
  case Nil
  show ?case by (simp add: reads_def)
next
  case (Cons v vs)
  then have v: "reads u v (f v)" "f v \<noteq> []"
    and vs: "reads (unmarshal_slice_elts (length vs) u) vs (concat (map f vs))"
    by simp_all
  show ?case
    unfolding reads_def
  proof (intro allI impI)
    fix p r assume p: "good_reader p \<and> unread p = concat (map f (v # vs)) @ r"
    then have p1: "u p = (Inr v, advance (length (f v)) p)"
      using readsD [OF v(1)] by simp
    from p have "good_reader (advance (length (f v)) p) \<and>
        unread (advance (length (f v)) p) = concat (map f vs) @ r"
      using reader_step [of p "f v"] by simp
    with vs v(2) show "unmarshal_slice_elts (length (v # vs)) u p =
        (Inr (v # vs), advance (length (concat (map f (v # vs)))) p)"
      by (simp add: p1 readsD)
  qed
qed

lemma reads_array_elts:
  "(\<And>v. v \<in> set vs \<Longrightarrow> reads u v (f v)) \<Longrightarrow>
   reads (unmarshal_array_elts (length vs) u) vs (concat (map f vs))"
proof (induction vs)
  case Nil
  show ?case by (simp add: reads_def)
next
  case (Cons v vs)
  then have v: "reads u v (f v)"
    and vs: "reads (unmarshal_array_elts (length vs) u) vs (concat (map f vs))"
    by simp_all
  show ?case
    unfolding reads_def
  proof (intro allI impI)
    fix p r assume p: "good_reader p \<and> unread p = concat (map f (v # vs)) @ r"
    then have p1: "u p = (Inr v, advance (length (f v)) p)"
      using readsD [OF v] by simp
    from p have "good_reader (advance (length (f v)) p) \<and>
        unread (advance (length (f v)) p) = concat (map f vs) @ r"
      using reader_step [of p "f v"] by simp
    with vs show "unmarshal_array_elts (length (v # vs)) u p =
        (Inr (v # vs), advance (length (concat (map f (v # vs)))) p)"
      by (simp add: p1 readsD)
  qed
qed

text \<open>The struct loop fills the fields from index \<open>k\<close> on.\<close>

lemma reads_fields:
  assumes "length us = length vs" and "k \<le> length vs"
    and "\<And>i. i < length vs \<Longrightarrow> reads (us ! i) (vs ! i) (f (vs ! i))"
    and "length ws = length vs" and "take k ws = take k vs"
  shows "reads (unmarshal_fields [k..<length vs] us ws) vs (concat (map f (drop k vs)))"
  using assms(2,4,5)
proof (induction "length vs - k" arbitrary: k ws)
  case 0
  then show ?case by (simp add: reads_def)
next
  case (Suc n)
  then have k: "k < length vs" by simp
  let ?ws = "ws[k := vs ! k]"
  have "take (Suc k) ?ws = take (Suc k) vs"
    using k Suc.prems by (simp add: take_Suc_conv_app_nth)
  with Suc.hyps(2) Suc.prems k
  have IH: "reads (unmarshal_fields [Suc k..<length vs] us ?ws) vs (concat (map f (drop (Suc k) vs)))"
    by (intro Suc.hyps(1)) simp_all
  have d: "drop k vs = vs ! k # drop (Suc k) vs"
    using k by (simp add: Cons_nth_drop_Suc)
  have u: "[k..<length vs] = k # [Suc k..<length vs]"
    using k by (simp add: upt_conv_Cons)
  show ?case
    unfolding reads_def
  proof (intro allI impI)
    fix p r assume p: "good_reader p \<and> unread p = concat (map f (drop k vs)) @ r"
    then have p1: "(us ! k) p = (Inr (vs ! k), advance (length (f (vs ! k))) p)"
      using readsD [OF assms(3) [OF k]] by (simp add: d)
    from p have "good_reader (advance (length (f (vs ! k))) p) \<and>
        unread (advance (length (f (vs ! k))) p) = concat (map f (drop (Suc k) vs)) @ r"
      using reader_step [of p "f (vs ! k)"] by (simp add: d)
    with IH show "unmarshal_fields [k..<length vs] us ws p =
        (Inr vs, advance (length (concat (map f (drop k vs)))) p)"
      by (simp add: u d p1 readsD)
  qed
qed

lemma map_VUint8_byte_of:
  "list_all (has_type TUint8) vs \<Longrightarrow> map VUint8 (concat (map enc vs)) = vs"
proof (induction vs)
  case (Cons v vs)
  then show ?case by (cases v) auto
qed simp

lemma length_enc_bytes:
  "list_all (has_type TUint8) vs \<Longrightarrow> length (concat (map enc vs)) = length vs"
  by (metis length_map map_VUint8_byte_of)

lemma reads_fixed:
  assumes "list_all (has_type TUint8) vs"
  shows "reads (\<lambda>p. let (bs, p1) = UnpackFixedBytes (length vs) p in
                    case Err p1 of Some e \<Rightarrow> (Inl e, p1) | None \<Rightarrow> (Inr (C (map VUint8 bs)), p1))
               (C vs) (concat (map enc vs))"
  using assms
  by (auto simp: reads_def UnpackFixedBytes_read length_enc_bytes map_VUint8_byte_of good_reader_def)

lemma unmarshal_TSlice_reads:
  assumes ht: "list_all (has_type t) vs" and e: "encodable (VSlice t vs)"
    and IH: "\<And>v. v \<in> set vs \<Longrightarrow> reads (unmarshal t) v (enc v)"
  shows "reads (unmarshal (TSlice t)) (VSlice t vs) (enc (VSlice t vs))"
  unfolding reads_def
proof (intro allI impI)
  let ?n = "word_of_nat (length vs) :: u32"
  fix p r assume p: "good_reader p \<and> unread p = enc (VSlice t vs) @ r"
  then have i: "UnpackInt p = (?n, advance 4 p)"
    by (simp add: UnpackInt_read)
  have g: "good_reader (advance 4 p)" "unread (advance 4 p) = concat (map enc vs) @ r"
    using p reader_step [of p "PutUint32 ?n"] by simp_all
  have n: "unat ?n = length vs" "length vs \<le> MaxInt32"
    using e by (simp_all add: unat_of_nat_small_u32 MaxInt32_def)
  have "reads (unmarshal_slice_elts (length vs) (unmarshal t)) vs (concat (map enc vs))"
    using IH e by (intro reads_slice_elts) (auto simp: list_all_iff)
  note elts = readsD [OF reads_map_result [OF this] g, where f1 = "VSlice t"]
  have "t = TUint8 \<Longrightarrow> list_all (has_type TUint8) vs" using ht by simp
  note bulk = readsD [OF reads_fixed [OF this, where C = "VSlice t"] g]
  show "unmarshal (TSlice t) p = (Inr (VSlice t vs), advance (length (enc (VSlice t vs))) p)"
    using elts bulk g(1) n by (auto simp: i good_reader_def)
qed

lemma unmarshal_TStruct_reads:
  assumes fs: "all_serialized fs" "length fs = length ts"
    and ts: "list_all2 (\<lambda>h v. h v) (map has_type ts) vs"
    and IH: "\<And>i. i < length ts \<Longrightarrow> reads (unmarshal (ts ! i)) (vs ! i) (enc (vs ! i))"
  shows "reads (unmarshal (TStruct fs ts)) (VStruct fs vs) (enc (VStruct fs vs))"
proof -
  have len: "length ts = length vs"
    using ts by (simp add: list_all2_lengthD [symmetric])
  have "reads (unmarshal_fields [0..<length vs] (map unmarshal ts) (map zero_value ts)) vs
          (concat (map enc (drop 0 vs)))"
    using IH len by (intro reads_fields) simp_all
  then have "reads (\<lambda>p. map_result (VStruct fs)
      (unmarshal_fields [0..<length vs] (map unmarshal ts) (map zero_value ts) p))
      (VStruct fs vs) (concat (map enc vs))"
    by (intro reads_map_result) simp
  then show ?thesis using fs len by simp
qed

lemma unmarshal_reads:
  "has_type t v \<Longrightarrow> encodable v \<Longrightarrow> reads (unmarshal t) v (enc v)"
proof (induction t arbitrary: v)
  case (TPtr t)
  then obtain w where "v = VPtr (Some w)" "has_type t w" "encodable w"
    by (cases v) (auto split: option.splits)
  with TPtr.IH [of w] show ?case
    using reads_map_result [of "unmarshal t" w "enc w" "\<lambda>v. VPtr (Some v)"] by simp
next
  case (TSlice t)
  then obtain vs where v: "v = VSlice t vs" "list_all (has_type t) vs"
    by (cases v) auto
  have "reads (unmarshal t) w (enc w)" if "w \<in> set vs" for w
    using TSlice that v by (auto simp: list_all_iff)
  with v TSlice.prems(2) show ?case by (simp only: unmarshal_TSlice_reads)
next
  case (TArray n t)
  then obtain vs where v: "v = VArray t vs" "length vs = n" "list_all (has_type t) vs"
    by (cases v) auto
  have "reads (unmarshal t) w (enc w)" if "w \<in> set vs" for w
    using TArray that v by (auto simp: list_all_iff)
  then have "reads (unmarshal_array_elts n (unmarshal t)) vs (concat (map enc vs))"
    using v(2) reads_array_elts by blast
  then have "reads (\<lambda>p. map_result (VArray t) (unmarshal_array_elts n (unmarshal t) p))
      (VArray t vs) (concat (map enc vs))"
    by (rule reads_map_result)
  with v reads_fixed [of vs "VArray t"] show ?case by (cases "t = TUint8") auto
next
  case (TStruct fs ts)
  then obtain vs where v: "v = VStruct fs vs" "all_serialized fs" "length fs = length ts"
    and ts: "list_all2 (\<lambda>h v. h v) (map has_type ts) vs"
    by (cases v) auto
  have "reads (unmarshal (ts ! i)) (vs ! i) (enc (vs ! i))" if "i < length ts" for i
    using that ts TStruct.prems(2) v(1)
    by (intro TStruct.IH) (auto simp: list_all2_conv_all_nth list_all_length)
  with v ts show ?case by (simp only: unmarshal_TStruct_reads)
qed (auto simp: byte_field.reads_field bool_field.reads_field short_field.reads_field
       int_field.reads_field long_field.reads_field str_field.reads_field
     split: govalue.splits)

section \<open>The round trip\<close>

lemma MarshalInto_writes:
  assumes "has_type t v" and "encodable v"
  shows "writes (MarshalInto v) (enc v)"
  using marshal_writes [OF assms] by (simp add: MarshalInto_def writes_def)

lemma MarshalInto_NewWriter:
  assumes "has_type t v" and "encodable v"
  shows "length (enc v) \<le> limit \<Longrightarrow>
      MarshalInto v (NewWriter i limit) = (None, appended (enc v) (NewWriter i limit))"
    and "limit < length (enc v) \<Longrightarrow>
      fst (MarshalInto v (NewWriter i limit)) = Some (Sentinel ErrInsufficientLength)"
  using MarshalInto_writes [OF assms, unfolded writes_def, rule_format, of "NewWriter i limit"]
  by (auto simp: fits_def NewWriter_def fresh_writer_def split: if_splits)

lemma UnmarshalFrom_NewReader:
  assumes "has_type t v" and "encodable v"
  shows "UnmarshalFrom (NewReader (enc v @ r) l) t =
      (Inr v, advance (length (enc v)) (NewReader (enc v @ r) l))"
  using readsD [OF unmarshal_reads [OF assms], of "NewReader (enc v @ r) l"]
  by (simp add: UnmarshalFrom_def)

section \<open>Unmarshalling accepts encodings only\<close>

text \<open>\<open>complete t\<close>: every field of every struct in \<open>t\<close> is exported and serialized.\<close>

primrec complete :: "gotype \<Rightarrow> bool" where
  "complete TUint8 = True"
| "complete TInt8 = True"
| "complete TUint16 = True"
| "complete TInt16 = True"
| "complete TUint32 = True"
| "complete TInt32 = True"
| "complete TUint64 = True"
| "complete TInt64 = True"
| "complete TBool = True"
| "complete TString = True"
| "complete (TPtr t) = complete t"
| "complete (TSlice t) = complete t"
| "complete (TArray n t) = complete t"
| "complete (TStruct fs ts) \<longleftrightarrow> length fs = length ts \<and> all_serialized fs \<and> list_all id (map complete ts)"

text \<open>
  \<open>decodes u ok f\<close>: when \<open>u\<close> succeeds, its result is \<open>ok\<close>, the packer held its encoding by \<open>f\<close>,
  and exactly that was consumed.
\<close>

definition decodes :: "(Packer \<Rightarrow> 'a result \<times> Packer) \<Rightarrow> ('a \<Rightarrow> bool) \<Rightarrow> ('a \<Rightarrow> bytes) \<Rightarrow> bool" where
  "decodes u ok f \<longleftrightarrow> (\<forall>p v p'. good_reader p \<and> u p = (Inr v, p') \<longrightarrow>
     ok v \<and> (\<exists>r. unread p = f v @ r) \<and> p' = advance (length (f v)) p)"

lemma decodesE:
  assumes "decodes u ok f" and "good_reader p" and "u p = (Inr v, p')"
  obtains r where "ok v" "unread p = f v @ r" "p' = advance (length (f v)) p" "good_reader p'" "unread p' = r"
  using assms reader_step [of p "f v"] unfolding decodes_def by blast

lemma decodes_Nil: "ok v \<Longrightarrow> f v = [] \<Longrightarrow> decodes (Pair (Inr v)) ok f"
  by (auto simp: decodes_def)

context wire_field
begin

lemma decodes_field:
  assumes "\<And>v. valid v \<Longrightarrow> ok (C v) \<and> f (C v) = enc v"
  shows "decodes (\<lambda>p. unpacked msg C (unpack p)) ok f"
  unfolding decodes_def
proof (intro allI impI)
  fix p w p' assume *: "good_reader p \<and> unpacked msg C (unpack p) = (Inr w, p')"
  then obtain v where v: "unpack p = (v, p')" "Err p' = None" "w = C v"
    by (cases "unpack p") (auto simp: unpacked_def split: option.splits)
  from unpack_sound [OF _ v(1,2)] * assms [of v] v(3)
  show "ok w \<and> (\<exists>r. unread p = f w @ r) \<and> p' = advance (length (f w)) p" by simp
qed

end

lemma decodes_map_result:
  assumes "decodes u ok f" and "\<And>v. ok v \<Longrightarrow> ok' (C v) \<and> f' (C v) = f v"
  shows "decodes (\<lambda>p. map_result C (u p)) ok' f'"
  unfolding decodes_def
proof (intro allI impI)
  fix p w p' assume *: "good_reader p \<and> map_result C (u p) = (Inr w, p')"
  then obtain v where v: "u p = (Inr v, p')" "w = C v"
    by (cases "u p") (auto simp: map_result_def split: sum.splits)
  from decodesE [OF assms(1) _ v(1)] * assms(2) [of v] v(2)
  show "ok' w \<and> (\<exists>r. unread p = f' w @ r) \<and> p' = advance (length (f' w)) p" by metis
qed

lemma decodes_slice_elts:
  assumes "decodes u ok f"
  shows "decodes (unmarshal_slice_elts n u)
    (\<lambda>vs. length vs = n \<and> list_all (\<lambda>v. ok v \<and> f v \<noteq> []) vs) (\<lambda>vs. concat (map f vs))"
proof (induction n)
  case (Suc n)
  show ?case
    unfolding decodes_def
  proof (intro allI impI)
    fix p ws p' assume *: "good_reader p \<and> unmarshal_slice_elts (Suc n) u p = (Inr ws, p')"
    then obtain v q vs where v: "u p = (Inr v, q)" "Offset p \<noteq> Offset q"
        "unmarshal_slice_elts n u q = (Inr vs, p')" "ws = v # vs"
      by (auto split: prod.splits sum.splits if_splits)
    from * obtain r where r: "ok v" "unread p = f v @ r" "q = advance (length (f v)) p" "good_reader q" "unread q = r"
      using decodesE [OF assms _ v(1)] by blast
    from decodesE [OF Suc.IH r(4) v(3)] r v(2,4)
    show "(length ws = Suc n \<and> list_all (\<lambda>v. ok v \<and> f v \<noteq> []) ws) \<and> (\<exists>r. unread p = concat (map f ws) @ r) \<and>
        p' = advance (length (concat (map f ws))) p" by auto
  qed
qed (simp add: decodes_Nil)

lemma decodes_array_elts:
  assumes "decodes u ok f"
  shows "decodes (unmarshal_array_elts n u) (\<lambda>vs. length vs = n \<and> list_all ok vs) (\<lambda>vs. concat (map f vs))"
proof (induction n)
  case (Suc n)
  show ?case
    unfolding decodes_def
  proof (intro allI impI)
    fix p ws p' assume *: "good_reader p \<and> unmarshal_array_elts (Suc n) u p = (Inr ws, p')"
    then obtain v q vs where v: "u p = (Inr v, q)" "unmarshal_array_elts n u q = (Inr vs, p')" "ws = v # vs"
      by (auto split: prod.splits sum.splits)
    from * obtain r where r: "ok v" "unread p = f v @ r" "q = advance (length (f v)) p" "good_reader q" "unread q = r"
      using decodesE [OF assms _ v(1)] by blast
    from decodesE [OF Suc.IH r(4) v(2)] r v(3)
    show "(length ws = Suc n \<and> list_all ok ws) \<and> (\<exists>r. unread p = concat (map f ws) @ r) \<and>
        p' = advance (length (concat (map f ws))) p" by auto
  qed
qed (simp add: decodes_Nil)

lemma decodes_fields:
  assumes "\<And>i. i < length us \<Longrightarrow> decodes (us ! i) (ok i) f" and "k \<le> length us" and "length ws = length us"
  shows "decodes (unmarshal_fields [k..<length us] us ws)
    (\<lambda>vs. length vs = length us \<and> take k vs = take k ws \<and> (\<forall>i. k \<le> i \<and> i < length us \<longrightarrow> ok i (vs ! i)))
    (\<lambda>vs. concat (map f (drop k vs)))"
  using assms(2,3)
proof (induction "length us - k" arbitrary: k ws)
  case 0
  then show ?case by (auto intro!: decodes_Nil)
next
  case (Suc n)
  then have k: "k < length us" by simp
  show ?case
    unfolding decodes_def
  proof (intro allI impI)
    fix p vs p' assume *: "good_reader p \<and> unmarshal_fields [k..<length us] us ws p = (Inr vs, p')"
    then obtain v q where v: "(us ! k) p = (Inr v, q)"
        "unmarshal_fields [Suc k..<length us] us (ws[k := v]) q = (Inr vs, p')"
      using k by (auto simp: upt_conv_Cons split: prod.splits sum.splits)
    from * obtain r where r: "ok k v" "unread p = f v @ r" "q = advance (length (f v)) p" "good_reader q" "unread q = r"
      using decodesE [OF assms(1) [OF k] _ v(1)] by blast
    have IH: "decodes (unmarshal_fields [Suc k..<length us] us (ws[k := v]))
      (\<lambda>vs. length vs = length us \<and> take (Suc k) vs = take (Suc k) (ws[k := v]) \<and>
         (\<forall>i. Suc k \<le> i \<and> i < length us \<longrightarrow> ok i (vs ! i))) (\<lambda>vs. concat (map f (drop (Suc k) vs)))"
      using Suc.hyps(2) Suc.prems k by (intro Suc.hyps(1)) simp_all
    obtain r' where r': "length vs = length us" "take (Suc k) vs = take (Suc k) (ws[k := v])"
        "\<forall>i. Suc k \<le> i \<and> i < length us \<longrightarrow> ok i (vs ! i)" "unread q = concat (map f (drop (Suc k) vs)) @ r'"
        "p' = advance (length (concat (map f (drop (Suc k) vs)))) q"
      using decodesE [OF IH r(4) v(2)] by metis
    have vk: "take k vs = take k ws" "vs ! k = v"
      using r'(1,2) k Suc.prems(2) by (auto simp: take_Suc_conv_app_nth)
    then have "drop k vs = v # drop (Suc k) vs" using k r'(1) by (metis Cons_nth_drop_Suc)
    moreover have "ok i (vs ! i)" if "k \<le> i" "i < length us" for i
      using that r'(3) r(1) vk(2) by (cases "i = k") auto
    ultimately show "(length vs = length us \<and> take k vs = take k ws \<and> (\<forall>i. k \<le> i \<and> i < length us \<longrightarrow> ok i (vs ! i))) \<and>
        (\<exists>r. unread p = concat (map f (drop k vs)) @ r) \<and> p' = advance (length (concat (map f (drop k vs)))) p"
      using r r' vk(1) by simp
  qed
qed

lemma enc_VUint8s [simp]: "concat (map enc (map VUint8 bs)) = bs"
  by (induction bs) simp_all

lemma encodable_VUint8s [simp]:
  "list_all (has_type TUint8) (map VUint8 bs)" "list_all id (map encodable (map VUint8 bs))"
  "list_all (\<lambda>v. enc v \<noteq> []) (map VUint8 bs)"
  by (induction bs) simp_all

lemma decodes_fixed:
  assumes "\<And>bs. length bs = n \<Longrightarrow> ok (C (map VUint8 bs)) \<and> f (C (map VUint8 bs)) = bs"
  shows "decodes (\<lambda>p. let (bs, p1) = UnpackFixedBytes n p in
                    case Err p1 of Some e \<Rightarrow> (Inl e, p1) | None \<Rightarrow> (Inr (C (map VUint8 bs)), p1)) ok f"
  unfolding decodes_def
proof (intro allI impI)
  fix p w p' assume *: "good_reader p \<and> (let (bs, p1) = UnpackFixedBytes n p in
      case Err p1 of Some e \<Rightarrow> (Inl e, p1) | None \<Rightarrow> (Inr (C (map VUint8 bs)), p1)) = (Inr w, p')"
  then obtain bs where bs: "UnpackFixedBytes n p = (bs, p')" "Err p' = None" "w = C (map VUint8 bs)"
    by (auto simp: Let_def split: prod.splits option.splits)
  from UnpackFixedBytes_sound [OF _ bs(1,2)] * assms [of bs] bs(3)
  show "ok w \<and> (\<exists>r. unread p = f w @ r) \<and> p' = advance (length (f w)) p" by auto
qed

lemma unmarshal_TSlice_decodes:
  assumes "decodes (unmarshal t) (\<lambda>v. has_type t v \<and> encodable v) enc"
  shows "decodes (unmarshal (TSlice t)) (\<lambda>v. has_type (TSlice t) v \<and> encodable v) enc"
  unfolding decodes_def
proof (intro allI impI)
  fix p w p' assume *: "good_reader p \<and> unmarshal (TSlice t) p = (Inr w, p')"
  obtain n q where n: "UnpackInt p = (n, q)" by force
  with * have q: "Err q = None" "unat n \<le> MaxInt32" by (auto simp: Let_def split: option.splits if_splits)
  then obtain r where r: "unread p = PutUint32 n @ r" "q = advance 4 p"
    using int_field.unpack_sound [OF _ n] * by auto
  with * have g: "good_reader q" "unread q = r" by (simp_all add: good_reader_advance)
  define body where "body = (\<lambda>q. if t = TUint8
      then let (bs, p2) = UnpackFixedBytes (unat n) q in
           case Err p2 of Some e \<Rightarrow> (Inl e, p2) | None \<Rightarrow> (Inr (VSlice t (map VUint8 bs)), p2)
      else map_result (VSlice t) (unmarshal_slice_elts (unat n) (unmarshal t) q))"
  let ?ok = "\<lambda>v. has_type (TSlice t) v \<and> encodable v \<and> (case v of VSlice _ vs \<Rightarrow> length vs = unat n | _ \<Rightarrow> False)"
  let ?f = "\<lambda>v. case v of VSlice _ vs \<Rightarrow> concat (map enc vs) | _ \<Rightarrow> []"
  have dec: "decodes body ?ok ?f"
  proof (cases "t = TUint8")
    case True
    have "decodes (\<lambda>p. let (bs, p1) = UnpackFixedBytes (unat n) p in case Err p1 of
        Some e \<Rightarrow> (Inl e, p1) | None \<Rightarrow> (Inr (VSlice t (map VUint8 bs)), p1)) ?ok ?f"
      using True q(2) encodable_VUint8s enc_VUint8s by (intro decodes_fixed) simp
    with True show ?thesis unfolding body_def by simp
  next
    case False
    then show ?thesis unfolding body_def
      using q(2) by (simp, intro decodes_map_result [OF decodes_slice_elts [OF assms]]) (auto simp: list_all_iff)
  qed
  have run: "body q = (Inr w, p')"
    using * n q by (auto simp: body_def Let_def split: option.splits if_splits)
  obtain r' where r': "?ok w" "unread q = ?f w @ r'" "p' = advance (length (?f w)) q"
    by (rule decodesE [OF dec g(1) run])
  then obtain vs where vs: "w = VSlice t vs" "length vs = unat n" by (auto split: govalue.splits)
  then have "enc w = PutUint32 n @ concat (map enc vs)" by simp
  with r r' vs g(2) show "(has_type (TSlice t) w \<and> encodable w) \<and> (\<exists>r. unread p = enc w @ r) \<and> p' = advance (length (enc w)) p"
    by simp
qed

lemma unmarshal_TStruct_decodes:
  assumes fs: "all_serialized fs" "length fs = length ts"
    and IH: "\<And>i. i < length ts \<Longrightarrow> decodes (unmarshal (ts ! i)) (\<lambda>v. has_type (ts ! i) v \<and> encodable v) enc"
  shows "decodes (unmarshal (TStruct fs ts)) (\<lambda>v. has_type (TStruct fs ts) v \<and> encodable v) enc"
proof -
  have "decodes (unmarshal_fields [0..<length (map unmarshal ts)] (map unmarshal ts) (map zero_value ts))
      (\<lambda>vs. length vs = length (map unmarshal ts) \<and> take 0 vs = take 0 (map zero_value ts) \<and>
         (\<forall>i. 0 \<le> i \<and> i < length (map unmarshal ts) \<longrightarrow> has_type (ts ! i) (vs ! i) \<and> encodable (vs ! i)))
      (\<lambda>vs. concat (map enc (drop 0 vs)))"
    using IH by (intro decodes_fields) simp_all
  then have "decodes (\<lambda>p. map_result (VStruct fs)
      (unmarshal_fields [0..<length (map unmarshal ts)] (map unmarshal ts) (map zero_value ts) p))
      (\<lambda>v. has_type (TStruct fs ts) v \<and> encodable v) enc"
    by (rule decodes_map_result) (auto simp: fs list_all2_conv_all_nth list_all_length)
  then show ?thesis using fs by simp
qed

lemma unmarshal_decodes: "complete t \<Longrightarrow> decodes (unmarshal t) (\<lambda>v. has_type t v \<and> encodable v) enc"
proof (induction t)
  case (TPtr t)
  then have "decodes (unmarshal t) (\<lambda>v. has_type t v \<and> encodable v) enc" by simp
  then show ?case by (simp, intro decodes_map_result) (assumption, simp)
next
  case (TSlice t)
  then show ?case by (simp only: unmarshal_TSlice_decodes complete.simps)
next
  case (TArray n t)
  then have IH: "decodes (unmarshal t) (\<lambda>v. has_type t v \<and> encodable v) enc" by simp
  show ?case
  proof (cases "t = TUint8")
    case True
    have "decodes (\<lambda>p. let (bs, p1) = UnpackFixedBytes n p in case Err p1 of
        Some e \<Rightarrow> (Inl e, p1) | None \<Rightarrow> (Inr (VArray TUint8 (map VUint8 bs)), p1))
        (\<lambda>v. has_type (TArray n TUint8) v \<and> encodable v) enc"
      using encodable_VUint8s enc_VUint8s by (intro decodes_fixed) simp
    with True show ?thesis by simp
  next
    case False
    then show ?thesis by (simp, intro decodes_map_result [OF decodes_array_elts [OF IH]]) (auto simp: list_all_iff)
  qed
next
  case (TStruct fs ts)
  then show ?case by (intro unmarshal_TStruct_decodes) (auto simp: list_all_length)
qed (simp_all add: byte_field.decodes_field bool_field.decodes_field short_field.decodes_field
       int_field.decodes_field long_field.decodes_field str_field.decodes_field)

section \<open>Properties\<close>

text \<open>
  C31: decoding is canonical. Whatever bytes a packer holds, also malformed ones: when unmarshalling
  them into a type whose struct fields are all serialized succeeds, the result is a complete value of
  that type, and marshalling it writes back exactly the bytes that were consumed. So no value has two
  encodings, and a length, a flag or an element that the writer would not have produced is refused.
\<close>

theorem unmarshal_canonical:
  assumes "complete t" and "UnmarshalFrom (NewReader bs l) t = (Inr v, p)"
  shows "has_type t v \<and> Offset p \<le> length bs \<and>
    (\<exists>w. MarshalInto v (NewWriter i (Offset p)) = (None, w) \<and> Bytes w = take (Offset p) bs)"
proof -
  have "unmarshal t (NewReader bs l) = (Inr v, p)" using assms(2) by (simp add: UnmarshalFrom_def)
  then obtain r where r: "has_type t v \<and> encodable v" "bs = enc v @ r" "p = advance (length (enc v)) (NewReader bs l)"
    using decodesE [OF unmarshal_decodes [OF assms(1)] good_reader_NewReader] by (metis unread_NewReader)
  then have o: "Offset p = length (enc v)" by (simp add: NewReader_def)
  with r MarshalInto_NewWriter(1) [of t v "Offset p" i] show ?thesis
    by (simp add: NewWriter_def)
qed

theorem unmarshal_canonical_witness:
  "\<exists>v p w. UnmarshalFrom (NewReader [0, 0, 0, 0, 0, 0, 1, 2, 0, 2, 97, 98, 1, 0, 0, 0, 1, 7, 9] 64)
      (TStruct [FieldTag ''A'' True True, FieldTag ''B'' True True, FieldTag ''C'' True True, FieldTag ''D'' True True] [TUint64, TString, TBool, TSlice TUint8]) = (Inr v, p) \<and>
    MarshalInto v (NewWriter 0 18) = (None, w) \<and>
    Bytes w = [0, 0, 0, 0, 0, 0, 1, 2, 0, 2, 97, 98, 1, 0, 0, 0, 1, 7]"
proof -
  let ?bs = "[0, 0, 0, 0, 0, 0, 1, 2, 0, 2, 97, 98, 1, 0, 0, 0, 1, 7, 9] :: bytes"
  let ?t = "TStruct [FieldTag ''A'' True True, FieldTag ''B'' True True, FieldTag ''C'' True True, FieldTag ''D'' True True] [TUint64, TString, TBool, TSlice TUint8]"
  let ?v = "VStruct [FieldTag ''A'' True True, FieldTag ''B'' True True, FieldTag ''C'' True True, FieldTag ''D'' True True]
    [VUint64 258, VString [97, 98], VBool True, VSlice TUint8 [VUint8 7]]"
  have ty: "complete ?t" "has_type ?t ?v" "encodable ?v"
    by (simp_all add: all_serialized_def MaxInt32_def MaxStringLen_def)
  have bs: "?bs = enc ?v @ [9]"
    by (simp add: PutUint64_def PutUint32_def enc_str_def PutUint16_def enc_bool_def)
  have read: "UnmarshalFrom (NewReader ?bs 64) ?t = (Inr ?v, advance 18 (NewReader ?bs 64))"
    using UnmarshalFrom_NewReader [OF ty(2,3), of "[9]" 64] unfolding bs [symmetric] by (simp add: enc_str_def enc_bool_def)
  then show ?thesis using unmarshal_canonical [OF ty(1) read, of 0] by (auto simp: NewReader_def)
qed



text \<open>
  A value whose encoding does not fit the writer is refused with
  \<^verbatim>\<open>ErrInsufficientLength\<close>; it is never truncated.
\<close>

theorem codec_refuses_overlong:
  assumes "has_type t v" and "encodable v" and "limit < length (enc v)"
  shows "fst (MarshalInto v (NewWriter i limit)) = Some (Sentinel ErrInsufficientLength)"
  by (rule MarshalInto_NewWriter(2) [OF assms])

theorem codec_refuses_overlong_witness:
  "fst (MarshalInto (VUint64 5) (NewWriter 0 7)) = Some (Sentinel ErrInsufficientLength)"
  by (rule codec_refuses_overlong [of TUint64]) simp_all

end
