(* ===== verification/Markets.thy ===== *)
theory Markets
  imports Balances LinearCodec
begin

text \<open>
  Markets and share balances (\<^verbatim>\<open>storage/market.go\<close>). A market is a record; the codec sees
  it as the struct value \<open>Market_value\<close>. Shown, over any \<open>scoped_store\<close>: a stored market is
  read back, a market is stored exactly when its encoding is within \<open>MaxMarketDataSize\<close>, the
  keys of markets, shares and balances never coincide, and what the share operations return and
  store on every branch.
\<close>

section \<open>MarketStatus and OutcomeType\<close>

type_synonym MarketStatus = u8
type_synonym OutcomeType = u8

definition MarketStatus_Open :: MarketStatus where "MarketStatus_Open = 0"
definition MarketStatus_TradingClosed :: MarketStatus where "MarketStatus_TradingClosed = 1"
definition MarketStatus_ResolvedYes :: MarketStatus where "MarketStatus_ResolvedYes = 2"
definition MarketStatus_ResolvedNo :: MarketStatus where "MarketStatus_ResolvedNo = 3"

definition MarketStatus_String :: "MarketStatus \<Rightarrow> string" where
  "MarketStatus_String ms =
     (if ms = MarketStatus_Open then ''Open''
      else if ms = MarketStatus_TradingClosed then ''TradingClosed''
      else if ms = MarketStatus_ResolvedYes then ''ResolvedYes''
      else if ms = MarketStatus_ResolvedNo then ''ResolvedNo''
      else ''UnknownMarketStatus:'' @ decimal (unat ms))"

definition Outcome_Pending :: OutcomeType where "Outcome_Pending = 0"
definition Outcome_Yes :: OutcomeType where "Outcome_Yes = 1"
definition Outcome_No :: OutcomeType where "Outcome_No = 2"
definition Outcome_Invalid :: OutcomeType where "Outcome_Invalid = 3"

definition OutcomeType_String :: "OutcomeType \<Rightarrow> string" where
  "OutcomeType_String ot =
     (if ot = Outcome_Pending then ''Pending''
      else if ot = Outcome_Yes then ''Yes''
      else if ot = Outcome_No then ''No''
      else if ot = Outcome_Invalid then ''Invalid''
      else ''UnknownOutcomeType:'' @ decimal (unat ot))"

section \<open>Market\<close>

record Market =
  market_ID :: u64
  market_Description :: bytes
  market_Status :: MarketStatus
  market_Creator :: Address
  market_EndTime :: i64
  market_ResolutionTime :: i64
  TotalYesShares :: u64
  TotalNoShares :: u64
  market_OracleType :: u8
  market_OracleSource :: bytes
  market_OracleParameters :: bytes
  ResolvedOutcome :: OutcomeType

definition serialized_field :: "string \<Rightarrow> field_tag" where
  "serialized_field n = FieldTag n True True"

definition Market_fields :: "field_tag list" where
  "Market_fields = map serialized_field
     [''ID'', ''Description'', ''Status'', ''Creator'', ''EndTime'', ''ResolutionTime'',
      ''TotalYesShares'', ''TotalNoShares'', ''OracleType'', ''OracleSource'',
      ''OracleParameters'', ''ResolvedOutcome'']"

definition Market_type :: gotype where
  "Market_type = TStruct Market_fields
     [TUint64, TString, TUint8, TArray AddressLen TUint8, TInt64, TInt64, TUint64, TUint64,
      TUint8, TString, TSlice TUint8, TUint8]"

definition Market_value :: "Market \<Rightarrow> govalue" where
  "Market_value m = VStruct Market_fields
     [VUint64 (market_ID m), VString (market_Description m), VUint8 (market_Status m),
      VArray TUint8 (map VUint8 (market_Creator m)), VInt64 (market_EndTime m),
      VInt64 (market_ResolutionTime m), VUint64 (TotalYesShares m), VUint64 (TotalNoShares m),
      VUint8 (market_OracleType m), VString (market_OracleSource m),
      VSlice TUint8 (map VUint8 (market_OracleParameters m)), VUint8 (ResolvedOutcome m)]"

text \<open>The record behind a struct value of \<open>Market_type\<close>.\<close>

definition Market_of_value :: "govalue \<Rightarrow> Market" where
  "Market_of_value v =
     (let f = (\<lambda>i. fields_of v ! i) in
      \<lparr>market_ID = u64_of (f 0), market_Description = bytes_of (f 1),
       market_Status = byte_of (f 2), market_Creator = bytes_of (f 3),
       market_EndTime = u64_of (f 4), market_ResolutionTime = u64_of (f 5),
       TotalYesShares = u64_of (f 6), TotalNoShares = u64_of (f 7),
       market_OracleType = byte_of (f 8), market_OracleSource = bytes_of (f 9),
       market_OracleParameters = bytes_of (f 10), ResolvedOutcome = byte_of (f 11)\<rparr>)"

definition MarketKey :: "u64 \<Rightarrow> bytes" where
  "MarketKey marketID = copy_at 1 (PutUint64 marketID) ((replicate (1 + 8) 0)[0 := MarketPrefix])"

definition GetMarket ::
  "('s, 'm) state_Immutable_scheme \<Rightarrow> 's \<Rightarrow> u64 \<Rightarrow> Market result" where
  "GetMarket im s marketID =
     (case GetValue im s (MarketKey marketID) of
        Inl err \<Rightarrow>
          if errors_Is err ErrNotFound
          then Inl (Wrapf ''market %d not found: %w'' [FU64 marketID] err)
          else Inl err
      | Inr valBytes \<Rightarrow>
          if length valBytes = 0
          then Inl (Errorf ''market %d found but value is empty'' [FU64 marketID])
          else
           (case UnmarshalFrom (NewReader valBytes MaxMarketDataSize) Market_type of
              (Inl err, _) \<Rightarrow>
                Inl (Wrapf ''failed to unmarshal market %d using LinearCodec: %w''
                       [FU64 marketID] err)
            | (Inr v, reader) \<Rightarrow>
                (case Err reader of
                   Some err \<Rightarrow>
                     Inl (Wrapf ''reader error after unmarshaling market %d: %w''
                            [FU64 marketID] err)
                 | None \<Rightarrow> Inr (Market_of_value v))))"

definition SetMarket ::
  "'s state_Mutable \<Rightarrow> 's \<Rightarrow> Market \<Rightarrow> go_error option \<times> 's" where
  "SetMarket mu s market =
     (case MarshalInto (Market_value market) (NewWriter 0 MaxMarketDataSize) of
        (Some err, _) \<Rightarrow>
          (Some (Wrapf ''failed to marshal market %d using LinearCodec: %w''
                   [FU64 (market_ID market)] err), s)
      | (None, writer) \<Rightarrow>
          (case Err writer of
             Some err \<Rightarrow>
               (Some (Wrapf ''writer error after marshaling market %d: %w''
                        [FU64 (market_ID market)] err), s)
           | None \<Rightarrow> Insert mu s (MarketKey (market_ID market)) (Bytes writer)))"

section \<open>Share balances\<close>

definition ShareBalanceKey :: "u64 \<Rightarrow> Address \<Rightarrow> u8 \<Rightarrow> bytes" where
  "ShareBalanceKey marketID user shareType =
     (let key0 = (replicate (1 + 8 + AddressLen + 1) 0)[0 := ShareBalancePrefix];
          key1 = copy_at 1 (PutUint64 marketID) key0;
          key2 = copy_at (1 + 8) user key1
      in key2[1 + 8 + AddressLen := shareType])"

definition GetShareBalance ::
  "('s, 'm) state_Immutable_scheme \<Rightarrow> 's \<Rightarrow> u64 \<Rightarrow> Address \<Rightarrow> u8 \<Rightarrow> u64 result" where
  "GetShareBalance im s marketID user shareType =
     (case GetValue im s (ShareBalanceKey marketID user shareType) of
        Inl e \<Rightarrow> if errors_Is e ErrNotFound then Inr 0 else Inl e
      | Inr valBytes \<Rightarrow>
          if length valBytes = 0 then Inr 0
          else
           (let (balance, reader) = UnpackUint64 True (NewReader valBytes (length valBytes)) in
            case Err reader of
              Some errs \<Rightarrow>
                Inl (Wrapf ''failed to unpack share balance for market %d, user %s, type %d: %w''
                       [FU64 marketID, FBytes user, FU8 shareType] errs)
            | None \<Rightarrow> Inr balance))"

definition SetShareBalance ::
  "'s state_Mutable \<Rightarrow> 's \<Rightarrow> u64 \<Rightarrow> Address \<Rightarrow> u8 \<Rightarrow> u64 \<Rightarrow> go_error option \<times> 's" where
  "SetShareBalance mu s marketID user shareType amount =
     (let writer = PackUint64 amount (NewWriter 8 8) in
      case Err writer of
        Some errs \<Rightarrow>
          (Some (Wrapf ''failed to pack share balance for market %d, user %s, type %d: %w''
                   [FU64 marketID, FBytes user, FU8 shareType] errs), s)
      | None \<Rightarrow> Insert mu s (ShareBalanceKey marketID user shareType) (Bytes writer))"

definition share_read_error :: "u64 \<Rightarrow> Address \<Rightarrow> u8 \<Rightarrow> go_error \<Rightarrow> go_error" where
  "share_read_error marketID user shareType e =
     Wrapf ''failed to get current share balance for user %s, market %d, type %d: %w''
       [FBytes user, FU64 marketID, FU8 shareType] e"

definition AddShares ::
  "'s state_Mutable \<Rightarrow> 's \<Rightarrow> u64 \<Rightarrow> Address \<Rightarrow> u8 \<Rightarrow> u64 \<Rightarrow> go_error option \<times> 's" where
  "AddShares mu s marketID user shareType amountToAdd =
     (case GetShareBalance mu s marketID user shareType of
        Inl e \<Rightarrow> (Some (share_read_error marketID user shareType e), s)
      | Inr currentShares \<Rightarrow>
          SetShareBalance mu s marketID user shareType (currentShares + amountToAdd))"

definition DeductShares ::
  "'s state_Mutable \<Rightarrow> 's \<Rightarrow> u64 \<Rightarrow> Address \<Rightarrow> u8 \<Rightarrow> u64 \<Rightarrow> go_error option \<times> 's" where
  "DeductShares mu s marketID user shareType amountToDeduct =
     (case GetShareBalance mu s marketID user shareType of
        Inl e \<Rightarrow> (Some (share_read_error marketID user shareType e), s)
      | Inr currentShares \<Rightarrow>
          if currentShares < amountToDeduct
          then (Some (Errorf
                  ''insufficient %s shares for user %s in market %d (has %d, needs %d)''
                  [FStr (ShareTypeToString shareType), FBytes user, FU64 marketID,
                   FU64 currentShares, FU64 amountToDeduct]), s)
          else SetShareBalance mu s marketID user shareType (currentShares - amountToDeduct))"

section \<open>Keys\<close>

lemma MarketKey_eq [keys_simps]: "MarketKey i = 1 # PutUint64 i"
  by (simp add: MarketKey_def MarketPrefix_def copy_at_def numeral_eq_Suc)

lemma ShareBalanceKey_eq [keys_simps]:
  "wf_Address a \<Longrightarrow> ShareBalanceKey i a t = 2 # PutUint64 i @ a @ [t]"
  by (simp add: ShareBalanceKey_def ShareBalancePrefix_def AddressLen_def wf_Address_def copy_at_def
        Let_def numeral_eq_Suc list_update_append)

lemma MarketKey_inj: "MarketKey i = MarketKey j \<longleftrightarrow> i = j"
  by (simp add: keys_simps)

lemma ShareBalanceKey_inj:
  assumes "wf_Address a" and "wf_Address b"
  shows "ShareBalanceKey i a t = ShareBalanceKey j b u \<longleftrightarrow> i = j \<and> a = b \<and> t = u"
  using assms by (auto simp: keys_simps wf_Address_def)

text \<open>The key spaces are disjoint: the keys have different first bytes.\<close>

lemma keys_distinct:
  assumes "wf_Address a" and "wf_Address b"
  shows "BalanceKey a \<noteq> MarketKey i" "MarketKey i \<noteq> BalanceKey a"
    "BalanceKey a \<noteq> ShareBalanceKey i b t" "ShareBalanceKey i b t \<noteq> BalanceKey a"
    "MarketKey i \<noteq> ShareBalanceKey j b t" "ShareBalanceKey j b t \<noteq> MarketKey i"
    "BalanceKey a \<noteq> StateKeysBalance b" "StateKeysBalance b \<noteq> BalanceKey a"
    "MarketKey i \<noteq> StateKeysBalance b" "ShareBalanceKey j a t \<noteq> StateKeysBalance b"
  using assms by (simp_all add: keys_simps)

lemma keys_Valid_Market [keys_simps]: "keys_Valid (MarketKey i)"
  by (simp add: keys_simps keys_Valid_def)

lemma keys_Valid_Share [keys_simps]: "wf_Address a \<Longrightarrow> keys_Valid (ShareBalanceKey i a t)"
  by (simp add: keys_simps keys_Valid_def)

section \<open>The encoding of a market\<close>

definition wf_Market :: "Market \<Rightarrow> bool" where
  "wf_Market m \<longleftrightarrow>
     wf_Address (market_Creator m) \<and> length (market_Description m) \<le> MaxStringLen \<and>
     length (market_OracleSource m) \<le> MaxStringLen \<and>
     length (market_OracleParameters m) \<le> MaxInt32"

definition enc_market :: "Market \<Rightarrow> bytes" where
  "enc_market m = enc (Market_value m)"

definition market_size :: "Market \<Rightarrow> nat" where
  "market_size m = 84 + length (market_Description m) + length (market_OracleSource m) +
     length (market_OracleParameters m)"

lemma concat_enc_bytes [simp]: "concat (map (enc \<circ> VUint8) bs) = bs"
  by (induction bs) simp_all

lemma list_all_VUint8 [simp]:
  "list_all (has_type TUint8) (map VUint8 bs)"
  "list_all (\<lambda>v. enc v \<noteq> []) (map VUint8 bs)"
  "list_all id (map (encodable \<circ> VUint8) bs)"
  by (simp_all add: list_all_iff)

lemma map_byte_of_VUint8 [simp]: "map (byte_of \<circ> VUint8) bs = bs"
  by (induction bs) simp_all

lemma Market_typed: "wf_Address (market_Creator m) \<Longrightarrow> has_type Market_type (Market_value m)"
  by (simp add: Market_type_def Market_value_def Market_fields_def serialized_field_def
        all_serialized_def wf_Address_def)

lemma Market_encodable: "wf_Market m \<Longrightarrow> encodable (Market_value m)"
  by (simp add: Market_value_def wf_Market_def)

lemma Market_of_Market_value [simp]: "Market_of_value (Market_value m) = m"
  by (simp add: Market_value_def Market_of_value_def)

lemma length_enc_market: "wf_Market m \<Longrightarrow> length (enc_market m) = market_size m"
  by (simp add: enc_market_def Market_value_def market_size_def wf_Market_def wf_Address_def
        AddressLen_def enc_str_def)

lemma enc_market_not_Nil [simp]: "enc_market m \<noteq> []"
  by (simp add: enc_market_def Market_value_def)

lemma UnmarshalFrom_enc_market:
  assumes "wf_Market m"
  shows "UnmarshalFrom (NewReader (enc_market m @ r) l) Market_type =
    (Inr (Market_value m), advance (market_size m) (NewReader (enc_market m @ r) l))"
proof -
  have "wf_Address (market_Creator m)" using assms by (simp add: wf_Market_def)
  from UnmarshalFrom_NewReader [OF Market_typed [OF this] Market_encodable [OF assms]]
  show ?thesis by (simp add: length_enc_market assms flip: enc_market_def)
qed

lemma enc_market_inj:
  assumes "wf_Market m" and "wf_Market m'" and "enc_market m = enc_market m'"
  shows "m = m'"
  using UnmarshalFrom_enc_market [OF assms(1), of "[]" 0]
    UnmarshalFrom_enc_market [OF assms(2), of "[]" 0] assms(3) Market_of_Market_value
  by (metis append_Nil2 prod.inject sum.inject(2))

lemma wf_Market_updates [simp]:
  "wf_Market (m\<lparr>TotalYesShares := y\<rparr>) = wf_Market m"
  "wf_Market (m\<lparr>TotalNoShares := n\<rparr>) = wf_Market m"
  "market_size (m\<lparr>TotalYesShares := y\<rparr>) = market_size m"
  "market_size (m\<lparr>TotalNoShares := n\<rparr>) = market_size m"
  by (simp_all add: wf_Market_def market_size_def)

text \<open>Storing a market: an insert of its encoding when that is small enough, else an error.\<close>

lemma SetMarket_Insert:
  assumes "wf_Market m" and "market_size m \<le> MaxMarketDataSize"
  shows "SetMarket mu s m = Insert mu s (MarketKey (market_ID m)) (enc_market m)"
proof -
  have "MarshalInto (Market_value m) (NewWriter 0 MaxMarketDataSize) =
      (None, appended (enc_market m) (NewWriter 0 MaxMarketDataSize))"
    using MarshalInto_NewWriter(1) [OF Market_typed Market_encodable] assms length_enc_market
    by (simp add: enc_market_def wf_Market_def)
  then show ?thesis
    by (simp add: SetMarket_def) (simp add: NewWriter_def)
qed

definition market_too_big :: "Market \<Rightarrow> go_error" where
  "market_too_big m = Wrapf ''failed to marshal market %d using LinearCodec: %w''
     [FU64 (market_ID m)] (Sentinel ErrInsufficientLength)"

lemma SetMarket_too_big:
  assumes "wf_Market m" and "market_size m > MaxMarketDataSize"
  shows "SetMarket mu s m = (Some (market_too_big m), s)"
proof -
  have "fst (MarshalInto (Market_value m) (NewWriter 0 MaxMarketDataSize)) =
      Some (Sentinel ErrInsufficientLength)"
    using MarshalInto_NewWriter(2) [OF Market_typed Market_encodable] assms length_enc_market
    by (simp add: enc_market_def wf_Market_def)
  then show ?thesis
    by (auto simp: SetMarket_def market_too_big_def split: prod.splits)
qed

section \<open>Markets and shares over any store\<close>

lemma SetShareBalance_Insert:
  "SetShareBalance mu s i a t v = Insert mu s (ShareBalanceKey i a t) (PutUint64 v)"
  by (simp add: SetShareBalance_def)

text \<open>The errors of a share read are those of the counter, wrapped.\<close>

definition share_error :: "u64 \<Rightarrow> Address \<Rightarrow> u8 \<Rightarrow> go_error \<Rightarrow> go_error" where
  "share_error i a t e =
     Wrapf ''failed to unpack share balance for market %d, user %s, type %d: %w''
       [FU64 i, FBytes a, FU8 t] e"

definition wrap_share :: "u64 \<Rightarrow> Address \<Rightarrow> u8 \<Rightarrow> u64 result \<Rightarrow> u64 result" where
  "wrap_share i a t r = (case r of Inl e \<Rightarrow> Inl (share_error i a t e) | Inr v \<Rightarrow> Inr v)"

lemma wrap_share_simps [simp]:
  "wrap_share i a t (Inr v) = Inr v" "wrap_share i a t (Inl e) = Inl (share_error i a t e)"
  by (simp_all add: wrap_share_def)

lemma share_error_Is [err_simps]: "errors_Is (share_error i a t e) x = errors_Is e x"
  by (simp add: share_error_def)

lemma unpack_share:
  assumes "v \<noteq> []"
  shows "(case UnpackUint64 True (NewReader v l) of (balance, reader) \<Rightarrow>
          case Err reader of
            Some errs \<Rightarrow>
              Inl (Wrapf ''failed to unpack share balance for market %d, user %s, type %d: %w''
                     [FU64 i, FBytes a, FU8 t] errs)
          | None \<Rightarrow> Inr balance) = wrap_share i a t (stored_u64 (Some v))"
  by (auto simp: wrap_share_def share_error_def split: prod.splits option.splits
        simp flip: unpack_required [OF assms, of l])

context scoped_store
begin

lemma GetMarket_denied:
  "inv s \<Longrightarrow> \<not> allowed s (MarketKey i) PermRead \<Longrightarrow>
   GetMarket mu s i = Inl (Sentinel ErrInvalidKeyOrPermission)"
  by (simp add: GetMarket_def get)

lemma GetMarket_absent:
  "inv s \<Longrightarrow> allowed s (MarketKey i) PermRead \<Longrightarrow> contents s (MarketKey i) = None \<Longrightarrow>
   GetMarket mu s i = Inl (Wrapf ''market %d not found: %w'' [FU64 i] (Sentinel ErrNotFound))"
  by (simp add: GetMarket_def get)

lemma GetMarket_stored:
  assumes "inv s" and "allowed s (MarketKey i) PermRead" and "wf_Market m"
    and "contents s (MarketKey i) = Some (enc_market m @ r)"
  shows "GetMarket mu s i = Inr m"
  using assms by (simp add: GetMarket_def get UnmarshalFrom_enc_market)

lemma SetMarket_ok:
  assumes "inv s" and "wf_Market m" and "market_size m \<le> MaxMarketDataSize"
    and "insertable (contents s) (allowed s) roomy (MarketKey (market_ID m)) (enc_market m)"
  shows "\<exists>s'. SetMarket mu s m = (None, s') \<and> inv s' \<and>
    contents s' = (contents s)(MarketKey (market_ID m) \<mapsto> enc_market m) \<and> allowed s' = allowed s"
  using insert_ok [OF assms(1,4)] assms(2,3) by (simp add: SetMarket_Insert)

lemma SetMarket_denied:
  assumes "inv s" and "wf_Market m" and "market_size m \<le> MaxMarketDataSize"
    and "\<not> insertable (contents s) (allowed s) roomy (MarketKey (market_ID m)) (enc_market m)"
  shows "SetMarket mu s m =
    (Some (insert_error (allowed s) roomy (MarketKey (market_ID m)) (enc_market m)), s)"
  using insert_fail [OF assms(1,4)] assms(2,3) by (simp add: SetMarket_Insert)

lemma GetShareBalance_stored:
  "inv s \<Longrightarrow> GetShareBalance mu s i a t =
     (if allowed s (ShareBalanceKey i a t) PermRead
      then wrap_share i a t (stored_u64 (contents s (ShareBalanceKey i a t)))
      else Inl (Sentinel ErrInvalidKeyOrPermission))"
  by (cases "contents s (ShareBalanceKey i a t)")
     (auto simp: GetShareBalance_def get unpack_share)

lemma AddShares_ok:
  assumes "inv s" and "GetShareBalance mu s i a t = Inr n"
    and "insertable (contents s) (allowed s) roomy (ShareBalanceKey i a t) (PutUint64 (n + k))"
  shows "\<exists>s'. AddShares mu s i a t k = (None, s') \<and> inv s' \<and>
    contents s' = (contents s)(ShareBalanceKey i a t \<mapsto> PutUint64 (n + k)) \<and>
    allowed s' = allowed s"
  using insert_ok [OF assms(1,3)] assms(2) by (simp add: AddShares_def SetShareBalance_Insert)

lemma DeductShares_ok:
  assumes "inv s" and "GetShareBalance mu s i a t = Inr n" and "k \<le> n"
    and "insertable (contents s) (allowed s) roomy (ShareBalanceKey i a t) (PutUint64 (n - k))"
  shows "\<exists>s'. DeductShares mu s i a t k = (None, s') \<and> inv s' \<and>
    contents s' = (contents s)(ShareBalanceKey i a t \<mapsto> PutUint64 (n - k)) \<and>
    allowed s' = allowed s"
  using insert_ok [OF assms(1,4)] assms(2,3) by (simp add: DeductShares_def SetShareBalance_Insert not_less)

lemma AddShares_DeductShares:
  assumes s: "inv s" "GetShareBalance mu s i a t = Inr n" and k: "n + k \<noteq> 0" "k \<le> n + k"
    and w: "allowed s (ShareBalanceKey i a t) PermWrite" "allowed s (ShareBalanceKey i a t) PermAllocate"
    and r: "\<And>v. roomy (ShareBalanceKey i a t) (PutUint64 v)"
  shows "\<exists>s1 s2. AddShares mu s i a t k = (None, s1) \<and> DeductShares mu s1 i a t k = (None, s2) \<and>
    inv s2 \<and> contents s2 = (contents s)(ShareBalanceKey i a t \<mapsto> PutUint64 n)"
proof -
  have ins: "\<And>m v. insertable m (allowed s) roomy (ShareBalanceKey i a t) (PutUint64 v)"
    using w r by (simp add: insertable_def)
  obtain s1 where s1: "AddShares mu s i a t k = (None, s1)" "inv s1" "allowed s1 = allowed s"
    "contents s1 = (contents s)(ShareBalanceKey i a t \<mapsto> PutUint64 (n + k))"
    using AddShares_ok [OF s ins] by blast
  then have g: "GetShareBalance mu s1 i a t = Inr (n + k)"
    using k(1) w write_reads by (simp add: GetShareBalance_stored)
  show ?thesis
    using DeductShares_ok [OF s1(2) g k(2)] ins s1 by fastforce
qed

end

context tracked_store
begin

lemma rel_SetMarket: "SetMarket mu s m = (e, s') \<Longrightarrow> rel s s'"
  by (auto simp: SetMarket_def intro: rel_insert' split: prod.splits option.splits)

lemma rel_SetShareBalance: "SetShareBalance mu s i a t v = (e, s') \<Longrightarrow> rel s s'"
  by (auto simp: SetShareBalance_Insert intro: rel_insert')

lemma rel_SetMarket_after: "rel s t \<Longrightarrow> SetMarket mu t m = (e, t') \<Longrightarrow> rel s t'"
  using rel_SetMarket rel_trans by blast

lemma rel_SetShareBalance_after: "rel s t \<Longrightarrow> SetShareBalance mu t i a ty v = (e, t') \<Longrightarrow> rel s t'"
  using rel_SetShareBalance rel_trans by blast

end

section \<open>Properties\<close>

text \<open>
  C24: storing a market and reading it back. A market whose encoding is within 1024 bytes is stored,
  is read back under its identifier, and the other markets read as before.
\<close>

theorem market_round_trip:
  assumes "wf_Market m" and "market_size m \<le> MaxMarketDataSize"
  shows "\<exists>s'. SetMarket InMemoryStore_Mutable s m = (None, s') \<and>
    (\<forall>i. GetMarket InMemoryStore_Mutable s' i =
       (if i = market_ID m then Inr m else GetMarket InMemoryStore_Mutable s i))"
proof -
  obtain s' where s': "SetMarket InMemoryStore_Mutable s m = (None, s')"
    "Storage s' = (Storage s)(MarketKey (market_ID m) \<mapsto> enc_market m)"
    using mem.SetMarket_ok [OF _ assms] by (auto simp: insertable_def)
  have "GetMarket InMemoryStore_Mutable s' (market_ID m) = Inr m"
    using mem.GetMarket_stored [where r = "[]" and m = m and s = s' and i = "market_ID m"] s' assms
    by simp
  moreover have "GetMarket InMemoryStore_Mutable s' i = GetMarket InMemoryStore_Mutable s i"
    if "i \<noteq> market_ID m" for i
    using that s'(2) by (simp add: GetMarket_def mem.get MarketKey_inj)
  ultimately show ?thesis using s'(1) by auto
qed

definition tiny_market :: Market where
  "tiny_market = \<lparr>market_ID = 7, market_Description = [82], market_Status = MarketStatus_Open,
     market_Creator = replicate 33 1, market_EndTime = 100, market_ResolutionTime = 200,
     TotalYesShares = 5, TotalNoShares = 6, market_OracleType = 0, market_OracleSource = [],
     market_OracleParameters = [], ResolvedOutcome = Outcome_Pending\<rparr>"

lemma wf_tiny_market: "wf_Market tiny_market" "market_size tiny_market = 85" "market_ID tiny_market = 7"
  by (simp_all add: tiny_market_def wf_Market_def wf_Address_def AddressLen_def MaxStringLen_def
        MaxInt32_def market_size_def)

theorem market_round_trip_witness:
  "\<exists>s'. SetMarket InMemoryStore_Mutable NewInMemoryStore tiny_market = (None, s') \<and>
    GetMarket InMemoryStore_Mutable s' 7 = Inr tiny_market"
  using market_round_trip [OF wf_tiny_market(1), of NewInMemoryStore] wf_tiny_market
  by (auto simp: MaxMarketDataSize_def)

text \<open>
  A market is stored exactly when its fixed 84 bytes, description, source and parameters are
  within \<^verbatim>\<open>MaxMarketDataSize\<close>; one that is not leaves the store alone.
\<close>

theorem set_market_limit:
  assumes "wf_Market m"
  shows "SetMarket InMemoryStore_Mutable s m =
    (if 84 + length (market_Description m) + length (market_OracleSource m) +
          length (market_OracleParameters m) \<le> 1024
     then (None, s\<lparr>Storage := (Storage s)(MarketKey (market_ID m) \<mapsto> enc_market m)\<rparr>)
     else (Some (market_too_big m), s))"
  using assms SetMarket_too_big [OF assms, of InMemoryStore_Mutable s]
    SetMarket_Insert [OF assms, of InMemoryStore_Mutable s]
  by (cases "market_size m \<le> MaxMarketDataSize";
      simp add: InMemoryStore_defs not_le market_size_def MaxMarketDataSize_def)

theorem set_market_limit_witness:
  "fst (SetMarket InMemoryStore_Mutable NewInMemoryStore tiny_market) = None"
  using set_market_limit [OF wf_tiny_market(1), of NewInMemoryStore] wf_tiny_market(2)
  by (simp add: market_size_def)

lemma MarketKey_chunks: "Uint16 (drop (length (MarketKey i) - 2) (MarketKey i)) = ucast i"
proof -
  have "drop 6 (PutUint64 i) = PutUint16 (ucast i)"
    unfolding PutUint64_def PutUint16_def
    by (simp, intro conjI; rule bit_word_eqI; auto simp: bit_simps)
  then show ?thesis by (simp add: MarketKey_eq)
qed

lemma unat_low16: "unat (ucast (i :: u64) :: u16) = unat i mod 65536"
  by (simp add: unsigned_ucast_eq take_bit_eq_mod)

text \<open>
  A market key carries no chunk suffix of its own, so a view reads the low 16 bits of the
  market identifier as the key's limit. Even with full access, a market can be stored exactly when
  those bits are at least the number of 64-byte chunks of its encoding.
\<close>

theorem market_key_limits_market:
  assumes "wf_view v" and "view_scope v = FullAccess" and "wf_Market m"
    and "market_size m \<le> MaxMarketDataSize"
  shows "fst (SetMarket TStateView_Mutable v m) =
    (if market_size m div 64 + 1 \<le> unat (market_ID m) mod 65536 then None
     else Some (Sentinel ErrTStateKeyValue))"
proof -
  let ?k = "MarketKey (market_ID m)"
  have room: "VerifyValue ?k (enc_market m) \<longleftrightarrow> market_size m div 64 + 1 \<le> unat (market_ID m) mod 65536"
    using VerifyValue_iff [of ?k "enc_market m", unfolded MarketKey_chunks unat_low16]
    by (simp add: length_enc_market [OF assms(3)] MarketKey_eq)
  have "checkScope v = (\<lambda>_ _. True)"
    using assms(2) by (simp add: checkScope_def fun_eq_iff)
  then show ?thesis
    using room tview.SetMarket_ok [OF assms(1,3,4)] tview.SetMarket_denied [OF assms(1,3,4)]
    by (auto simp: insertable_def insert_error_def)
qed

theorem market_key_limits_market_witness:
  "fst (SetMarket TStateView_Mutable sample_view tiny_market) = None \<and>
   fst (SetMarket TStateView_Mutable sample_view (tiny_market\<lparr>market_ID := 65536\<rparr>)) =
     Some (Sentinel ErrTStateKeyValue)"
proof -
  have m: "wf_Market (tiny_market\<lparr>market_ID := 65536\<rparr>)"
    "market_size (tiny_market\<lparr>market_ID := 65536\<rparr>) = 85"
    using wf_tiny_market by (simp_all add: wf_Market_def market_size_def)
  have v: "view_scope sample_view = FullAccess" by (simp add: sample_view_def NewView_def)
  show ?thesis
    using market_key_limits_market [OF wf_sample_view v wf_tiny_market(1)]
      market_key_limits_market [OF wf_sample_view v m(1)] wf_tiny_market m
    by (simp add: MaxMarketDataSize_def)
qed

text \<open>
  The two last bytes of a share key are the last byte of the owner's address and the kind of
  share, and a view takes them for the key's limit. A share balance has room exactly when they are
  not both zero: an owner whose address ends in zero can never hold YES shares.
\<close>

theorem share_key_has_room:
  assumes "wf_Address a"
  shows "VerifyValue (ShareBalanceKey i a t) (PutUint64 n) \<longleftrightarrow> \<not> (last a = 0 \<and> t = 0)"
proof -
  let ?k = "ShareBalanceKey i a t"
  obtain b c where a: "a = b @ [c]"
    using assms by (cases a rule: rev_cases) (auto simp: wf_Address_def AddressLen_def)
  have "drop (length ?k - 2) ?k = [c, t]"
    unfolding ShareBalanceKey_eq [OF assms]
    using drop_append_exact [of "2 # PutUint64 i @ b" "9 + length b" "[c, t]"] by (simp add: a)
  then have "VerifyValue ?k (PutUint64 n) \<longleftrightarrow> 1 \<le> unat (Uint16 [c, t])"
    using VerifyValue_iff [of ?k "PutUint64 n"] by (simp add: ShareBalanceKey_eq [OF assms])
  also have "\<dots> \<longleftrightarrow> Uint16 [c, t] \<noteq> 0"
    using unat_eq_0 [of "Uint16 [c, t]"] by linarith
  also have "\<dots> \<longleftrightarrow> \<not> (c = 0 \<and> t = 0)"
    using PutUint16_Uint16 [of "[c, t]"] by (auto simp: PutUint16_def)
  finally show ?thesis by (simp add: a)
qed

theorem share_key_has_room_witness:
  "\<not> VerifyValue (ShareBalanceKey 7 (replicate 33 0) YesShareType) (PutUint64 1) \<and>
   VerifyValue (ShareBalanceKey 7 (replicate 33 0) NoShareType) (PutUint64 1)"
  using share_key_has_room [of "replicate 33 0"]
  by (simp add: wf_Address_def AddressLen_def YesShareType_def NoShareType_def)

text \<open>
  Adding and deducting shares, all branches: an unreadable balance is reported with the owner
  and the market, a deduction of more than the balance is refused, and otherwise the balance moves
  by the amount (modulo \<open>2 ^ 64\<close> when adding).
\<close>

theorem share_operations:
  "AddShares InMemoryStore_Mutable s i a t n =
    (case wrap_share i a t (stored_u64 (Storage s (ShareBalanceKey i a t))) of
       Inl e \<Rightarrow> (Some (share_read_error i a t e), s)
     | Inr k \<Rightarrow> (None, s\<lparr>Storage := (Storage s)(ShareBalanceKey i a t \<mapsto> PutUint64 (k + n))\<rparr>)) \<and>
   DeductShares InMemoryStore_Mutable s i a t n =
    (case wrap_share i a t (stored_u64 (Storage s (ShareBalanceKey i a t))) of
       Inl e \<Rightarrow> (Some (share_read_error i a t e), s)
     | Inr k \<Rightarrow>
         if k < n
         then (Some (Errorf ''insufficient %s shares for user %s in market %d (has %d, needs %d)''
                 [FStr (ShareTypeToString t), FBytes a, FU64 i, FU64 k, FU64 n]), s)
         else (None, s\<lparr>Storage := (Storage s)(ShareBalanceKey i a t \<mapsto> PutUint64 (k - n))\<rparr>))"
  by (simp add: AddShares_def DeductShares_def mem.GetShareBalance_stored SetShareBalance_Insert
        split: sum.splits)
     (simp add: InMemoryStore_defs)

text \<open>
  The keys of markets, balances and share balances are all different, and each determines what
  it stands for.
\<close>

theorem keys_separate:
  assumes "wf_Address a" and "wf_Address b"
  shows "distinct [MarketKey i, BalanceKey a, ShareBalanceKey j b t] \<and>
    (MarketKey i = MarketKey j \<longrightarrow> i = j) \<and> (BalanceKey a = BalanceKey b \<longrightarrow> a = b) \<and>
    (ShareBalanceKey i a t = ShareBalanceKey j b u \<longrightarrow> i = j \<and> a = b \<and> t = u)"
  using assms by (simp add: keys_distinct MarketKey_inj BalanceKey_inj ShareBalanceKey_inj)

theorem keys_separate_witness:
  "distinct [MarketKey 1, BalanceKey (replicate 33 1), ShareBalanceKey 1 (replicate 33 1) 0]"
  using keys_separate [of "replicate 33 1" "replicate 33 1" 1 1 0]
  by (simp add: wf_Address_def AddressLen_def)

end
