(* ===== verification/Exchange.thy ===== *)
theory Exchange
  imports Markets
begin

text \<open>
  The abstract exchange the actions implement: token balances, share balances and markets as
  three maps, with one operation for each action. \<open>abs_exchange\<close> reads such an exchange off the
  contents of a store and \<open>wf_contents\<close> is the invariant under which the reading is exact:
  balances and shares are eight bytes, a market is the encoding of a market of that identifier.
\<close>

section \<open>The specification\<close>

record exchange =
  balance_of :: "Address \<Rightarrow> u64 option"
  shares_of :: "u64 \<Rightarrow> Address \<Rightarrow> u8 \<Rightarrow> u64 option"
  market_of :: "u64 \<Rightarrow> Market option"

text \<open>
  A market can be traded up to its end time unless trading was closed or it was resolved. A status
  outside the four constants does not stop trading.
\<close>

definition tradable :: "Market \<Rightarrow> i64 \<Rightarrow> bool" where
  "tradable m ts \<longleftrightarrow>
     market_Status m \<notin> {MarketStatus_TradingClosed, MarketStatus_ResolvedYes, MarketStatus_ResolvedNo} \<and>
     i64_le ts (market_EndTime m)"

definition add_total :: "u8 \<Rightarrow> u64 \<Rightarrow> Market \<Rightarrow> Market" where
  "add_total t n m =
     (if t = YesShareType then m\<lparr>TotalYesShares := TotalYesShares m + n\<rparr>
      else m\<lparr>TotalNoShares := TotalNoShares m + n\<rparr>)"

definition shares_after :: "u64 option \<Rightarrow> u64 \<Rightarrow> u64" where
  "shares_after r n = (case r of None \<Rightarrow> n | Some k \<Rightarrow> k + n)"

text \<open>
  Why a purchase of \<open>amount\<close> shares at \<open>price\<close> is refused, if it is. The cost is the
  product modulo \<open>2 ^ 64\<close>, and a share balance that was stored as zero refuses the purchase.
\<close>

definition buy_fault ::
  "u8 \<Rightarrow> u64 \<Rightarrow> u64 \<Rightarrow> u64 \<Rightarrow> i64 \<Rightarrow> Address \<Rightarrow> exchange \<Rightarrow> sentinel option" where
  "buy_fault t i amount price ts a x =
     (if amount = 0 then Some ErrAmountCannotBeZero
      else if price = 0 then Some ErrMaxPriceCannotBeZero
      else case market_of x i of
        None \<Rightarrow> Some ErrMarketNotFound
      | Some m \<Rightarrow>
          if \<not> tradable m ts then Some ErrMarketInteraction
          else case balance_of x a of
            None \<Rightarrow> Some ErrInsufficientFunds
          | Some bal \<Rightarrow>
              if bal < amount * price then Some ErrInsufficientFunds
              else if shares_of x i a t = Some 0 then Some ErrFieldNotPopulated
              else None)"

definition bought :: "u8 \<Rightarrow> u64 \<Rightarrow> u64 \<Rightarrow> u64 \<Rightarrow> Address \<Rightarrow> exchange \<Rightarrow> exchange" where
  "bought t i amount price a x =
     x\<lparr>balance_of := (balance_of x)(a := map_option (\<lambda>bal. bal - amount * price) (balance_of x a)),
       shares_of := (shares_of x)(i := (shares_of x i)(a := (shares_of x i a)(t :=
          Some (shares_after (shares_of x i a t) amount)))),
       market_of := (market_of x)(i := map_option (add_total t amount) (market_of x i))\<rparr>"

section \<open>Reading an exchange off the contents of a store\<close>

definition decode_market :: "bytes \<Rightarrow> Market option" where
  "decode_market v =
     (case fst (UnmarshalFrom (NewReader v MaxMarketDataSize) Market_type) of
        Inl _ \<Rightarrow> None
      | Inr x \<Rightarrow> Some (Market_of_value x))"

definition abs_exchange :: "(bytes \<rightharpoonup> bytes) \<Rightarrow> exchange" where
  "abs_exchange c =
     \<lparr>balance_of = (\<lambda>a. if wf_Address a then map_option Uint64 (c (BalanceKey a)) else None),
      shares_of = (\<lambda>i a t. if wf_Address a then map_option Uint64 (c (ShareBalanceKey i a t)) else None),
      market_of = (\<lambda>i. Option.bind (c (MarketKey i)) decode_market)\<rparr>"

definition wf_contents :: "(bytes \<rightharpoonup> bytes) \<Rightarrow> bool" where
  "wf_contents c \<longleftrightarrow>
     (\<forall>a v. wf_Address a \<and> c (BalanceKey a) = Some v \<longrightarrow> length v = 8) \<and>
     (\<forall>i a t v. wf_Address a \<and> c (ShareBalanceKey i a t) = Some v \<longrightarrow> length v = 8) \<and>
     (\<forall>i v. c (MarketKey i) = Some v \<longrightarrow>
        (\<exists>m. wf_Market m \<and> market_ID m = i \<and> market_size m \<le> MaxMarketDataSize \<and> v = enc_market m))"

lemma decode_enc_market [simp]: "wf_Market m \<Longrightarrow> decode_market (enc_market m) = Some m"
  using UnmarshalFrom_enc_market [of m "[]"] by (simp add: decode_market_def)

lemma wf_contents_empty: "wf_contents Map.empty"
  by (simp add: wf_contents_def)

lemma wf_contents_balance:
  "wf_contents c \<Longrightarrow> wf_Address a \<Longrightarrow> wf_contents (c(BalanceKey a \<mapsto> PutUint64 v))"
  by (auto simp: wf_contents_def BalanceKey_inj keys_distinct)

lemma wf_contents_shares:
  "wf_contents c \<Longrightarrow> wf_Address a \<Longrightarrow> wf_contents (c(ShareBalanceKey i a t \<mapsto> PutUint64 v))"
  by (auto simp: wf_contents_def keys_distinct)

lemma wf_contents_market:
  "wf_contents c \<Longrightarrow> wf_Market m \<Longrightarrow> market_size m \<le> MaxMarketDataSize \<Longrightarrow>
   wf_contents (c(MarketKey (market_ID m) \<mapsto> enc_market m))"
  by (auto simp: wf_contents_def MarketKey_inj keys_distinct)

lemmas wf_contents_updates = wf_contents_balance wf_contents_shares wf_contents_market

lemma abs_balance_update:
  "wf_Address a \<Longrightarrow> abs_exchange (c(BalanceKey a \<mapsto> PutUint64 v)) =
     (abs_exchange c)\<lparr>balance_of := (balance_of (abs_exchange c))(a \<mapsto> v)\<rparr>"
  by (auto simp: abs_exchange_def fun_eq_iff BalanceKey_inj keys_distinct)

lemma abs_shares_update:
  "wf_Address a \<Longrightarrow> abs_exchange (c(ShareBalanceKey i a t \<mapsto> PutUint64 v)) =
     (abs_exchange c)\<lparr>shares_of := (shares_of (abs_exchange c))(i :=
        (shares_of (abs_exchange c) i)(a := (shares_of (abs_exchange c) i a)(t \<mapsto> v)))\<rparr>"
  by (auto simp: abs_exchange_def fun_eq_iff ShareBalanceKey_inj keys_distinct)

lemma abs_market_update:
  "wf_Market m \<Longrightarrow> abs_exchange (c(MarketKey (market_ID m) \<mapsto> enc_market m)) =
     (abs_exchange c)\<lparr>market_of := (market_of (abs_exchange c))(market_ID m \<mapsto> m)\<rparr>"
  by (auto simp: abs_exchange_def fun_eq_iff MarketKey_inj keys_distinct)

lemmas abs_updates = abs_balance_update abs_shares_update abs_market_update

lemma abs_balanceD:
  "wf_contents c \<Longrightarrow> wf_Address a \<Longrightarrow>
   c (BalanceKey a) = map_option PutUint64 (balance_of (abs_exchange c) a)"
  by (cases "c (BalanceKey a)") (auto simp: abs_exchange_def wf_contents_def PutUint64_Uint64)

lemma abs_sharesD:
  "wf_contents c \<Longrightarrow> wf_Address a \<Longrightarrow>
   c (ShareBalanceKey i a t) = map_option PutUint64 (shares_of (abs_exchange c) i a t)"
  by (cases "c (ShareBalanceKey i a t)") (auto simp: abs_exchange_def wf_contents_def PutUint64_Uint64)

lemma wf_contents_marketE:
  assumes "wf_contents c" and "c (MarketKey i) = Some v"
  obtains m where "wf_Market m" "market_ID m = i" "market_size m \<le> MaxMarketDataSize"
    "v = enc_market m" "market_of (abs_exchange c) i = Some m"
proof -
  obtain m where m: "wf_Market m" "market_ID m = i" "market_size m \<le> MaxMarketDataSize"
    "v = enc_market m"
    using assms unfolding wf_contents_def by blast
  moreover have "market_of (abs_exchange c) i = Some m"
    using assms(2) m by (simp add: abs_exchange_def)
  ultimately show thesis by (rule that)
qed

lemma abs_market_None: "c (MarketKey i) = None \<Longrightarrow> market_of (abs_exchange c) i = None"
  by (simp add: abs_exchange_def)

lemma abs_marketD:
  "wf_contents c \<Longrightarrow> c (MarketKey i) = map_option enc_market (market_of (abs_exchange c) i)"
  by (cases "c (MarketKey i)") (auto simp: abs_market_None elim: wf_contents_marketE)

lemma abs_market_wf:
  "wf_contents c \<Longrightarrow> market_of (abs_exchange c) i = Some m \<Longrightarrow>
   wf_Market m \<and> market_ID m = i \<and> market_size m \<le> MaxMarketDataSize"
  by (cases "c (MarketKey i)") (auto simp: abs_market_None elim: wf_contents_marketE)

lemma add_total_sel [simp]:
  "market_ID (add_total t n m) = market_ID m" "wf_Market (add_total t n m) = wf_Market m"
  "market_size (add_total t n m) = market_size m"
  by (simp_all add: add_total_def)

lemma add_total_sides:
  "add_total YesShareType n m = m\<lparr>TotalYesShares := TotalYesShares m + n\<rparr>"
  "add_total NoShareType n m = m\<lparr>TotalNoShares := TotalNoShares m + n\<rparr>"
  by (simp_all add: add_total_def YesShareType_def NoShareType_def)

section \<open>Three writes\<close>

text \<open>
  What a purchase writes: the balance, the shares and the market. The keys are distinct, so the
  permissions needed for the three writes are those of the initial state.
\<close>

definition purchase_writes ::
  "u8 \<Rightarrow> Address \<Rightarrow> u64 \<Rightarrow> u64 \<Rightarrow> Market \<Rightarrow> (bytes \<rightharpoonup> bytes) \<Rightarrow> (bytes \<rightharpoonup> bytes)" where
  "purchase_writes t a newBalance newShares m c =
     c(BalanceKey a \<mapsto> PutUint64 newBalance,
       ShareBalanceKey (market_ID m) a t \<mapsto> PutUint64 newShares,
       MarketKey (market_ID m) \<mapsto> enc_market m)"

lemma wf_contents_purchase:
  "wf_contents c \<Longrightarrow> wf_Address a \<Longrightarrow> wf_Market m \<Longrightarrow> market_size m \<le> MaxMarketDataSize \<Longrightarrow>
   wf_contents (purchase_writes t a b n m c)"
  by (simp add: purchase_writes_def wf_contents_updates)

lemma abs_purchase_writes:
  assumes "wf_Address a" and "wf_Market m" and "market_of (abs_exchange c) (market_ID m) = Some m"
    and "balance_of (abs_exchange c) a = Some bal"
  shows "abs_exchange (purchase_writes t a (bal - amount * price)
      (shares_after (shares_of (abs_exchange c) (market_ID m) a t) amount) (add_total t amount m) c) =
    bought t (market_ID m) amount price a (abs_exchange c)"
  using assms abs_market_update [of "add_total t amount m"]
  by (simp add: purchase_writes_def abs_updates bought_def)

definition writable ::
  "(bytes \<rightharpoonup> bytes) \<Rightarrow> (bytes \<Rightarrow> Permissions \<Rightarrow> bool) \<Rightarrow> bytes \<Rightarrow> bool" where
  "writable c allow k \<longleftrightarrow> allow k PermWrite \<and> (c k = None \<longrightarrow> allow k PermAllocate)"

lemma insertable_writable: "insertable c allow room k v \<longleftrightarrow> writable c allow k \<and> room k v"
  by (auto simp: insertable_def writable_def)

lemma writable_other: "k \<noteq> k' \<Longrightarrow> writable (c(k' \<mapsto> v)) allow k = writable c allow k"
  by (simp add: writable_def)

lemma writable_same: "writable c allow k \<Longrightarrow> writable (c(k' \<mapsto> v)) allow k"
  by (simp add: writable_def)

lemma wf_contents_read_shares:
  "wf_contents c \<Longrightarrow> wf_Address a \<Longrightarrow>
   stored_u64 (c (ShareBalanceKey i a t)) =
     (case shares_of (abs_exchange c) i a t of
        None \<Rightarrow> Inr 0 | Some n \<Rightarrow> if n = 0 then Inl zero_error else Inr n)"
  by (cases "shares_of (abs_exchange c) i a t") (simp_all add: abs_sharesD)

text \<open>
  How a run of a purchase relates to the specification: on success the state is that of the
  abstract purchase; a refused purchase returns the specified error, and leaves the state alone
  unless the unreadable share balance is found after the funds were deducted.
\<close>

definition purchase_refined ::
  "u8 \<Rightarrow> u64 \<Rightarrow> u64 \<Rightarrow> u64 \<Rightarrow> i64 \<Rightarrow> Address \<Rightarrow> (bytes \<rightharpoonup> bytes) \<Rightarrow> bytes result \<Rightarrow> (bytes \<rightharpoonup> bytes) \<Rightarrow> bool"
where
  "purchase_refined t i amount price ts a c r c' \<longleftrightarrow>
     (case buy_fault t i amount price ts a (abs_exchange c) of
        None \<Rightarrow> r = Inr [] \<and> wf_contents c' \<and>
               abs_exchange c' = bought t i amount price a (abs_exchange c)
      | Some f \<Rightarrow>
          (\<exists>e. r = Inl e \<and> errors_Is e f) \<and>
          c' = (case balance_of (abs_exchange c) a of
                  Some bal \<Rightarrow>
                    if f = ErrFieldNotPopulated then c(BalanceKey a \<mapsto> PutUint64 (bal - amount * price))
                    else c
                | None \<Rightarrow> c))"

lemma parse_packed [simp]: "database_ParseUInt64 (PutUint64 v) = Inr v"
  by (simp add: database_ParseUInt64_def)

text \<open>The keys of a purchase can be written, and the values fit.\<close>

definition purchase_permitted ::
  "u8 \<Rightarrow> u64 \<Rightarrow> u64 \<Rightarrow> Address \<Rightarrow> (bytes \<rightharpoonup> bytes) \<Rightarrow> (bytes \<Rightarrow> Permissions \<Rightarrow> bool) \<Rightarrow>
   (bytes \<Rightarrow> bytes \<Rightarrow> bool) \<Rightarrow> bool" where
  "purchase_permitted t i amount a c allow room \<longleftrightarrow>
     writable c allow (BalanceKey a) \<and> (\<forall>v. room (BalanceKey a) (PutUint64 v)) \<and>
     writable c allow (ShareBalanceKey i a t) \<and> (\<forall>v. room (ShareBalanceKey i a t) (PutUint64 v)) \<and>
     writable c allow (MarketKey i) \<and>
     (\<forall>m. market_of (abs_exchange c) i = Some m \<longrightarrow>
        room (MarketKey i) (enc_market (add_total t amount m)))"

context scoped_store
begin

lemma writable_reads: "writable c (allowed s) k \<Longrightarrow> allowed s k PermRead"
  by (simp add: writable_def write_reads)

lemma purchase_inserts:
  assumes "inv s" and a: "wf_Address a" and m: "wf_Market m" "market_size m \<le> MaxMarketDataSize"
    and b: "insertable (contents s) (allowed s) roomy (BalanceKey a) (PutUint64 bal)"
    and n: "insertable (contents s) (allowed s) roomy (ShareBalanceKey (market_ID m) a t) (PutUint64 n)"
    and i: "insertable (contents s) (allowed s) roomy (MarketKey (market_ID m)) (enc_market m)"
  obtains s1 s2 s3 where
    "Insert mu s (BalanceKey a) (PutUint64 bal) = (None, s1)"
    "contents s1 = (contents s)(BalanceKey a \<mapsto> PutUint64 bal)" "inv s1" "allowed s1 = allowed s"
    "SetShareBalance mu s1 (market_ID m) a t n = (None, s2)"
    "SetMarket mu s2 m = (None, s3)" "inv s3" "allowed s3 = allowed s"
    "contents s3 = purchase_writes t a bal n m (contents s)"
proof -
  obtain s1 where s1: "Insert mu s (BalanceKey a) (PutUint64 bal) = (None, s1)" "inv s1"
    "contents s1 = (contents s)(BalanceKey a \<mapsto> PutUint64 bal)" "allowed s1 = allowed s"
    using assms(1) b by (rule insertE)
  have "insertable (contents s1) (allowed s1) roomy (ShareBalanceKey (market_ID m) a t) (PutUint64 n)"
    using n a by (simp add: s1 insertable_writable writable_same)
  with s1(2) obtain s2 where s2: "SetShareBalance mu s1 (market_ID m) a t n = (None, s2)" "inv s2"
    "contents s2 = (contents s1)(ShareBalanceKey (market_ID m) a t \<mapsto> PutUint64 n)"
    "allowed s2 = allowed s1"
    unfolding SetShareBalance_Insert by (rule insertE)
  have "insertable (contents s2) (allowed s2) roomy (MarketKey (market_ID m)) (enc_market m)"
    using i by (simp add: s1 s2 insertable_writable writable_same)
  from SetMarket_ok [OF s2(2) m this] s1 s2 show thesis
    by (elim exE conjE) (rule that, simp_all add: purchase_writes_def)
qed

text \<open>What the reads of a purchase return in a well-formed state.\<close>

lemma read_market:
  assumes "inv s" and "wf_contents (contents s)" and "allowed s (MarketKey i) PermRead"
  shows "GetMarket mu s i =
    (case market_of (abs_exchange (contents s)) i of
       None \<Rightarrow> Inl (Wrapf ''market %d not found: %w'' [FU64 i] (Sentinel ErrNotFound))
     | Some m \<Rightarrow> Inr m)"
proof (cases "market_of (abs_exchange (contents s)) i")
  case None
  with assms show ?thesis by (simp add: GetMarket_absent abs_marketD)
next
  case (Some m)
  with assms have "contents s (MarketKey i) = Some (enc_market m @ [])" "wf_Market m"
    by (simp_all add: abs_marketD abs_market_wf)
  with assms Some show ?thesis by (simp only: GetMarket_stored option.case)
qed

lemma read_balance:
  assumes "inv s" and "wf_contents (contents s)" and "allowed s (BalanceKey a) PermRead"
    and "wf_Address a"
  shows "GetValue mu s (BalanceKey a) =
    (case balance_of (abs_exchange (contents s)) a of
       None \<Rightarrow> Inl (Sentinel ErrNotFound) | Some bal \<Rightarrow> Inr (PutUint64 bal))"
  using assms by (auto simp: get abs_balanceD split: option.splits)

lemma read_shares:
  assumes "inv s" and "wf_contents (contents s)" and "allowed s (ShareBalanceKey i a t) PermRead"
    and "wf_Address a"
  shows "GetShareBalance mu s i a t =
    (case shares_of (abs_exchange (contents s)) i a t of
       None \<Rightarrow> Inr 0
     | Some n \<Rightarrow> if n = 0 then Inl (share_error i a t zero_error) else Inr n)"
  using assms by (auto simp: GetShareBalance_stored wf_contents_read_shares split: option.splits)

lemma purchase_reads:
  assumes "purchase_permitted t i n a (contents s) (allowed s) roomy"
  shows "allowed s (BalanceKey a) PermRead" "allowed s (MarketKey i) PermRead"
    "allowed s (ShareBalanceKey i a t) PermRead"
  using assms writable_reads by (auto simp: purchase_permitted_def)

text \<open>
  The run of a purchase whose guards pass: the values it reads, the states it goes through, and
  the relation of its last state to the specification. Both buy actions are instances.
\<close>

lemma purchase_states:
  assumes inv: "inv s" and wf: "wf_contents (contents s)" and a: "wf_Address a"
    and perm: "purchase_permitted t i n a (contents s) (allowed s) roomy"
    and m: "market_of (abs_exchange (contents s)) i = Some m"
  obtains s1 s2 s3 where
    "Insert mu s (BalanceKey a) (PutUint64 b) = (None, s1)" "inv s1" "allowed s1 = allowed s"
    "contents s1 = (contents s)(BalanceKey a \<mapsto> PutUint64 b)"
    "GetShareBalance mu s1 i a t = GetShareBalance mu s i a t"
    "SetShareBalance mu s1 i a t k = (None, s2)" "SetMarket mu s2 (add_total t n m) = (None, s3)"
    "inv s3" "allowed s3 = allowed s"
    "contents s3 = purchase_writes t a b k (add_total t n m) (contents s)"
proof -
  let ?m = "add_total t n m"
  have M: "wf_Market ?m" "market_size ?m \<le> MaxMarketDataSize" "market_ID ?m = i"
    using abs_market_wf [OF wf m] by simp_all
  have ins: "insertable (contents s) (allowed s) roomy (BalanceKey a) (PutUint64 b)"
      "insertable (contents s) (allowed s) roomy (ShareBalanceKey (market_ID ?m) a t) (PutUint64 k)"
      "insertable (contents s) (allowed s) roomy (MarketKey (market_ID ?m)) (enc_market ?m)"
    using perm m unfolding M(3) by (auto simp: purchase_permitted_def insertable_writable)
  from purchase_inserts [OF inv a M(1,2) ins] obtain s1 s2 s3 where
    s: "Insert mu s (BalanceKey a) (PutUint64 b) = (None, s1)"
      "contents s1 = (contents s)(BalanceKey a \<mapsto> PutUint64 b)" "inv s1" "allowed s1 = allowed s"
      "SetShareBalance mu s1 i a t k = (None, s2)" "SetMarket mu s2 ?m = (None, s3)" "inv s3"
      "allowed s3 = allowed s" "contents s3 = purchase_writes t a b k ?m (contents s)"
    unfolding M(3) by blast
  moreover have "GetShareBalance mu s1 i a t = GetShareBalance mu s i a t"
    using s(2-4) inv a by (simp add: GetShareBalance_stored keys_distinct)
  ultimately show thesis by (intro that)
qed

lemma purchase_run:
  assumes inv: "inv s" and wf: "wf_contents (contents s)" and a: "wf_Address a"
    and perm: "purchase_permitted t i n a (contents s) (allowed s) roomy"
    and f: "buy_fault t i n p ts a (abs_exchange (contents s)) \<in> {None, Some ErrFieldNotPopulated}"
  obtains (zero) m bal s1 where "n \<noteq> 0" "p \<noteq> 0" "GetMarket mu s i = Inr m" "tradable m ts"
      "GetValue mu s (BalanceKey a) = Inr (PutUint64 bal)" "\<not> bal < n * p"
      "Insert mu s (BalanceKey a) (PutUint64 (bal - n * p)) = (None, s1)"
      "GetShareBalance mu s1 i a t = Inl (share_error i a t zero_error)"
      "inv s1" "allowed s1 = allowed s"
      "\<And>e. errors_Is e ErrFieldNotPopulated \<Longrightarrow>
         purchase_refined t i n p ts a (contents s) (Inl e) (contents s1)"
  | (ok) m bal s1 s2 s3 k where "n \<noteq> 0" "p \<noteq> 0" "GetMarket mu s i = Inr m" "tradable m ts"
      "GetValue mu s (BalanceKey a) = Inr (PutUint64 bal)" "\<not> bal < n * p"
      "Insert mu s (BalanceKey a) (PutUint64 (bal - n * p)) = (None, s1)"
      "GetShareBalance mu s1 i a t = Inr k" "SetShareBalance mu s1 i a t (k + n) = (None, s2)"
      "SetMarket mu s2 (add_total t n m) = (None, s3)" "inv s3" "allowed s3 = allowed s"
      "purchase_refined t i n p ts a (contents s) (Inr []) (contents s3)"
proof -
  let ?x = "abs_exchange (contents s)"
  obtain m bal where n: "n \<noteq> 0" "p \<noteq> 0" and m: "market_of ?x i = Some m" "tradable m ts"
    and bal: "balance_of ?x a = Some bal" "\<not> bal < n * p"
    using f by (auto simp: buy_fault_def split: if_splits option.splits)
  have start: "GetMarket mu s i = Inr m" "GetValue mu s (BalanceKey a) = Inr (PutUint64 bal)"
    using m bal read_market [OF inv wf] read_balance [OF inv wf _ a] purchase_reads [OF perm]
    by simp_all
  let ?k = "shares_after (shares_of ?x i a t) n"
  obtain s1 s2 s3 where s1: "Insert mu s (BalanceKey a) (PutUint64 (bal - n * p)) = (None, s1)"
      "inv s1" "allowed s1 = allowed s"
      "contents s1 = (contents s)(BalanceKey a \<mapsto> PutUint64 (bal - n * p))"
    and r: "GetShareBalance mu s1 i a t = GetShareBalance mu s i a t"
    and s3: "SetShareBalance mu s1 i a t ?k = (None, s2)" "SetMarket mu s2 (add_total t n m) = (None, s3)"
      "inv s3" "allowed s3 = allowed s"
      "contents s3 = purchase_writes t a (bal - n * p) ?k (add_total t n m) (contents s)"
    using inv wf a perm m(1) by (rule purchase_states)
  note read = read_shares [OF inv wf purchase_reads(3) [OF perm] a]
  show thesis
  proof (cases "shares_of ?x i a t = Some 0")
    case True
    then have "buy_fault t i n p ts a ?x = Some ErrFieldNotPopulated"
      using n m bal by (auto simp: buy_fault_def)
    then show thesis
      using n m(2) bal start s1 r read True by (intro zero) (simp_all add: purchase_refined_def)
  next
    case False
    then have "buy_fault t i n p ts a ?x = None"
      using n m bal by (auto simp: buy_fault_def)
    moreover obtain k where "?k = k + n" "GetShareBalance mu s i a t = Inr k"
      using False read by (cases "shares_of ?x i a t") (auto simp: shares_after_def)
    moreover have "wf_contents (contents s3)"
      using wf a abs_market_wf [OF wf m(1)] by (simp add: s3 wf_contents_purchase)
    moreover have "abs_exchange (contents s3) = bought t i n p a ?x"
      using abs_purchase_writes [OF a, of m "contents s" bal t n p] abs_market_wf [OF wf m(1)] m bal
      by (simp add: s3)
    ultimately show thesis
      using n m(2) bal start s1 s3 r
      by (intro ok [where ?s3.0 = s3 and ?s2.0 = s2 and ?s1.0 = s1 and m = m and k = k])
         (simp_all add: purchase_refined_def)
  qed
qed

end

section \<open>A sample exchange\<close>

text \<open>Concrete inputs on which the properties of the actions are instantiated.\<close>

definition sample_address :: Address where
  "sample_address = replicate 33 1"

definition sample_market :: Market where
  "sample_market =
     \<lparr>market_ID = 7, market_Description = bytes_of_string ''Will it rain?'',
      market_Status = MarketStatus_Open, market_Creator = sample_address, market_EndTime = 100,
      market_ResolutionTime = 200, TotalYesShares = 0, TotalNoShares = 0, market_OracleType = 0,
      market_OracleSource = [], market_OracleParameters = [], ResolvedOutcome = Outcome_Pending\<rparr>"

definition sample_contents :: "bytes \<rightharpoonup> bytes" where
  "sample_contents = [BalanceKey sample_address \<mapsto> PutUint64 1000,
     MarketKey (market_ID sample_market) \<mapsto> enc_market sample_market]"

definition sample_store :: InMemoryStore where
  "sample_store = \<lparr>Storage = sample_contents\<rparr>"

lemma wf_sample_address [simp]: "wf_Address sample_address"
  by (simp add: wf_Address_def sample_address_def AddressLen_def)

lemma wf_sample_market [simp]:
  "wf_Market sample_market" "market_size sample_market \<le> MaxMarketDataSize"
  "market_ID sample_market = 7"
  by (simp_all add: wf_Market_def sample_market_def bytes_of_string_def MaxStringLen_def
        MaxInt32_def market_size_def MaxMarketDataSize_def)

lemma wf_sample_contents [simp]: "wf_contents sample_contents" "wf_contents (Storage sample_store)"
  using wf_contents_market [OF wf_contents_balance [OF wf_contents_empty wf_sample_address]
      wf_sample_market(1,2)]
  by (simp_all add: sample_contents_def sample_store_def)

lemma abs_sample:
  "balance_of (abs_exchange sample_contents) sample_address = Some 1000"
  "market_of (abs_exchange sample_contents) 7 = Some sample_market"
  "shares_of (abs_exchange sample_contents) i a t = None"
proof -
  have e: "abs_exchange Map.empty = \<lparr>balance_of = \<lambda>_. None, shares_of = \<lambda>_ _ _. None, market_of = \<lambda>_. None\<rparr>"
    by (simp add: abs_exchange_def fun_eq_iff)
  have "abs_exchange sample_contents = (abs_exchange Map.empty)
      \<lparr>balance_of := [sample_address \<mapsto> 1000], market_of := [7 \<mapsto> sample_market]\<rparr>"
    unfolding sample_contents_def abs_market_update [OF wf_sample_market(1)]
      abs_balance_update [OF wf_sample_address] e
    by simp
  then show
    "balance_of (abs_exchange sample_contents) sample_address = Some 1000"
    "market_of (abs_exchange sample_contents) 7 = Some sample_market"
    "shares_of (abs_exchange sample_contents) i a t = None"
    by (simp_all add: e)
qed

lemma tradable_sample: "tradable sample_market 50"
  by (simp add: tradable_def sample_market_def MarketStatus_Open_def MarketStatus_TradingClosed_def
        MarketStatus_ResolvedYes_def MarketStatus_ResolvedNo_def i64_le_def)

lemma purchase_permitted_mem [simp]:
  "purchase_permitted t i n a c (\<lambda>_ _. True) (\<lambda>_ _. True)"
  by (simp add: purchase_permitted_def writable_def)

end
