(* ===== verification/BuyYesAction.thy ===== *)
theory BuyYesAction
  imports Exchange TState
begin

text \<open>
  The action that buys YES shares (\<^verbatim>\<open>actions/buy_yes_action.go\<close>). Shown: over any
  \<open>scoped_store\<close> whose keys it may write, \<open>BuyYes_Execute\<close> refines the purchase of the
  abstract exchange, error for error; the bytes of an action are read back by
  \<open>UnmarshalBuyYes\<close>.
\<close>

section \<open>The action\<close>

record BuyYes =
  by_MarketID :: u64
  by_Amount :: u64
  by_MaxPrice :: u64

definition BuyYes_GetTypeID :: u8 where
  "BuyYes_GetTypeID = BuyYesID"

definition BuyYes_StateKeys :: "BuyYes \<Rightarrow> Address \<Rightarrow> Keys" where
  "BuyYes_StateKeys b actor =
     [(BalanceKey actor, PermRead OR PermWrite),
      (MarketKey (by_MarketID b), PermRead OR PermWrite),
      (ShareBalanceKey (by_MarketID b) actor YesShareType, PermRead OR PermWrite)]"

text \<open>The checks on the market, in the order of the code; \<open>None\<close> lets the purchase go on.\<close>

definition BuyYes_checkMarket :: "BuyYes \<Rightarrow> i64 \<Rightarrow> Market \<Rightarrow> go_error option" where
  "BuyYes_checkMarket b txTimestamp market =
     (if market_Status market = MarketStatus_ResolvedYes \<or>
         market_Status market = MarketStatus_ResolvedNo
      then Some (Wrapf ''%w: market %d is already resolved (status: %s)''
             [FU64 (by_MarketID b), FStr (MarketStatus_String (market_Status market))]
             (Sentinel ErrMarketInteraction))
      else if i64_less (market_EndTime market) txTimestamp \<and> market_Status market = MarketStatus_Open
      then Some (Wrapf
             ''%w: market %d has ended or trading is closed (current: %d, end: %d, status: %s)''
             [FU64 (by_MarketID b), FI64 txTimestamp, FI64 (market_EndTime market),
              FStr (MarketStatus_String (market_Status market))]
             (Sentinel ErrMarketInteraction))
      else if market_Status market = MarketStatus_TradingClosed
      then Some (Wrapf ''%w: market %d trading is closed (status: %s)''
             [FU64 (by_MarketID b), FStr (MarketStatus_String (market_Status market))]
             (Sentinel ErrMarketInteraction))
      else if i64_less (market_EndTime market) txTimestamp
      then Some (Wrapf ''%w: market %d has ended (current: %d, end: %d)''
             [FU64 (by_MarketID b), FI64 txTimestamp, FI64 (market_EndTime market)]
             (Sentinel ErrMarketInteraction))
      else None)"

definition BuyYes_Execute ::
  "'s state_Mutable \<Rightarrow> BuyYes \<Rightarrow> 's \<Rightarrow> i64 \<Rightarrow> Address \<Rightarrow> bytes result \<times> 's" where
  "BuyYes_Execute mu b s txTimestamp actor =
     (if by_Amount b = 0 then (Inl (Sentinel ErrAmountCannotBeZero), s)
      else if by_MaxPrice b = 0 then (Inl (Sentinel ErrMaxPriceCannotBeZero), s)
      else case GetMarket mu s (by_MarketID b) of
        Inl err \<Rightarrow>
          if errors_Is err ErrNotFound
          then (Inl (Wrapf ''%w: market %d not found when fetching'' [FU64 (by_MarketID b)]
                       (Sentinel ErrMarketNotFound)), s)
          else (Inl (Wrapf ''failed to get market %d: %w'' [FU64 (by_MarketID b)] err), s)
      | Inr market \<Rightarrow>
       (case BuyYes_checkMarket b txTimestamp market of
          Some err \<Rightarrow> (Inl err, s)
        | None \<Rightarrow>
         (let balanceKey = BalanceKey actor; cost = by_Amount b * by_MaxPrice b in
          case GetValue mu s balanceKey of
            Inl err \<Rightarrow>
              if errors_Is err ErrNotFound
              then (Inl (Wrapf ''%w: actor %s has no balance record, cost is %d''
                           [FBytes actor, FU64 cost] (Sentinel ErrInsufficientFunds)), s)
              else (Inl (Wrapf ''failed to get actor's balance for %s: %w'' [FBytes actor] err), s)
          | Inr currentBalanceBytes \<Rightarrow>
           (case database_ParseUInt64 currentBalanceBytes of
              Inl err \<Rightarrow>
                (Inl (Wrapf ''failed to parse actor's balance for %s: %w'' [FBytes actor] err), s)
            | Inr currentBalance \<Rightarrow>
                if currentBalance < cost
                then (Inl (Wrapf
                       ''%w: actor balance %d, cost %d for %d shares at max price %d for market %d''
                       [FU64 currentBalance, FU64 cost, FU64 (by_Amount b), FU64 (by_MaxPrice b),
                        FU64 (by_MarketID b)] (Sentinel ErrInsufficientFunds)), s)
                else
                 (let newBalance = currentBalance - cost in
                  case Insert mu s balanceKey (database_PackUInt64 newBalance) of
                    (Some err, s1) \<Rightarrow>
                      (Inl (Wrapf ''failed to set new balance %d for actor %s: %w''
                              [FU64 newBalance, FBytes actor] err), s1)
                  | (None, s1) \<Rightarrow>
                   (let credit = (\<lambda>currentYesShares.
                      let newShareBalance = currentYesShares + by_Amount b in
                      case SetShareBalance mu s1 (by_MarketID b) actor YesShareType newShareBalance of
                        (Some err, s2) \<Rightarrow>
                          (Inl (Wrapf ''failed to set new share balance %d for actor %s, market %d, type YES: %w''
                                  [FU64 newShareBalance, FBytes actor, FU64 (by_MarketID b)] err), s2)
                      | (None, s2) \<Rightarrow>
                          (case SetMarket mu s2
                                  (market\<lparr>TotalYesShares := TotalYesShares market + by_Amount b\<rparr>) of
                             (Some err, s3) \<Rightarrow>
                               (Inl (Wrapf ''failed to update market %d total YES shares: %w''
                                       [FU64 (by_MarketID b)] err), s3)
                           | (None, s3) \<Rightarrow> (Inr [], s3))) in
                    case GetShareBalance mu s1 (by_MarketID b) actor YesShareType of
                      Inl err \<Rightarrow>
                        if \<not> errors_Is err ErrNotFound
                        then (Inl (Wrapf ''failed to get current share balance for actor %s, market %d, type YES: %w''
                                [FBytes actor, FU64 (by_MarketID b)] err), s1)
                        else credit 0
                    | Inr currentYesShares \<Rightarrow> credit currentYesShares))))))"

definition BuyYes_ComputeUnits :: u64 where
  "BuyYes_ComputeUnits = 0"

definition BuyYes_ValidRange :: "i64 \<times> i64" where
  "BuyYes_ValidRange = (- 1, - 1)"

section \<open>Serialization\<close>

definition BuyYes_fields :: "field_tag list" where
  "BuyYes_fields = map serialized_field [''MarketID'', ''Amount'', ''MaxPrice'']"

definition BuyYes_type :: gotype where
  "BuyYes_type = TStruct BuyYes_fields [TUint64, TUint64, TUint64]"

definition BuyYes_value :: "BuyYes \<Rightarrow> govalue" where
  "BuyYes_value b = VStruct BuyYes_fields
     [VUint64 (by_MarketID b), VUint64 (by_Amount b), VUint64 (by_MaxPrice b)]"

definition BuyYes_of_value :: "govalue \<Rightarrow> BuyYes" where
  "BuyYes_of_value v =
     \<lparr>by_MarketID = u64_of (fields_of v ! 0), by_Amount = u64_of (fields_of v ! 1),
      by_MaxPrice = u64_of (fields_of v ! 2)\<rparr>"

text \<open>A \<^verbatim>\<open>nil\<close> slice and an empty one are the same list; the code prints the error.\<close>

definition BuyYes_Bytes :: "BuyYes \<Rightarrow> bytes" where
  "BuyYes_Bytes b =
     (case MarshalInto (BuyYes_value b) (NewWriter 0 MaxActionSize) of
        (Some _, _) \<Rightarrow> []
      | (None, packer) \<Rightarrow> Bytes packer)"

definition BuyYes_Unmarshal :: "bytes \<Rightarrow> BuyYes result" where
  "BuyYes_Unmarshal d =
     (case UnmarshalFrom (NewReader d MaxActionSize) BuyYes_type of
        (Inl e, _) \<Rightarrow> Inl e
      | (Inr v, _) \<Rightarrow> Inr (BuyYes_of_value v))"

definition UnmarshalBuyYes :: "bytes \<Rightarrow> BuyYes result" where
  "UnmarshalBuyYes b = BuyYes_Unmarshal b"

section \<open>What the checks decide\<close>

lemmas status_defs = MarketStatus_Open_def MarketStatus_TradingClosed_def
  MarketStatus_ResolvedYes_def MarketStatus_ResolvedNo_def

lemma i64_less_not_le: "i64_less a b \<longleftrightarrow> \<not> i64_le b a"
  by (auto simp: i64_less_def i64_le_def)

lemma BuyYes_checkMarket_None: "BuyYes_checkMarket b ts m = None \<longleftrightarrow> tradable m ts"
  by (auto simp: BuyYes_checkMarket_def tradable_def i64_less_not_le)

lemma BuyYes_checkMarket_Some:
  "BuyYes_checkMarket b ts m = Some e \<Longrightarrow> errors_Is e ErrMarketInteraction \<and> \<not> tradable m ts"
  by (auto simp: BuyYes_checkMarket_def tradable_def i64_less_not_le split: if_splits)

section \<open>Refinement of the abstract exchange\<close>

context scoped_store
begin

lemma BuyYes_Execute_early:
  assumes "inv s" and "wf_contents (contents s)" and "wf_Address a"
    and "allowed s (BalanceKey a) PermRead" and "allowed s (MarketKey (by_MarketID b)) PermRead"
    and f: "buy_fault YesShareType (by_MarketID b) (by_Amount b) (by_MaxPrice b) ts a
      (abs_exchange (contents s)) = Some f" and "f \<noteq> ErrFieldNotPopulated"
  shows "\<exists>e. BuyYes_Execute mu b s ts a = (Inl e, s) \<and> errors_Is e f"
  using f assms(7)
  by (auto simp: buy_fault_def BuyYes_Execute_def read_market [OF assms(1,2,5)]
        read_balance [OF assms(1,2,4,3)] BuyYes_checkMarket_None Let_def
      dest!: BuyYes_checkMarket_Some
      split: if_splits option.splits)

lemma BuyYes_Execute_refines:
  assumes inv: "inv s" and wf: "wf_contents (contents s)" and a: "wf_Address a"
    and perm: "purchase_permitted YesShareType (by_MarketID b) (by_Amount b) a
      (contents s) (allowed s) roomy"
  shows "\<exists>r s'. BuyYes_Execute mu b s ts a = (r, s') \<and> inv s' \<and> allowed s' = allowed s \<and>
    purchase_refined YesShareType (by_MarketID b) (by_Amount b) (by_MaxPrice b) ts a
      (contents s) r (contents s')"
proof (cases "buy_fault YesShareType (by_MarketID b) (by_Amount b) (by_MaxPrice b) ts a
    (abs_exchange (contents s)) \<in> {None, Some ErrFieldNotPopulated}")
  case False
  then obtain f where f: "buy_fault YesShareType (by_MarketID b) (by_Amount b) (by_MaxPrice b) ts a
      (abs_exchange (contents s)) = Some f" "f \<noteq> ErrFieldNotPopulated"
    by auto
  from BuyYes_Execute_early [OF inv wf a purchase_reads(1,2) [OF perm] f] f inv show ?thesis
    by (auto simp: purchase_refined_def split: option.splits)
next
  case True
  from inv wf a perm True show ?thesis
  proof (cases rule: purchase_run)
    case (zero m bal s1)
    moreover from zero
    have "\<exists>e. BuyYes_Execute mu b s ts a = (Inl e, s1) \<and> errors_Is e ErrFieldNotPopulated"
      by (simp add: BuyYes_Execute_def BuyYes_checkMarket_None [THEN iffD2] database_PackUInt64_def
            Let_def err_simps)
    ultimately show ?thesis by blast
  next
    case (ok m bal s1 s2 s3 k)
    moreover from ok have "BuyYes_Execute mu b s ts a = (Inr [], s3)"
      by (simp add: BuyYes_Execute_def BuyYes_checkMarket_None [THEN iffD2] database_PackUInt64_def
            Let_def add_total_sides)
    ultimately show ?thesis by blast
  qed
qed

end

context tracked_store
begin

lemma rel_BuyYes_Execute: "BuyYes_Execute mu b s ts a = (r, s') \<Longrightarrow> rel s s'"
  by (auto simp: BuyYes_Execute_def Let_def
      dest!: rel_insert' rel_SetShareBalance rel_SetMarket
      split: if_splits sum.splits option.splits prod.splits)
     (blast intro: rel_trans)+

end

section \<open>Round trip\<close>

lemma BuyYes_typed: "has_type BuyYes_type (BuyYes_value b)" "encodable (BuyYes_value b)"
  by (simp_all add: BuyYes_type_def BuyYes_value_def BuyYes_fields_def serialized_field_def
        all_serialized_def)

lemma BuyYes_of_value [simp]: "BuyYes_of_value (BuyYes_value b) = b"
  by (simp add: BuyYes_of_value_def BuyYes_value_def)

lemma enc_BuyYes:
  "enc (BuyYes_value b) = PutUint64 (by_MarketID b) @ PutUint64 (by_Amount b) @ PutUint64 (by_MaxPrice b)"
  by (simp add: BuyYes_value_def)

lemma BuyYes_Bytes_eq:
  "BuyYes_Bytes b = PutUint64 (by_MarketID b) @ PutUint64 (by_Amount b) @ PutUint64 (by_MaxPrice b)"
proof -
  have "length (enc (BuyYes_value b)) \<le> MaxActionSize"
    by (simp add: enc_BuyYes MaxActionSize_def)
  then show ?thesis
    using MarshalInto_NewWriter(1) [OF BuyYes_typed]
    by (simp add: BuyYes_Bytes_def enc_BuyYes NewWriter_def)
qed

lemma UnmarshalBuyYes_Bytes: "UnmarshalBuyYes (BuyYes_Bytes b @ r) = Inr b"
  using UnmarshalFrom_NewReader [OF BuyYes_typed, of b r MaxActionSize]
  by (simp add: UnmarshalBuyYes_def BuyYes_Unmarshal_def BuyYes_Bytes_eq enc_BuyYes)

section \<open>Properties\<close>

text \<open>
  C1: buying YES shares in a well-formed store does what the abstract exchange says. With the
  guards satisfied it returns no output, moves the cost out of the actor's balance, credits the
  shares and raises the market's total; otherwise it returns the error the specification names.
\<close>

theorem buy_yes_refines_exchange:
  assumes "wf_contents (Storage s)" and "wf_Address a"
  shows "\<exists>r s'. BuyYes_Execute InMemoryStore_Mutable b s ts a = (r, s') \<and>
    purchase_refined YesShareType (by_MarketID b) (by_Amount b) (by_MaxPrice b) ts a
      (Storage s) r (Storage s')"
  using mem.BuyYes_Execute_refines [of s a b ts] assms by simp

definition sample_buy :: BuyYes where
  "sample_buy = \<lparr>by_MarketID = 7, by_Amount = 10, by_MaxPrice = 3\<rparr>"

theorem buy_yes_refines_exchange_witness:
  "\<exists>s'. BuyYes_Execute InMemoryStore_Mutable sample_buy sample_store 50 sample_address = (Inr [], s') \<and>
    balance_of (abs_exchange (Storage s')) sample_address = Some 970 \<and>
    shares_of (abs_exchange (Storage s')) 7 sample_address YesShareType = Some 10 \<and>
    map_option TotalYesShares (market_of (abs_exchange (Storage s')) 7) = Some 10"
  using buy_yes_refines_exchange [OF wf_sample_contents(2) wf_sample_address, of sample_buy 50]
  by (auto simp: purchase_refined_def buy_fault_def sample_store_def sample_buy_def abs_sample
        tradable_sample bought_def shares_after_def add_total_sides)
     (simp add: sample_market_def)

text \<open>
  The cost of a purchase is the product of amount and price modulo \<open>2 ^ 64\<close>. An order for
  \<open>2 ^ 63\<close> shares at price 2 costs nothing: it succeeds, credits all the shares and leaves the
  balance as it was.
\<close>

theorem buy_yes_cost_wraps:
  "\<exists>s'. BuyYes_Execute InMemoryStore_Mutable
      \<lparr>by_MarketID = 7, by_Amount = 2 ^ 63, by_MaxPrice = 2\<rparr> sample_store 50 sample_address =
      (Inr [], s') \<and>
    balance_of (abs_exchange (Storage s')) sample_address = Some 1000 \<and>
    shares_of (abs_exchange (Storage s')) 7 sample_address YesShareType = Some (2 ^ 63)"
  using mem.BuyYes_Execute_refines [of sample_store sample_address
      "\<lparr>by_MarketID = 7, by_Amount = 2 ^ 63, by_MaxPrice = 2\<rparr>" 50]
  by (auto simp: purchase_refined_def buy_fault_def sample_store_def abs_sample tradable_sample
        bought_def shares_after_def)

text \<open>
  The bytes of a \<^verbatim>\<open>BuyYes\<close> action, whatever follows them, are read back by
  \<^verbatim>\<open>UnmarshalBuyYes\<close>. They start with the market identifier, not with a type identifier.
\<close>

theorem buy_yes_bytes_round_trip:
  "UnmarshalBuyYes (BuyYes_Bytes b @ r) = Inr b \<and> take 8 (BuyYes_Bytes b) = PutUint64 (by_MarketID b)"
  using UnmarshalBuyYes_Bytes [of b r] by (simp add: BuyYes_Bytes_eq)

end
