(* ===== verification/BuyNoAction.thy ===== *)
theory BuyNoAction
  imports BuyYesAction
begin

text \<open>
  The action that buys NO shares (\<^verbatim>\<open>actions/buy_no_action.go\<close>). Its checks on the market
  come in another order than those of \<^verbatim>\<open>BuyYes\<close>; it is shown to refine the same abstract
  purchase, on the other kind of share.
\<close>

section \<open>The action\<close>

record BuyNo =
  bn_MarketID :: u64
  bn_Amount :: u64
  bn_MaxPrice :: u64

definition BuyNo_GetTypeID :: u8 where
  "BuyNo_GetTypeID = BuyNoID"

definition BuyNo_StateKeys :: "BuyNo \<Rightarrow> Address \<Rightarrow> Keys" where
  "BuyNo_StateKeys b actor =
     [(BalanceKey actor, PermRead OR PermWrite),
      (MarketKey (bn_MarketID b), PermRead OR PermWrite),
      (ShareBalanceKey (bn_MarketID b) actor NoShareType, PermRead OR PermWrite)]"

text \<open>The checks on the market, in the order of the code; \<open>None\<close> lets the purchase go on.\<close>

definition BuyNo_checkMarket :: "BuyNo \<Rightarrow> i64 \<Rightarrow> Market \<Rightarrow> go_error option" where
  "BuyNo_checkMarket b txTimestamp market =
     (if market_Status market = MarketStatus_ResolvedYes \<or>
         market_Status market = MarketStatus_ResolvedNo
      then Some (Wrapf ''%w: market %d is already resolved (status: %s)''
             [FU64 (bn_MarketID b), FStr (MarketStatus_String (market_Status market))]
             (Sentinel ErrMarketInteraction))
      else if market_Status market = MarketStatus_TradingClosed
      then Some (Wrapf ''%w: market %d trading is closed (status: %s)''
             [FU64 (bn_MarketID b), FStr (MarketStatus_String (market_Status market))]
             (Sentinel ErrMarketInteraction))
      else if i64_less (market_EndTime market) txTimestamp
      then Some (Wrapf ''%w: market %d has ended (current: %d, end: %d)''
             [FU64 (bn_MarketID b), FI64 txTimestamp, FI64 (market_EndTime market)]
             (Sentinel ErrMarketInteraction))
      else None)"

definition BuyNo_Execute ::
  "'s state_Mutable \<Rightarrow> BuyNo \<Rightarrow> 's \<Rightarrow> i64 \<Rightarrow> Address \<Rightarrow> bytes result \<times> 's" where
  "BuyNo_Execute mu b s txTimestamp actor =
     (if bn_Amount b = 0 then (Inl (Sentinel ErrAmountCannotBeZero), s)
      else if bn_MaxPrice b = 0 then (Inl (Sentinel ErrMaxPriceCannotBeZero), s)
      else case GetMarket mu s (bn_MarketID b) of
        Inl err \<Rightarrow>
          if errors_Is err ErrNotFound
          then (Inl (Wrapf ''%w: market %d not found when fetching'' [FU64 (bn_MarketID b)]
                       (Sentinel ErrMarketNotFound)), s)
          else (Inl (Wrapf ''failed to get market %d: %w'' [FU64 (bn_MarketID b)] err), s)
      | Inr market \<Rightarrow>
       (case BuyNo_checkMarket b txTimestamp market of
          Some err \<Rightarrow> (Inl err, s)
        | None \<Rightarrow>
         (let balanceKey = BalanceKey actor; cost = bn_Amount b * bn_MaxPrice b in
          case GetValue mu s balanceKey of
            Inl err \<Rightarrow>
              if errors_Is err ErrNotFound
              then (Inl (Wrapf ''%w: actor %s has no balance record, cost is %d''
                           [FBytes actor, FU64 cost] (Sentinel ErrInsufficientFunds)), s)
              else (Inl (Wrapf ''failed to get actor's balance for %s: %w'' [FBytes actor] err), s)
          | Inr currentBalanceBytes \<Rightarrow>
           (case database_ParseUInt64 currentBalanceBytes of
              Inl err \<Rightarrow>
                (Inl (Wrapf ''failed to parse actor's balance for %s: %w'' [FBytes actor] err), s)
            | Inr currentBalance \<Rightarrow>
                if currentBalance < cost
                then (Inl (Wrapf
                       ''%w: actor balance %d, cost %d for %d shares at max price %d for market %d''
                       [FU64 currentBalance, FU64 cost, FU64 (bn_Amount b), FU64 (bn_MaxPrice b),
                        FU64 (bn_MarketID b)] (Sentinel ErrInsufficientFunds)), s)
                else
                 (let newBalance = currentBalance - cost in
                  case Insert mu s balanceKey (database_PackUInt64 newBalance) of
                    (Some err, s1) \<Rightarrow>
                      (Inl (Wrapf ''failed to set new balance %d for actor %s: %w''
                              [FU64 newBalance, FBytes actor] err), s1)
                  | (None, s1) \<Rightarrow>
                   (let credit = (\<lambda>currentNoShares.
                      let newShareBalance = currentNoShares + bn_Amount b in
                      case SetShareBalance mu s1 (bn_MarketID b) actor NoShareType newShareBalance of
                        (Some err, s2) \<Rightarrow>
                          (Inl (Wrapf ''failed to set new NO share balance %d for actor %s, market %d: %w''
                                  [FU64 newShareBalance, FBytes actor, FU64 (bn_MarketID b)] err), s2)
                      | (None, s2) \<Rightarrow>
                          (case SetMarket mu s2
                                  (market\<lparr>TotalNoShares := TotalNoShares market + bn_Amount b\<rparr>) of
                             (Some err, s3) \<Rightarrow>
                               (Inl (Wrapf ''failed to update market %d with new total NO shares: %w''
                                       [FU64 (bn_MarketID b)] err), s3)
                           | (None, s3) \<Rightarrow> (Inr [], s3))) in
                    case GetShareBalance mu s1 (bn_MarketID b) actor NoShareType of
                      Inl err \<Rightarrow>
                        if \<not> errors_Is err ErrNotFound
                        then (Inl (Wrapf ''failed to get current NO share balance for actor %s, market %d: %w''
                                [FBytes actor, FU64 (bn_MarketID b)] err), s1)
                        else credit 0
                    | Inr currentNoShares \<Rightarrow> credit currentNoShares))))))"

definition BuyNo_ComputeUnits :: u64 where
  "BuyNo_ComputeUnits = 0"

definition BuyNo_ValidRange :: "i64 \<times> i64" where
  "BuyNo_ValidRange = (- 1, - 1)"

section \<open>Serialization\<close>

definition BuyNo_fields :: "field_tag list" where
  "BuyNo_fields = map serialized_field [''MarketID'', ''Amount'', ''MaxPrice'']"

definition BuyNo_type :: gotype where
  "BuyNo_type = TStruct BuyNo_fields [TUint64, TUint64, TUint64]"

definition BuyNo_value :: "BuyNo \<Rightarrow> govalue" where
  "BuyNo_value b = VStruct BuyNo_fields
     [VUint64 (bn_MarketID b), VUint64 (bn_Amount b), VUint64 (bn_MaxPrice b)]"

definition BuyNo_of_value :: "govalue \<Rightarrow> BuyNo" where
  "BuyNo_of_value v =
     \<lparr>bn_MarketID = u64_of (fields_of v ! 0), bn_Amount = u64_of (fields_of v ! 1),
      bn_MaxPrice = u64_of (fields_of v ! 2)\<rparr>"

text \<open>A \<^verbatim>\<open>nil\<close> slice and an empty one are the same list; the code prints the error.\<close>

definition BuyNo_Bytes :: "BuyNo \<Rightarrow> bytes" where
  "BuyNo_Bytes b =
     (case MarshalInto (BuyNo_value b) (NewWriter 0 MaxActionSize) of
        (Some _, _) \<Rightarrow> []
      | (None, packer) \<Rightarrow> Bytes packer)"

definition BuyNo_Unmarshal :: "bytes \<Rightarrow> BuyNo result" where
  "BuyNo_Unmarshal d =
     (case UnmarshalFrom (NewReader d MaxActionSize) BuyNo_type of
        (Inl e, _) \<Rightarrow> Inl e
      | (Inr v, _) \<Rightarrow> Inr (BuyNo_of_value v))"

definition BuyNo_MaxGas :: u64 where
  "BuyNo_MaxGas = 0"

section \<open>What the checks decide\<close>

lemma BuyNo_checkMarket_None: "BuyNo_checkMarket b ts m = None \<longleftrightarrow> tradable m ts"
  by (auto simp: BuyNo_checkMarket_def tradable_def i64_less_not_le)

lemma BuyNo_checkMarket_Some:
  "BuyNo_checkMarket b ts m = Some e \<Longrightarrow> errors_Is e ErrMarketInteraction \<and> \<not> tradable m ts"
  by (auto simp: BuyNo_checkMarket_def tradable_def i64_less_not_le split: if_splits)

section \<open>Refinement of the abstract exchange\<close>

context scoped_store
begin

lemma BuyNo_Execute_early:
  assumes "inv s" and "wf_contents (contents s)" and "wf_Address a"
    and "allowed s (BalanceKey a) PermRead" and "allowed s (MarketKey (bn_MarketID b)) PermRead"
    and f: "buy_fault NoShareType (bn_MarketID b) (bn_Amount b) (bn_MaxPrice b) ts a
      (abs_exchange (contents s)) = Some f" and "f \<noteq> ErrFieldNotPopulated"
  shows "\<exists>e. BuyNo_Execute mu b s ts a = (Inl e, s) \<and> errors_Is e f"
  using f assms(7)
  by (auto simp: buy_fault_def BuyNo_Execute_def read_market [OF assms(1,2,5)]
        read_balance [OF assms(1,2,4,3)] BuyNo_checkMarket_None Let_def
      dest!: BuyNo_checkMarket_Some
      split: if_splits option.splits)

lemma BuyNo_Execute_refines:
  assumes inv: "inv s" and wf: "wf_contents (contents s)" and a: "wf_Address a"
    and perm: "purchase_permitted NoShareType (bn_MarketID b) (bn_Amount b) a
      (contents s) (allowed s) roomy"
  shows "\<exists>r s'. BuyNo_Execute mu b s ts a = (r, s') \<and> inv s' \<and> allowed s' = allowed s \<and>
    purchase_refined NoShareType (bn_MarketID b) (bn_Amount b) (bn_MaxPrice b) ts a
      (contents s) r (contents s')"
proof (cases "buy_fault NoShareType (bn_MarketID b) (bn_Amount b) (bn_MaxPrice b) ts a
    (abs_exchange (contents s)) \<in> {None, Some ErrFieldNotPopulated}")
  case False
  then obtain f where f: "buy_fault NoShareType (bn_MarketID b) (bn_Amount b) (bn_MaxPrice b) ts a
      (abs_exchange (contents s)) = Some f" "f \<noteq> ErrFieldNotPopulated"
    by auto
  from BuyNo_Execute_early [OF inv wf a purchase_reads(1,2) [OF perm] f] f inv show ?thesis
    by (auto simp: purchase_refined_def split: option.splits)
next
  case True
  from inv wf a perm True show ?thesis
  proof (cases rule: purchase_run)
    case (zero m bal s1)
    moreover from zero
    have "\<exists>e. BuyNo_Execute mu b s ts a = (Inl e, s1) \<and> errors_Is e ErrFieldNotPopulated"
      by (simp add: BuyNo_Execute_def BuyNo_checkMarket_None [THEN iffD2] database_PackUInt64_def
            Let_def err_simps)
    ultimately show ?thesis by blast
  next
    case (ok m bal s1 s2 s3 k)
    moreover from ok have "BuyNo_Execute mu b s ts a = (Inr [], s3)"
      by (simp add: BuyNo_Execute_def BuyNo_checkMarket_None [THEN iffD2] database_PackUInt64_def
            Let_def add_total_sides)
    ultimately show ?thesis by blast
  qed
qed

end

context tracked_store
begin

lemma rel_BuyNo_Execute: "BuyNo_Execute mu b s ts a = (r, s') \<Longrightarrow> rel s s'"
  by (auto simp: BuyNo_Execute_def Let_def
      dest!: rel_insert' rel_SetShareBalance rel_SetMarket
      split: if_splits sum.splits option.splits prod.splits)
     (blast intro: rel_trans)+

end

section \<open>Round trip\<close>

lemma BuyNo_typed: "has_type BuyNo_type (BuyNo_value b)" "encodable (BuyNo_value b)"
  by (simp_all add: BuyNo_type_def BuyNo_value_def BuyNo_fields_def serialized_field_def
        all_serialized_def)

lemma BuyNo_of_value [simp]: "BuyNo_of_value (BuyNo_value b) = b"
  by (simp add: BuyNo_of_value_def BuyNo_value_def)

lemma enc_BuyNo:
  "enc (BuyNo_value b) = PutUint64 (bn_MarketID b) @ PutUint64 (bn_Amount b) @ PutUint64 (bn_MaxPrice b)"
  by (simp add: BuyNo_value_def)

lemma BuyNo_Bytes_eq:
  "BuyNo_Bytes b = PutUint64 (bn_MarketID b) @ PutUint64 (bn_Amount b) @ PutUint64 (bn_MaxPrice b)"
proof -
  have "length (enc (BuyNo_value b)) \<le> MaxActionSize"
    by (simp add: enc_BuyNo MaxActionSize_def)
  then show ?thesis
    using MarshalInto_NewWriter(1) [OF BuyNo_typed]
    by (simp add: BuyNo_Bytes_def enc_BuyNo NewWriter_def)
qed

lemma BuyNo_Unmarshal_Bytes: "BuyNo_Unmarshal (BuyNo_Bytes b @ r) = Inr b"
  using UnmarshalFrom_NewReader [OF BuyNo_typed, of b r MaxActionSize]
  by (simp add: BuyNo_Unmarshal_def BuyNo_Bytes_eq enc_BuyNo)

section \<open>Properties\<close>

text \<open>
  C9: buying NO shares refines the same abstract purchase as \<^verbatim>\<open>BuyYes\<close>, on the other kind of
  share, although the checks on the market come in another order and with other messages.
\<close>

theorem buy_no_refines_exchange:
  assumes "wf_contents (Storage s)" and "wf_Address a"
  shows "\<exists>r s'. BuyNo_Execute InMemoryStore_Mutable b s ts a = (r, s') \<and>
    purchase_refined NoShareType (bn_MarketID b) (bn_Amount b) (bn_MaxPrice b) ts a
      (Storage s) r (Storage s')"
  using mem.BuyNo_Execute_refines [of s a b ts] assms by simp

definition sample_buy_no :: BuyNo where
  "sample_buy_no = \<lparr>bn_MarketID = 7, bn_Amount = 20, bn_MaxPrice = 50\<rparr>"

theorem buy_no_refines_exchange_witness:
  "\<exists>s'. BuyNo_Execute InMemoryStore_Mutable sample_buy_no sample_store 50 sample_address = (Inr [], s') \<and>
    balance_of (abs_exchange (Storage s')) sample_address = Some 0 \<and>
    shares_of (abs_exchange (Storage s')) 7 sample_address NoShareType = Some 20 \<and>
    map_option TotalNoShares (market_of (abs_exchange (Storage s')) 7) = Some 20"
  using buy_no_refines_exchange [OF wf_sample_contents(2) wf_sample_address, of sample_buy_no 50]
  by (auto simp: purchase_refined_def buy_fault_def sample_store_def sample_buy_no_def abs_sample
        tradable_sample bought_def shares_after_def add_total_sides)
     (simp add: sample_market_def)

text \<open>
  The two buy actions accept a market at the same times: both let a purchase go on exactly when
  the market is not closed or resolved and its end time has not passed.
\<close>

theorem buy_guards_agree:
  "BuyYes_checkMarket b ts m = None \<longleftrightarrow> BuyNo_checkMarket c ts m = None"
  by (simp add: BuyYes_checkMarket_None BuyNo_checkMarket_None)

end
