(* ===== verification/CreateMarketAction.thy ===== *)
theory CreateMarketAction
  imports Exchange TState
begin

text \<open>
  The action that creates a market (\<^verbatim>\<open>actions/create_market_action.go\<close>). The randomness of
  \<^verbatim>\<open>crypto/rand\<close> is a parameter: the 32 bytes it fills in, or its error. Shown, over any
  \<open>scoped_store\<close>: exactly which actions are accepted and what they store, and exactly which
  actions have bytes and are read back.
\<close>

section \<open>The action\<close>

definition CreateMarketComputeUnits :: u64 where
  "CreateMarketComputeUnits = 2000"

definition MaxCreateMarketSize :: nat where
  "MaxCreateMarketSize = 1024"

record CreateMarket =
  cm_Description :: bytes
  cm_EndTime :: i64
  cm_ResolutionTime :: i64
  cm_OracleType :: u8
  cm_OracleSource :: bytes
  cm_OracleParameters :: bytes

definition CreateMarket_GetTypeID :: u8 where
  "CreateMarket_GetTypeID = CreateMarketID"

definition CreateMarket_fields :: "field_tag list" where
  "CreateMarket_fields = map serialized_field
     [''Description'', ''EndTime'', ''ResolutionTime'', ''OracleType'', ''OracleSource'',
      ''OracleParameters'']"

definition CreateMarket_type :: gotype where
  "CreateMarket_type = TStruct CreateMarket_fields
     [TString, TInt64, TInt64, TUint8, TString, TSlice TUint8]"

definition CreateMarket_value :: "CreateMarket \<Rightarrow> govalue" where
  "CreateMarket_value cm = VStruct CreateMarket_fields
     [VString (cm_Description cm), VInt64 (cm_EndTime cm), VInt64 (cm_ResolutionTime cm),
      VUint8 (cm_OracleType cm), VString (cm_OracleSource cm),
      VSlice TUint8 (map VUint8 (cm_OracleParameters cm))]"

definition CreateMarket_of_value :: "govalue \<Rightarrow> CreateMarket" where
  "CreateMarket_of_value v =
     (let f = (\<lambda>i. fields_of v ! i) in
      \<lparr>cm_Description = bytes_of (f 0), cm_EndTime = u64_of (f 1), cm_ResolutionTime = u64_of (f 2),
       cm_OracleType = byte_of (f 3), cm_OracleSource = bytes_of (f 4),
       cm_OracleParameters = bytes_of (f 5)\<rparr>)"

text \<open>\<open>Inl\<close> is the panic with its error.\<close>

definition CreateMarket_Bytes :: "CreateMarket \<Rightarrow> bytes result" where
  "CreateMarket_Bytes cm =
     (let p0 = \<lparr>Err = None, MaxSize = MaxCreateMarketSize, Bytes = [], Offset = 0\<rparr>;
          p1 = PackByte CreateMarketID p0 in
      case MarshalInto (CreateMarket_value cm) p1 of
        (Some err, _) \<Rightarrow> Inl (Wrapf ''failed to marshal CreateMarket action: %w'' [] err)
      | (None, p) \<Rightarrow> Inr (Bytes p))"

definition UnmarshalCreateMarket :: "bytes \<Rightarrow> CreateMarket result" where
  "UnmarshalCreateMarket bs =
     (if length bs = 0 then Inl (Sentinel ErrUnmarshalEmptyCreateMarket)
      else if bs ! 0 \<noteq> CreateMarketID
      then Inl (Errorf ''unexpected CreateMarket typeID: %d != %d'' [FU8 (bs ! 0), FU8 CreateMarketID])
      else case UnmarshalFrom \<lparr>Err = None, MaxSize = 0, Bytes = drop 1 bs, Offset = 0\<rparr>
                  CreateMarket_type of
        (Inl err, _) \<Rightarrow> Inl (Wrapf ''failed to unmarshal CreateMarket action: %w'' [] err)
      | (Inr v, _) \<Rightarrow> Inr (CreateMarket_of_value v))"

definition CreateMarket_StateKeys :: "Address \<Rightarrow> Keys" where
  "CreateMarket_StateKeys actor =
     [(StateKeysBalance actor, PermWrite), ([MarketPrefix], PermWrite)]"

text \<open>The validation of the input, in the order of the code.\<close>

definition CreateMarket_validate :: "CreateMarket \<Rightarrow> i64 \<Rightarrow> go_error option" where
  "CreateMarket_validate cm timestamp =
     (if length (cm_Description cm) = 0 then Some (ErrNew ''market description cannot be empty'')
      else if length (cm_Description cm) > 256 then Some (Sentinel ErrDescriptionTooLong)
      else if length (cm_OracleSource cm) > 256 then Some (Sentinel ErrOracleSourceTooLong)
      else if length (cm_OracleParameters cm) > 512 then Some (Sentinel ErrOracleParametersTooLong)
      else if i64_le (cm_EndTime cm) timestamp then Some (Sentinel ErrEndTimeInPast)
      else if i64_le (cm_ResolutionTime cm) (cm_EndTime cm)
      then Some (Sentinel ErrResolutionTimeBeforeEndTime)
      else None)"

definition new_market :: "CreateMarket \<Rightarrow> u64 \<Rightarrow> Address \<Rightarrow> Market" where
  "new_market cm marketIDUint64 actor =
     \<lparr>market_ID = marketIDUint64, market_Description = cm_Description cm,
      market_Status = MarketStatus_Open, market_Creator = actor, market_EndTime = cm_EndTime cm,
      market_ResolutionTime = cm_ResolutionTime cm, TotalYesShares = 0, TotalNoShares = 0,
      market_OracleType = cm_OracleType cm, market_OracleSource = cm_OracleSource cm,
      market_OracleParameters = cm_OracleParameters cm, ResolvedOutcome = Outcome_Pending\<rparr>"

definition created_message :: "(bytes \<Rightarrow> bytes) \<Rightarrow> u64 \<Rightarrow> Address \<Rightarrow> bytes" where
  "created_message sha256 marketID actor =
     bytes_of_string (''Market '' @ decimal (unat marketID) @ '' created successfully by '' @
       Address_String sha256 actor)"

definition CreateMarket_Execute ::
  "(bytes \<Rightarrow> bytes) \<Rightarrow> bytes result \<Rightarrow> 's state_Mutable \<Rightarrow> CreateMarket \<Rightarrow> 's \<Rightarrow> i64 \<Rightarrow> Address \<Rightarrow>
   bytes result \<times> 's" where
  "CreateMarket_Execute sha256 rand mu cm s timestamp actor =
     (case CreateMarket_validate cm timestamp of
        Some e \<Rightarrow> (Inl e, s)
      | None \<Rightarrow>
       (case rand of
          Inl err \<Rightarrow>
            (Inl (Wrapf ''failed to generate random bytes for market ID: %w'' [] err), s)
        | Inr randomBytes \<Rightarrow>
         (case ToID randomBytes of
            Inl err \<Rightarrow>
              (Inl (Wrapf ''failed to convert random bytes to market ID: %w'' [] err), s)
          | Inr marketID \<Rightarrow>
             (let market = new_market cm (Uint64 (take 8 marketID)) actor in
              case SetMarket mu s market of
                (Some err, s1) \<Rightarrow>
                  (Inl (Wrapf ''failed to set new market %d: %w'' [FU64 (market_ID market)] err), s1)
              | (None, s1) \<Rightarrow>
                  (Inr (created_message sha256 (market_ID market) actor), s1)))))"

definition CreateMarket_ComputeUnits :: u64 where
  "CreateMarket_ComputeUnits = CreateMarketComputeUnits"

definition CreateMarket_ValidRange :: "i64 \<times> i64" where
  "CreateMarket_ValidRange = (- 1, - 1)"

section \<open>The abstract operation\<close>

definition market_created :: "Market \<Rightarrow> exchange \<Rightarrow> exchange" where
  "market_created m x = x\<lparr>market_of := (market_of x)(market_ID m \<mapsto> m)\<rparr>"

definition cm_size :: "CreateMarket \<Rightarrow> nat" where
  "cm_size cm = length (cm_Description cm) + length (cm_OracleSource cm) +
     length (cm_OracleParameters cm)"

text \<open>
  What is wrong with a request at the time \<open>now\<close>: the first of its faults, read off a table. The market
  that a request without faults opens has no shares and no outcome yet.
\<close>

definition create_faults :: "CreateMarket \<Rightarrow> int \<Rightarrow> (bool \<times> go_error) list" where
  "create_faults cm now =
     [(cm_Description cm = [], ErrNew ''market description cannot be empty''),
      (\<not> length (cm_Description cm) \<le> 256, Sentinel ErrDescriptionTooLong),
      (\<not> length (cm_OracleSource cm) \<le> 256, Sentinel ErrOracleSourceTooLong),
      (\<not> length (cm_OracleParameters cm) \<le> 512, Sentinel ErrOracleParametersTooLong),
      (\<not> now < sint (cm_EndTime cm), Sentinel ErrEndTimeInPast),
      (\<not> sint (cm_EndTime cm) < sint (cm_ResolutionTime cm), Sentinel ErrResolutionTimeBeforeEndTime)]"

definition create_fault :: "CreateMarket \<Rightarrow> int \<Rightarrow> go_error option" where
  "create_fault cm now = map_option snd (find fst (create_faults cm now))"

lemma validate_create_fault: "CreateMarket_validate cm ts = create_fault cm (sint ts)"
  by (simp add: CreateMarket_validate_def create_fault_def create_faults_def i64_le_def not_le not_less)

lemma CreateMarket_validate_sizes:
  "CreateMarket_validate cm ts = None \<Longrightarrow>
   length (cm_Description cm) \<le> 256 \<and> length (cm_OracleSource cm) \<le> 256 \<and>
   length (cm_OracleParameters cm) \<le> 512"
  by (auto simp: CreateMarket_validate_def split: if_splits)

lemma wf_new_market:
  "CreateMarket_validate cm ts = None \<Longrightarrow> wf_Address a \<Longrightarrow> wf_Market (new_market cm i a)"
  using CreateMarket_validate_sizes [of cm ts]
  by (auto simp: wf_Market_def new_market_def MaxStringLen_def MaxInt32_def)

lemma new_market_sel [simp]:
  "market_ID (new_market cm i a) = i" "market_size (new_market cm i a) = 84 + cm_size cm"
  by (simp_all add: new_market_def market_size_def cm_size_def)

text \<open>
  A market that was just created can be traded at the time of its creation and up to its end.
\<close>

lemma tradable_new_market:
  "CreateMarket_validate cm ts = None \<Longrightarrow> tradable (new_market cm i a) ts"
  by (auto simp: tradable_def new_market_def CreateMarket_validate_def MarketStatus_Open_def
        MarketStatus_TradingClosed_def MarketStatus_ResolvedYes_def MarketStatus_ResolvedNo_def
        i64_le_def split: if_splits)

context scoped_store
begin

text \<open>
  An action whose input is valid is carried out when its strings take at most 940 bytes together,
  and fails otherwise: the market's own limit is tighter than the three limits of the validation.
\<close>

lemma CreateMarket_Execute_ok:
  assumes "inv s" and "wf_Address a" and v: "CreateMarket_validate cm ts = None"
    and r: "length rb = IDLen" and size: "cm_size cm \<le> 940"
    and ins: "writable (contents s) (allowed s) (MarketKey (Uint64 (take 8 rb)))"
      "roomy (MarketKey (Uint64 (take 8 rb))) (enc_market (new_market cm (Uint64 (take 8 rb)) a))"
  shows "\<exists>s'. CreateMarket_Execute sha256 (Inr rb) mu cm s ts a =
      (Inr (created_message sha256 (Uint64 (take 8 rb)) a), s') \<and> inv s' \<and> allowed s' = allowed s \<and>
    contents s' = (contents s)(MarketKey (Uint64 (take 8 rb)) \<mapsto>
      enc_market (new_market cm (Uint64 (take 8 rb)) a))"
proof -
  let ?m = "new_market cm (Uint64 (take 8 rb)) a"
  have "wf_Market ?m" "market_size ?m \<le> MaxMarketDataSize"
    using wf_new_market [OF v assms(2)] size by (simp_all add: MaxMarketDataSize_def)
  from SetMarket_ok [OF assms(1) this] ins v r show ?thesis
    by (auto simp: CreateMarket_Execute_def ToID_ok insertable_writable Let_def)
qed

lemma CreateMarket_Execute_too_big:
  assumes "wf_Address a" and v: "CreateMarket_validate cm ts = None"
    and r: "length rb = IDLen" and size: "cm_size cm > 940"
  shows "\<exists>e. CreateMarket_Execute sha256 (Inr rb) mu cm s ts a = (Inl e, s) \<and>
    errors_Is e ErrInsufficientLength"
proof -
  let ?m = "new_market cm (Uint64 (take 8 rb)) a"
  have "wf_Market ?m" "market_size ?m > MaxMarketDataSize"
    using wf_new_market [OF v assms(1)] size by (simp_all add: MaxMarketDataSize_def)
  from SetMarket_too_big [OF this, of mu s] v r show ?thesis
    by (simp add: CreateMarket_Execute_def ToID_ok market_too_big_def Let_def)
qed

lemma CreateMarket_Execute_refines:
  assumes "inv s" and wf: "wf_contents (contents s)" and "wf_Address a"
    and v: "CreateMarket_validate cm ts = None"
    and "length rb = IDLen" and "cm_size cm \<le> 940"
    and "writable (contents s) (allowed s) (MarketKey (Uint64 (take 8 rb)))"
    and "roomy (MarketKey (Uint64 (take 8 rb))) (enc_market (new_market cm (Uint64 (take 8 rb)) a))"
  shows "\<exists>s' out. CreateMarket_Execute sha256 (Inr rb) mu cm s ts a = (Inr out, s') \<and> inv s' \<and>
    wf_contents (contents s') \<and>
    abs_exchange (contents s') =
      market_created (new_market cm (Uint64 (take 8 rb)) a) (abs_exchange (contents s))"
proof -
  let ?m = "new_market cm (Uint64 (take 8 rb)) a"
  have m: "wf_Market ?m" "market_size ?m \<le> MaxMarketDataSize"
    using wf_new_market [OF v assms(3)] assms(6) by (simp_all add: MaxMarketDataSize_def)
  from CreateMarket_Execute_ok [OF assms(1,3-8), of sha256] wf_contents_market [OF wf m]
    abs_market_update [OF m(1), of "contents s"]
  show ?thesis by (auto simp: market_created_def)
qed

end

context tracked_store
begin

lemma rel_CreateMarket_Execute:
  "CreateMarket_Execute sha256 rand mu cm s ts a = (r, s') \<Longrightarrow> rel s s'"
  by (auto simp: CreateMarket_Execute_def Let_def dest: rel_SetMarket
      split: sum.splits option.splits prod.splits)

end

section \<open>Round trip\<close>

lemma CreateMarket_typed: "has_type CreateMarket_type (CreateMarket_value cm)"
  by (simp add: CreateMarket_type_def CreateMarket_value_def CreateMarket_fields_def
        serialized_field_def all_serialized_def)

lemma CreateMarket_encodable:
  "cm_size cm \<le> MaxStringLen \<Longrightarrow> encodable (CreateMarket_value cm)"
  by (simp add: CreateMarket_value_def cm_size_def MaxStringLen_def MaxInt32_def)

lemma CreateMarket_of_value_value [simp]: "CreateMarket_of_value (CreateMarket_value cm) = cm"
  by (simp add: CreateMarket_of_value_def CreateMarket_value_def)

lemma length_enc_CreateMarket: "length (enc (CreateMarket_value cm)) = 25 + cm_size cm"
  by (simp add: CreateMarket_value_def enc_str_def cm_size_def)

definition cm_writer :: Packer where
  "cm_writer = \<lparr>Err = None, MaxSize = MaxCreateMarketSize, Bytes = [], Offset = 0\<rparr>"

lemma PackByte_cm_writer: "PackByte CreateMarketID cm_writer = appended [4] cm_writer"
  by (simp add: byte_field.pack_fits fresh_writer_def fits_def cm_writer_def MaxCreateMarketSize_def)

lemma CreateMarket_Bytes_encodable:
  assumes "encodable (CreateMarket_value cm)"
  shows "CreateMarket_Bytes cm =
    (if cm_size cm \<le> 998 then Inr (4 # enc (CreateMarket_value cm))
     else Inl (Wrapf ''failed to marshal CreateMarket action: %w'' [] (Sentinel ErrInsufficientLength)))"
proof -
  let ?p = "appended [4] cm_writer"
  have f: "fresh_writer ?p" by (simp add: fresh_writer_def cm_writer_def)
  have w: "writes (MarshalInto (CreateMarket_value cm)) (enc (CreateMarket_value cm))"
    by (rule MarshalInto_writes [OF CreateMarket_typed assms])
  have fits: "fits (enc (CreateMarket_value cm)) ?p \<longleftrightarrow> cm_size cm \<le> 998"
    using length_enc_CreateMarket [of cm]
    by (auto simp: fits_def cm_writer_def MaxCreateMarketSize_def)
  have "CreateMarket_Bytes cm =
      (case MarshalInto (CreateMarket_value cm) ?p of
         (Some err, _) \<Rightarrow> Inl (Wrapf ''failed to marshal CreateMarket action: %w'' [] err)
       | (None, p) \<Rightarrow> Inr (Bytes p))"
    unfolding CreateMarket_Bytes_def Let_def cm_writer_def [symmetric] PackByte_cm_writer ..
  with w f show ?thesis
    by (cases rule: writes_cases) (simp_all add: fits, simp add: cm_writer_def)
qed

lemmas CreateMarket_Bytes_eq = CreateMarket_Bytes_encodable [OF CreateMarket_encodable]

text \<open>Strings and slices too long for their length field are refused, so only encodable actions have bytes.\<close>

lemma marshal_seq_None: "marshal_seq ms p = (None, p') \<Longrightarrow> m \<in> set ms \<Longrightarrow> \<exists>q q'. m q = (None, q')"
  by (induction ms arbitrary: p) (auto split: prod.splits option.splits)

lemma marshal_VString_None: "marshal (VString s) p = (None, p') \<Longrightarrow> length s \<le> MaxStringLen"
  by (auto simp: return_Err_def PackStr_def Errs_Add_def split: if_splits)

lemma marshal_VSlice_None: "marshal (VSlice t vs) p = (None, p') \<Longrightarrow> length vs \<le> MaxInt32"
  by (auto simp: Let_def split: if_splits)

lemma CreateMarket_marshalled:
  assumes "MarshalInto (CreateMarket_value cm) p = (None, p')"
  shows "encodable (CreateMarket_value cm)"
proof -
  have "CreateMarket_value cm = VStruct CreateMarket_fields (fields_of (CreateMarket_value cm))"
    by (simp add: CreateMarket_value_def)
  moreover have "GetSerializedFields CreateMarket_fields = Inr [0..<6]"
    by (simp add: CreateMarket_fields_def serialized_field_def all_serialized_def upt_rec)
  ultimately have "marshal_seq (map marshal (fields_of (CreateMarket_value cm))) p = (None, p')"
    using assms by (simp add: MarshalInto_def CreateMarket_value_def upt_rec numeral_eq_Suc)
  note m = marshal_seq_None [OF this]
  have "length (cm_Description cm) \<le> MaxStringLen" "length (cm_OracleSource cm) \<le> MaxStringLen"
    using m [of "marshal (VString (cm_Description cm))"] m [of "marshal (VString (cm_OracleSource cm))"] marshal_VString_None
    by (fastforce simp: CreateMarket_value_def simp del: marshal.simps)+
  moreover have "length (cm_OracleParameters cm) \<le> MaxInt32"
    using m [of "marshal (VSlice TUint8 (map VUint8 (cm_OracleParameters cm)))"] marshal_VSlice_None
    by (fastforce simp: CreateMarket_value_def simp del: marshal.simps)
  ultimately show ?thesis by (simp add: CreateMarket_value_def)
qed

lemma CreateMarket_Bytes_cases:
  obtains (bytes) bs where "cm_size cm \<le> 998" "CreateMarket_Bytes cm = Inr bs" "length bs = 26 + cm_size cm"
  | (panics) e where "998 < cm_size cm"
      "CreateMarket_Bytes cm = Inl (Wrapf ''failed to marshal CreateMarket action: %w'' [] e)"
proof (cases "CreateMarket_Bytes cm")
  case (Inl e)
  then obtain e' where "e = Wrapf ''failed to marshal CreateMarket action: %w'' [] e'"
    by (auto simp: CreateMarket_Bytes_def Let_def split: prod.splits option.splits)
  moreover have "998 < cm_size cm"
    using Inl CreateMarket_Bytes_eq [of cm] by (cases "cm_size cm \<le> 998") (simp_all add: MaxStringLen_def)
  ultimately show thesis using panics Inl by blast
next
  case (Inr bs)
  then have e: "encodable (CreateMarket_value cm)"
    by (auto simp: CreateMarket_Bytes_def Let_def intro: CreateMarket_marshalled split: prod.splits option.splits)
  from Inr show thesis using bytes CreateMarket_Bytes_encodable [OF e] length_enc_CreateMarket [of cm] by (auto split: if_splits)
qed

lemma UnmarshalCreateMarket_Bytes:
  assumes "CreateMarket_Bytes cm = Inr bs" and "cm_size cm \<le> MaxStringLen"
  shows "UnmarshalCreateMarket bs = Inr cm"
proof -
  have bs: "bs = 4 # enc (CreateMarket_value cm)"
    using assms by (simp add: CreateMarket_Bytes_eq split: if_splits)
  have "UnmarshalFrom (NewReader (enc (CreateMarket_value cm) @ []) 0) CreateMarket_type =
      (Inr (CreateMarket_value cm), advance (length (enc (CreateMarket_value cm)))
         (NewReader (enc (CreateMarket_value cm) @ []) 0))"
    by (rule UnmarshalFrom_NewReader [OF CreateMarket_typed CreateMarket_encodable [OF assms(2)]])
  then show ?thesis
    by (simp add: UnmarshalCreateMarket_def bs NewReader_def)
qed

section \<open>Properties\<close>

text \<open>
  C11: executing \<^verbatim>\<open>CreateMarket\<close> on the in-memory store, all branches. A faulty request returns the first
  error of the table and changes nothing, and so does a failure of the random source. Otherwise, when
  description, source and parameters take at most 940 bytes together, a market as requested, open,
  without shares and pending, is stored under the first eight random bytes, nothing else changes, and
  the message names market and creator; above 940 bytes the action fails although its input passed
  the checks, and nothing is stored. The random source fills 32 bytes.
\<close>

theorem create_market_outcome:
  assumes "wf_contents (Storage s)" and "wf_Address a" and "\<And>rb. rand = Inr rb \<Longrightarrow> length rb = IDLen"
  shows "case create_fault cm (sint ts) of
      Some e \<Rightarrow> CreateMarket_Execute sha256 rand InMemoryStore_Mutable cm s ts a = (Inl e, s)
    | None \<Rightarrow>
       (case rand of
          Inl e \<Rightarrow> CreateMarket_Execute sha256 rand InMemoryStore_Mutable cm s ts a =
            (Inl (Wrapf ''failed to generate random bytes for market ID: %w'' [] e), s)
        | Inr rb \<Rightarrow>
           if length (cm_Description cm) + length (cm_OracleSource cm) + length (cm_OracleParameters cm) \<le> 940
           then \<exists>s'. CreateMarket_Execute sha256 rand InMemoryStore_Mutable cm s ts a =
               (Inr (bytes_of_string (''Market '' @ decimal (unat (Uint64 (take 8 rb))) @
                   '' created successfully by '' @ Address_String sha256 a)), s') \<and>
             wf_contents (Storage s') \<and>
             (\<forall>k. k \<noteq> MarketKey (Uint64 (take 8 rb)) \<longrightarrow> Storage s' k = Storage s k) \<and>
             abs_exchange (Storage s') = market_created
               \<lparr>market_ID = Uint64 (take 8 rb), market_Description = cm_Description cm,
                market_Status = MarketStatus_Open, market_Creator = a, market_EndTime = cm_EndTime cm,
                market_ResolutionTime = cm_ResolutionTime cm, TotalYesShares = 0, TotalNoShares = 0,
                market_OracleType = cm_OracleType cm, market_OracleSource = cm_OracleSource cm,
                market_OracleParameters = cm_OracleParameters cm, ResolvedOutcome = Outcome_Pending\<rparr>
               (abs_exchange (Storage s))
           else \<exists>e. CreateMarket_Execute sha256 rand InMemoryStore_Mutable cm s ts a = (Inl e, s) \<and>
             errors_Is e ErrInsufficientLength)"
proof (cases "create_fault cm (sint ts)")
  case None
  then have v: "CreateMarket_validate cm ts = None" by (simp add: validate_create_fault)
  show ?thesis
  proof (cases rand)
    case (Inl e)
    then show ?thesis using None v by (simp add: CreateMarket_Execute_def)
  next
    case (Inr rb)
    then have rb: "length rb = IDLen" by (rule assms(3))
    let ?m = "new_market cm (Uint64 (take 8 rb)) a"
    show ?thesis
    proof (cases "cm_size cm \<le> 940")
      case True
      obtain s' where s': "CreateMarket_Execute sha256 rand InMemoryStore_Mutable cm s ts a =
            (Inr (created_message sha256 (Uint64 (take 8 rb)) a), s')"
          "Storage s' = (Storage s)(MarketKey (Uint64 (take 8 rb)) \<mapsto> enc_market ?m)"
        using mem.CreateMarket_Execute_ok [where s = s and a = a and cm = cm and ts = ts and rb = rb] assms(2) v rb True by (auto simp: Inr writable_def)
      moreover have "wf_contents (Storage s') \<and> abs_exchange (Storage s') = market_created ?m (abs_exchange (Storage s))"
        using mem.CreateMarket_Execute_refines [of s a cm ts rb sha256] assms(1,2) v rb True s'(1)
        by (auto simp: Inr writable_def)
      ultimately show ?thesis
        using None True by (simp add: Inr created_message_def new_market_def cm_size_def)
    next
      case False
      then show ?thesis
        using mem.CreateMarket_Execute_too_big [OF assms(2) v rb, where s = s] None False by (simp add: Inr cm_size_def)
    qed
  qed
qed (simp add: CreateMarket_Execute_def validate_create_fault)

definition sample_create :: CreateMarket where
  "sample_create = \<lparr>cm_Description = bytes_of_string ''Will it rain?'', cm_EndTime = 100,
     cm_ResolutionTime = 200, cm_OracleType = 0, cm_OracleSource = [], cm_OracleParameters = []\<rparr>"

theorem create_market_outcome_witness:
  "\<exists>s'. CreateMarket_Execute (\<lambda>_. replicate 32 0) (Inr (PutUint64 9 @ replicate 24 0)) InMemoryStore_Mutable
      sample_create sample_store 50 sample_address =
      (Inr (bytes_of_string (''Market 9 created successfully by '' @ Address_String (\<lambda>_. replicate 32 0) sample_address)), s') \<and>
    map_option market_EndTime (market_of (abs_exchange (Storage s')) 9) = Some 100 \<and>
    market_of (abs_exchange (Storage s')) 7 = Some sample_market"
proof -
  have "create_fault sample_create (sint (50 :: i64)) = None"
    by (simp add: create_fault_def create_faults_def sample_create_def bytes_of_string_def)
  then show ?thesis
    using create_market_outcome [OF wf_sample_contents(2) wf_sample_address, where rand = "Inr (PutUint64 9 @ replicate 24 0)"
        and cm = sample_create and ts = 50 and ?sha256.0 = "\<lambda>_. replicate 32 0"]
    by (auto simp: IDLen_def abs_sample sample_store_def sample_create_def bytes_of_string_def market_created_def decimal.simps [of 9])
qed

text \<open>
  The random identifier of a new market is not checked against the markets already stored: the
  new market replaces a market of the same identifier, whatever shares were sold on it.
\<close>

theorem create_market_overwrites:
  assumes "wf_contents (Storage s)" and "wf_Address a" and "length rb = IDLen"
    and "CreateMarket_validate cm ts = None" and "cm_size cm \<le> 940"
  shows "\<exists>out s'. CreateMarket_Execute sha256 (Inr rb) InMemoryStore_Mutable cm s ts a = (Inr out, s') \<and>
    wf_contents (Storage s') \<and>
    market_of (abs_exchange (Storage s')) (Uint64 (take 8 rb)) =
      Some (new_market cm (Uint64 (take 8 rb)) a)"
  using mem.CreateMarket_Execute_refines [of s a cm ts rb sha256] assms
  by (auto simp: writable_def market_created_def)

theorem create_market_overwrites_witness:
  "\<exists>out s'. CreateMarket_Execute (\<lambda>_. replicate 32 0) (Inr (PutUint64 7 @ replicate 24 0))
      InMemoryStore_Mutable sample_create sample_store 50 sample_address = (Inr out, s') \<and>
    market_of (abs_exchange (Storage sample_store)) 7 = Some sample_market \<and>
    market_of (abs_exchange (Storage s')) 7 = Some (new_market sample_create 7 sample_address)"
proof -
  have "CreateMarket_validate sample_create 50 = None" "cm_size sample_create \<le> 940"
    by (simp_all add: CreateMarket_validate_def sample_create_def cm_size_def bytes_of_string_def
          i64_le_def)
  from create_market_overwrites [OF wf_sample_contents(2) wf_sample_address _ this,
      of "PutUint64 7 @ replicate 24 0" "\<lambda>_. replicate 32 0"]
  show ?thesis by (auto simp: IDLen_def abs_sample sample_store_def)
qed

text \<open>
  C27: a \<^verbatim>\<open>CreateMarket\<close> action has bytes exactly when its strings take at most 998 bytes together: then it
  is written in 26 bytes more than that and read back; above that serializing it panics.
\<close>

theorem create_market_bytes:
  "if length (cm_Description cm) + length (cm_OracleSource cm) + length (cm_OracleParameters cm) \<le> 998
   then \<exists>bs. CreateMarket_Bytes cm = Inr bs \<and> length bs = 26 + cm_size cm \<and> UnmarshalCreateMarket bs = Inr cm
   else \<exists>e. CreateMarket_Bytes cm = Inl (Wrapf ''failed to marshal CreateMarket action: %w'' [] e)"
proof (cases cm rule: CreateMarket_Bytes_cases)
  case (bytes bs)
  then have "UnmarshalCreateMarket bs = Inr cm"
    by (intro UnmarshalCreateMarket_Bytes) (simp_all add: MaxStringLen_def)
  with bytes show ?thesis by (simp add: cm_size_def)
qed (auto simp: cm_size_def)

end
