(* ===== verification/Fees.thy ===== *)
theory Fees
  imports Packing "HOL-Library.Signed_Division"
begin

text \<open>
  The fee machinery of hypersdk a transaction is charged with: checked arithmetic
  (\<^verbatim>\<open>utils/math\<close>, \<^verbatim>\<open>internal/math\<close>), the five fee dimensions (\<^verbatim>\<open>fees\<close>), the
  consumption window (\<^verbatim>\<open>internal/window\<close>) and the fee manager (\<^verbatim>\<open>internal/fees\<close>).
  Shown: the checked operations are exact, a fee is the exact sum of price times units or an
  overflow error, consuming units is all or nothing, and the next price moves the right way and
  never below the minimum. Byte offsets of the manager are the source's; its lock only serializes
  the operations and is not modelled.
\<close>

section \<open>Checked arithmetic\<close>

definition MaxUint64 :: u64 where
  "MaxUint64 = NOT 0"

definition safe_Add :: "u64 \<Rightarrow> u64 \<Rightarrow> u64 result" where
  "safe_Add a b = (if a > MaxUint64 - b then Inl (Sentinel ErrOverflow) else Inr (a + b))"

definition safe_Sub :: "u64 \<Rightarrow> u64 \<Rightarrow> u64 result" where
  "safe_Sub a b = (if a < b then Inl (Sentinel ErrUnderflow) else Inr (a - b))"

definition safe_Mul :: "u64 \<Rightarrow> u64 \<Rightarrow> u64 result" where
  "safe_Mul a b =
     (if b \<noteq> 0 \<and> a > MaxUint64 div b then Inl (Sentinel ErrOverflow) else Inr (a * b))"

definition AbsDiff :: "u64 \<Rightarrow> u64 \<Rightarrow> u64" where
  "AbsDiff a b = max a b - min a b"

record Uint64Operator =
  uop_v :: u64
  uop_err :: "go_error option"

definition NewUint64Operator :: "u64 \<Rightarrow> Uint64Operator" where
  "NewUint64Operator v = \<lparr>uop_v = v, uop_err = None\<rparr>"

definition uop_Add :: "u64 \<Rightarrow> Uint64Operator \<Rightarrow> Uint64Operator" where
  "uop_Add n oper =
     (if uop_err oper \<noteq> None then oper
      else case safe_Add (uop_v oper) n of
        Inl err \<Rightarrow> oper\<lparr>uop_err := Some err\<rparr>
      | Inr nv \<Rightarrow> oper\<lparr>uop_v := nv\<rparr>)"

definition uop_Mul :: "u64 \<Rightarrow> Uint64Operator \<Rightarrow> Uint64Operator" where
  "uop_Mul n oper =
     (if uop_err oper \<noteq> None then oper
      else case safe_Mul (uop_v oper) n of
        Inl err \<Rightarrow> oper\<lparr>uop_err := Some err\<rparr>
      | Inr nv \<Rightarrow> oper\<lparr>uop_v := nv\<rparr>)"

definition uop_MulAdd :: "u64 \<Rightarrow> u64 \<Rightarrow> Uint64Operator \<Rightarrow> Uint64Operator" where
  "uop_MulAdd a b oper =
     (if uop_err oper \<noteq> None then oper
      else case safe_Mul a b of
        Inl err \<Rightarrow> oper\<lparr>uop_err := Some err\<rparr>
      | Inr pv \<Rightarrow>
          (case safe_Add (uop_v oper) pv of
             Inl err \<Rightarrow> oper\<lparr>uop_err := Some err\<rparr>
           | Inr nv \<Rightarrow> oper\<lparr>uop_v := nv\<rparr>))"

definition uop_Value :: "Uint64Operator \<Rightarrow> u64 result" where
  "uop_Value oper = (case uop_err oper of Some e \<Rightarrow> Inl e | None \<Rightarrow> Inr (uop_v oper))"

section \<open>fees/dimension.go\<close>

definition FeeDimensions :: nat where
  "FeeDimensions = 5"

definition DimensionsLen :: nat where
  "DimensionsLen = 8 * FeeDimensions"

text \<open>\<^verbatim>\<open>[FeeDimensions]uint64\<close>.\<close>

type_synonym Dimensions = "u64 list"

definition wf_Dimensions :: "Dimensions \<Rightarrow> bool" where
  "wf_Dimensions d \<longleftrightarrow> length d = FeeDimensions"

fun dims_Add_loop :: "u64 list \<Rightarrow> u64 list \<Rightarrow> Dimensions result" where
  "dims_Add_loop (a # as) (b # bs) =
     (case safe_Add a b of
        Inl err \<Rightarrow> Inl err
      | Inr v \<Rightarrow> (case dims_Add_loop as bs of Inl err \<Rightarrow> Inl err | Inr d \<Rightarrow> Inr (v # d)))"
| "dims_Add_loop _ _ = Inr []"

definition fees_Add :: "Dimensions \<Rightarrow> Dimensions \<Rightarrow> Dimensions result" where
  "fees_Add a b = dims_Add_loop a b"

fun MulSum_loop :: "u64 \<Rightarrow> u64 list \<Rightarrow> u64 list \<Rightarrow> u64 result" where
  "MulSum_loop val (a # as) (b # bs) =
     (case safe_Mul a b of
        Inl err \<Rightarrow> Inl err
      | Inr v \<Rightarrow>
          (case safe_Add val v of
             Inl err \<Rightarrow> Inl err
           | Inr newVal \<Rightarrow> MulSum_loop newVal as bs))"
| "MulSum_loop val _ _ = Inr val"

definition MulSum :: "Dimensions \<Rightarrow> Dimensions \<Rightarrow> u64 result" where
  "MulSum a b = MulSum_loop 0 a b"

text \<open>The method has a value receiver: it only tells whether the addition would overflow.\<close>

definition Dimensions_Add :: "Dimensions \<Rightarrow> nat \<Rightarrow> u64 \<Rightarrow> go_error option" where
  "Dimensions_Add d i v = (case safe_Add (d ! i) v of Inl err \<Rightarrow> Some err | Inr _ \<Rightarrow> None)"

fun CanAdd :: "Dimensions \<Rightarrow> Dimensions \<Rightarrow> Dimensions \<Rightarrow> bool" where
  "CanAdd (d # ds) (a # as) (l # ls) =
     (case safe_Add d a of
        Inl _ \<Rightarrow> False
      | Inr consumed \<Rightarrow> if consumed > l then False else CanAdd ds as ls)"
| "CanAdd _ _ _ = True"

definition Dimensions_Bytes :: "Dimensions \<Rightarrow> bytes" where
  "Dimensions_Bytes d =
     fold (\<lambda>i bs. copy_at (i * 8) (PutUint64 (d ! i)) bs) [0..<FeeDimensions] (replicate DimensionsLen 0)"

fun Dimensions_Greater :: "Dimensions \<Rightarrow> Dimensions \<Rightarrow> bool" where
  "Dimensions_Greater (d # ds) (p # ps) = (if d < p then False else Dimensions_Greater ds ps)"
| "Dimensions_Greater _ _ = True"

definition UnpackDimensions :: "bytes \<Rightarrow> Dimensions result" where
  "UnpackDimensions raw =
     (if length raw \<noteq> DimensionsLen
      then Inl (Wrapf ''%w: found=%d wanted=%d'' [FNat (length raw), FNat DimensionsLen]
                  (Sentinel ErrWrongDimensionSize))
      else Inr (map (\<lambda>i. Uint64 (drop (i * 8) raw)) [0..<FeeDimensions]))"

section \<open>internal/window\<close>

definition WindowSize :: nat where "WindowSize = 10"
definition WindowSliceSize :: nat where "WindowSliceSize = WindowSize * 8"

text \<open>\<^verbatim>\<open>[WindowSliceSize]byte\<close>.\<close>

type_synonym Window = bytes

definition wf_Window :: "Window \<Rightarrow> bool" where
  "wf_Window w \<longleftrightarrow> length w = WindowSliceSize"

definition Roll :: "Window \<Rightarrow> u64 \<Rightarrow> Window" where
  "Roll w roll =
     (let res = replicate WindowSliceSize 0; bound = roll * 8 in
      if roll > word_of_nat WindowSize then res
      else copy_at 0 (drop (unat bound) w) res)"

fun Sum_loop :: "u64 \<Rightarrow> u64 list \<Rightarrow> u64" where
  "Sum_loop acc [] = acc"
| "Sum_loop acc (x # xs) =
     (case safe_Add acc x of Inl _ \<Rightarrow> MaxUint64 | Inr acc' \<Rightarrow> Sum_loop acc' xs)"

definition window_slots :: "Window \<Rightarrow> u64 list" where
  "window_slots w = map (\<lambda>i. Uint64 (drop (8 * i) w)) [0..<WindowSize]"

definition Window_Sum :: "Window \<Rightarrow> u64" where
  "Window_Sum w = Sum_loop 0 (window_slots w)"

definition Window_Update :: "Window \<Rightarrow> nat \<Rightarrow> u64 \<Rightarrow> Window" where
  "Window_Update w start unitsConsumed =
     (let prevUnitsConsumed = Uint64 (drop start w);
          totalUnitsConsumed = (case safe_Add prevUnitsConsumed unitsConsumed of
                                  Inl _ \<Rightarrow> MaxUint64 | Inr t \<Rightarrow> t)
      in copy_at start (PutUint64 totalUnitsConsumed) w)"

definition Window_Last :: "Window \<Rightarrow> u64" where
  "Window_Last w = Uint64 (drop (WindowSliceSize - 8) w)"

section \<open>internal/fees/manager.go\<close>

definition dimensionStateLen :: nat where
  "dimensionStateLen = 8 + WindowSliceSize + 8"

record Manager =
  fm_raw :: bytes

definition wf_Manager :: "Manager \<Rightarrow> bool" where
  "wf_Manager f \<longleftrightarrow> length (fm_raw f) = 8 + FeeDimensions * dimensionStateLen"

definition NewManager :: "bytes \<Rightarrow> Manager" where
  "NewManager raw =
     \<lparr>fm_raw = (if length raw = 0 then replicate (8 + FeeDimensions * dimensionStateLen) 0 else raw)\<rparr>"

definition unitPrice :: "Manager \<Rightarrow> nat \<Rightarrow> u64" where
  "unitPrice f d =
     (let start = 8 + dimensionStateLen * d in Uint64 (take 8 (drop start (fm_raw f))))"

definition manager_window :: "Manager \<Rightarrow> nat \<Rightarrow> Window" where
  "manager_window f d =
     (let start = 8 + dimensionStateLen * d + 8 in take WindowSliceSize (drop start (fm_raw f)))"

definition lastConsumed :: "Manager \<Rightarrow> nat \<Rightarrow> u64" where
  "lastConsumed f d =
     (let start = 8 + dimensionStateLen * d + 8 + WindowSliceSize in
      Uint64 (take 8 (drop start (fm_raw f))))"

definition setUnitPrice :: "nat \<Rightarrow> u64 \<Rightarrow> Manager \<Rightarrow> Manager" where
  "setUnitPrice d price f =
     (let start = 8 + dimensionStateLen * d in
      f\<lparr>fm_raw := copy_at start (PutUint64 price) (fm_raw f)\<rparr>)"

definition setLastConsumed :: "nat \<Rightarrow> u64 \<Rightarrow> Manager \<Rightarrow> Manager" where
  "setLastConsumed d consumed f =
     (let start = 8 + dimensionStateLen * d + 8 + WindowSliceSize in
      f\<lparr>fm_raw := copy_at start (PutUint64 consumed) (fm_raw f)\<rparr>)"

text \<open>The first loop of \<open>Consume\<close>: the dimension that cannot be consumed, if any.\<close>

fun Consume_check :: "Manager \<Rightarrow> Dimensions \<Rightarrow> Dimensions \<Rightarrow> nat list \<Rightarrow> nat option" where
  "Consume_check f d l [] = None"
| "Consume_check f d l (i # is) =
     (case safe_Add (lastConsumed f i) (d ! i) of
        Inl _ \<Rightarrow> Some i
      | Inr consumed \<Rightarrow> if consumed > l ! i then Some i else Consume_check f d l is)"

fun Consume_commit :: "Dimensions \<Rightarrow> nat list \<Rightarrow> Manager \<Rightarrow> nat option \<times> Manager" where
  "Consume_commit d [] f = (None, f)"
| "Consume_commit d (i # is) f =
     (case safe_Add (lastConsumed f i) (d ! i) of
        Inl _ \<Rightarrow> (Some i, f)
      | Inr consumed \<Rightarrow> Consume_commit d is (setLastConsumed i consumed f))"

definition Consume :: "Dimensions \<Rightarrow> Dimensions \<Rightarrow> Manager \<Rightarrow> (bool \<times> nat) \<times> Manager" where
  "Consume d l f =
     (case Consume_check f d l [0..<FeeDimensions] of
        Some i \<Rightarrow> ((False, i), f)
      | None \<Rightarrow>
          (case Consume_commit d [0..<FeeDimensions] f of
             (Some i, f') \<Rightarrow> ((False, i), f')
           | (None, f') \<Rightarrow> ((True, 0), f')))"

fun Fee_loop :: "Manager \<Rightarrow> Dimensions \<Rightarrow> u64 \<Rightarrow> nat list \<Rightarrow> u64 result" where
  "Fee_loop f d fee [] = Inr fee"
| "Fee_loop f d fee (i # is) =
     (case safe_Mul (unitPrice f i) (d ! i) of
        Inl err \<Rightarrow> Inl err
      | Inr contribution \<Rightarrow>
          (case safe_Add contribution fee of
             Inl err \<Rightarrow> Inl err
           | Inr newFee \<Rightarrow> Fee_loop f d newFee is))"

definition Fee :: "Manager \<Rightarrow> Dimensions \<Rightarrow> u64 result" where
  "Fee f d = Fee_loop f d 0 [0..<FeeDimensions]"

definition UnitPrices :: "Manager \<Rightarrow> Dimensions" where
  "UnitPrices f = map (unitPrice f) [0..<FeeDimensions]"

definition UnitsConsumed :: "Manager \<Rightarrow> Dimensions" where
  "UnitsConsumed f = map (lastConsumed f) [0..<FeeDimensions]"

text \<open>\<open>None\<close> is Go's panic on a division by zero.\<close>

definition go_div :: "u64 \<Rightarrow> u64 \<Rightarrow> u64 option" where
  "go_div x y = (if y = 0 then None else Some (x div y))"

definition price_delta :: "u64 \<Rightarrow> u64 \<Rightarrow> u64 \<Rightarrow> u64 \<Rightarrow> u64 option" where
  "price_delta previousPrice delta target changeDenom =
     (case go_div (previousPrice * delta) target of
        None \<Rightarrow> None
      | Some y \<Rightarrow>
          (case go_div y changeDenom of
             None \<Rightarrow> None
           | Some baseDelta \<Rightarrow> Some (if baseDelta < 1 then 1 else baseDelta)))"

text \<open>The rolled window with the parent's consumption in its slot.\<close>

definition next_window :: "Window \<Rightarrow> u64 \<Rightarrow> u64 \<Rightarrow> Window" where
  "next_window previous previousConsumed since =
     (let newRollupWindow = Roll previous since in
      if since < word_of_nat WindowSize
      then let slot = WindowSize - 1 - unat since; start = slot * 8 in
           Window_Update newRollupWindow start previousConsumed
      else newRollupWindow)"

definition next_price :: "u64 \<Rightarrow> u64 \<Rightarrow> u64 \<Rightarrow> u64 \<Rightarrow> u64 \<Rightarrow> u64 option" where
  "next_price previousPrice windowTotal target changeDenom since =
     (if windowTotal > target
      then (case price_delta previousPrice (windowTotal - target) target changeDenom of
              None \<Rightarrow> None
            | Some baseDelta \<Rightarrow>
                Some (case safe_Add previousPrice baseDelta of Inl _ \<Rightarrow> MaxUint64 | Inr n \<Rightarrow> n))
      else if windowTotal < target
      then (case price_delta previousPrice (target - windowTotal) target changeDenom of
              None \<Rightarrow> None
            | Some baseDelta0 \<Rightarrow>
                (let baseDelta = (if since > word_of_nat WindowSize
                                  then baseDelta0 * (since div word_of_nat WindowSize)
                                  else baseDelta0) in
                 Some (case safe_Sub previousPrice baseDelta of Inl _ \<Rightarrow> 0 | Inr n \<Rightarrow> n)))
      else Some previousPrice)"

definition computeNextPriceWindow ::
  "Window \<Rightarrow> u64 \<Rightarrow> u64 \<Rightarrow> u64 \<Rightarrow> u64 \<Rightarrow> u64 \<Rightarrow> u64 \<Rightarrow> (u64 \<times> Window) option" where
  "computeNextPriceWindow previous previousConsumed previousPrice target changeDenom minPrice since =
     (let newRollupWindow = next_window previous previousConsumed since;
          windowTotal = Window_Sum newRollupWindow in
      case next_price previousPrice windowTotal target changeDenom since of
        None \<Rightarrow> None
      | Some nextPrice \<Rightarrow>
          Some (if nextPrice < minPrice then minPrice else nextPrice, newRollupWindow))"

record fee_Rules =
  GetMinUnitPrice :: Dimensions
  GetUnitPriceChangeDenominator :: Dimensions
  GetWindowTargetUnits :: Dimensions
  GetMaxBlockUnits :: Dimensions

definition go_int64_div :: "i64 \<Rightarrow> int \<Rightarrow> i64" where
  "go_int64_div a b = word_of_int (sint a sdiv b)"

fun ComputeNext_loop ::
  "Manager \<Rightarrow> fee_Rules \<Rightarrow> u64 \<Rightarrow> nat list \<Rightarrow> bytes \<Rightarrow> bytes option" where
  "ComputeNext_loop f r since [] bs = Some bs"
| "ComputeNext_loop f r since (i # is) bs =
     (case computeNextPriceWindow (manager_window f i) (lastConsumed f i) (unitPrice f i)
             (GetWindowTargetUnits r ! i) (GetUnitPriceChangeDenominator r ! i)
             (GetMinUnitPrice r ! i) since of
        None \<Rightarrow> None
      | Some (nextUnitPrice, nextUnitWindow) \<Rightarrow>
          (let start = 8 + dimensionStateLen * i;
               bs1 = copy_at start (PutUint64 nextUnitPrice) bs;
               bs2 = copy_at (start + 8) nextUnitWindow bs1
           in ComputeNext_loop f r since is bs2))"

text \<open>
  \<open>None\<close> is a panic: a division by zero, or a slice of \<^verbatim>\<open>raw\<close> beyond its end. The accessors above read
  on where Go would panic, which is out of their reach: a block starts with \<^verbatim>\<open>ComputeNext\<close>, and every
  manager it returns has the full length.
\<close>

definition ComputeNext :: "Manager \<Rightarrow> i64 \<Rightarrow> fee_Rules \<Rightarrow> Manager option" where
  "ComputeNext f currTime r =
     (if length (fm_raw f) < 8 + FeeDimensions * dimensionStateLen then None
      else let lastTimeSeconds = Uint64 (take 8 (fm_raw f));
          currTimeSeconds = go_int64_div currTime 1000;
          since = currTimeSeconds - lastTimeSeconds;
          bs = copy_at 0 (PutUint64 currTimeSeconds)
                 (replicate (8 + dimensionStateLen * FeeDimensions) 0)
      in map_option (\<lambda>raw. \<lparr>fm_raw = raw\<rparr>) (ComputeNext_loop f r since [0..<FeeDimensions] bs))"

section \<open>The checked operations are exact\<close>

lemma unat_MaxUint64: "unat MaxUint64 = 2 ^ 64 - 1"
  by (simp add: MaxUint64_def unsigned_minus_1_eq_mask mask_eq_exp_minus_1)

lemma le_MaxUint64 [simp]: "x \<le> MaxUint64"
  using unsigned_less [of x, where ?'a = nat] by (simp add: word_le_nat_alt unat_MaxUint64)

lemma unat_less_64: "unat (x :: u64) < 2 ^ 64"
  using unsigned_less [of x, where ?'a = nat] by simp

lemma safe_Add_exact:
  "safe_Add a b =
     (if unat a + unat b < 2 ^ 64 then Inr (word_of_nat (unat a + unat b))
      else Inl (Sentinel ErrOverflow))"
proof -
  have "unat (MaxUint64 - b) = 2 ^ 64 - 1 - unat b"
    by (simp only: unat_sub [OF le_MaxUint64] unat_MaxUint64)
  then have "a > MaxUint64 - b \<longleftrightarrow> \<not> unat a + unat b < 2 ^ 64"
    using unat_less_64 [of b] by (auto simp: word_less_nat_alt)
  then show ?thesis by (simp add: safe_Add_def)
qed

lemma safe_Sub_exact:
  "safe_Sub a b =
     (if unat b \<le> unat a then Inr (word_of_nat (unat a - unat b)) else Inl (Sentinel ErrUnderflow))"
  by (auto simp: safe_Sub_def word_less_nat_alt not_less of_nat_diff)

lemma safe_Mul_exact:
  "safe_Mul a b =
     (if unat a * unat b < 2 ^ 64 then Inr (word_of_nat (unat a * unat b))
      else Inl (Sentinel ErrOverflow))"
proof (cases "b = 0")
  case False
  then have b: "0 < unat b" by (simp add: unat_gt_0)
  have "a > MaxUint64 div b \<longleftrightarrow> (2 ^ 64 - 1) div unat b < unat a"
    by (simp only: word_less_nat_alt unat_div_distrib unat_MaxUint64)
  also have "\<dots> \<longleftrightarrow> 2 ^ 64 - 1 < unat a * unat b"
    by (rule div_less_iff_less_mult [OF b])
  also have "\<dots> \<longleftrightarrow> \<not> unat a * unat b < 2 ^ 64"
    by auto
  finally show ?thesis using False by (simp add: safe_Mul_def)
qed (simp add: safe_Mul_def)

lemma unat_word_of_small: "n < 2 ^ 64 \<Longrightarrow> unat (word_of_nat n :: u64) = n"
  by (simp add: unat_of_nat)

lemma safe_Add_cases:
  obtains (ok) c where "safe_Add a b = Inr c" "unat c = unat a + unat b" "unat a + unat b < 2 ^ 64"
  | (over) "safe_Add a b = Inl (Sentinel ErrOverflow)" "2 ^ 64 \<le> unat a + unat b"
  by (cases "unat a + unat b < 2 ^ 64")
     (auto simp: safe_Add_exact unat_add_no_wrap not_less)

lemma safe_Mul_cases:
  obtains (ok) c where "safe_Mul a b = Inr c" "unat c = unat a * unat b" "unat a * unat b < 2 ^ 64"
  | (over) "safe_Mul a b = Inl (Sentinel ErrOverflow)" "2 ^ 64 \<le> unat a * unat b"
  by (cases "unat a * unat b < 2 ^ 64")
     (auto simp: safe_Mul_exact unat_mult_no_wrap not_less)

text \<open>\<open>counts oper n\<close>: the operator has accumulated \<open>n\<close>, or remembers that it overflowed.\<close>

definition counts :: "Uint64Operator \<Rightarrow> nat \<Rightarrow> bool" where
  "counts oper n \<longleftrightarrow>
     (if n < 2 ^ 64 then uop_err oper = None \<and> unat (uop_v oper) = n
      else uop_err oper = Some (Sentinel ErrOverflow))"

lemma counts_New: "counts (NewUint64Operator v) (unat v)"
  by (simp add: counts_def NewUint64Operator_def unat_less_64 [simplified])

lemma counts_Add: "counts oper n \<Longrightarrow> counts (uop_Add k oper) (n + unat k)"
  by (cases "uop_v oper" k rule: safe_Add_cases) (auto simp: counts_def uop_Add_def split: if_splits)

lemma counts_MulAdd: "counts oper n \<Longrightarrow> counts (uop_MulAdd a b oper) (n + unat a * unat b)"
proof (cases a b rule: safe_Mul_cases)
  case (ok c)
  then show "counts oper n \<Longrightarrow> ?thesis"
    by (cases "uop_v oper" c rule: safe_Add_cases)
       (auto simp: counts_def uop_MulAdd_def split: if_splits)
qed (auto simp: counts_def uop_MulAdd_def split: if_splits)

lemma counts_Value:
  "counts oper n \<Longrightarrow> uop_Value oper =
     (if n < 2 ^ 64 then Inr (word_of_nat n) else Inl (Sentinel ErrOverflow))"
  by (auto simp: counts_def uop_Value_def)

section \<open>Sums of products\<close>

definition dot :: "u64 list \<Rightarrow> u64 list \<Rightarrow> nat" where
  "dot as bs = sum_list (map2 (\<lambda>a b. unat a * unat b) as bs)"

lemma dot_simps [simp]:
  "dot [] bs = 0" "dot as [] = 0" "dot (a # as) (b # bs) = unat a * unat b + dot as bs"
  by (simp_all add: dot_def)

lemma MulSum_loop_exact:
  "length as = length bs \<Longrightarrow>
   MulSum_loop val as bs =
     (if unat val + dot as bs < 2 ^ 64 then Inr (word_of_nat (unat val + dot as bs))
      else Inl (Sentinel ErrOverflow))"
proof (induction val as bs rule: MulSum_loop.induct)
  case (1 val a as b bs)
  show ?case
  proof (cases a b rule: safe_Mul_cases)
    case (ok c)
    then show ?thesis
      using 1 by (cases val c rule: safe_Add_cases) (auto simp: add.assoc [symmetric] simp flip: of_nat_add)
  qed auto
qed (auto simp: unat_less_64 [simplified])

lemma MulSum_exact:
  "length as = length bs \<Longrightarrow>
   MulSum as bs =
     (if dot as bs < 2 ^ 64 then Inr (word_of_nat (dot as bs)) else Inl (Sentinel ErrOverflow))"
  by (simp add: MulSum_def MulSum_loop_exact)

lemma safe_Add_commute: "safe_Add a b = safe_Add b a"
  by (simp add: safe_Add_exact add.commute)

lemma Fee_loop_MulSum:
  "Fee_loop f d fee is = MulSum_loop fee (map (unitPrice f) is) (map ((!) d) is)"
  by (induction f d fee "is" rule: Fee_loop.induct)
     (auto simp: safe_Add_commute split: sum.splits)

lemma Fee_MulSum:
  assumes "wf_Dimensions d"
  shows "Fee f d = MulSum (UnitPrices f) d"
proof -
  have "map ((!) d) [0..<FeeDimensions] = d"
    using assms by (metis map_nth wf_Dimensions_def)
  then show ?thesis
    by (simp add: Fee_def Fee_loop_MulSum MulSum_def UnitPrices_def)
qed

section \<open>Reading and writing words in a byte array\<close>

lemma length_copy_at [simp]: "off \<le> length bs \<Longrightarrow> length (copy_at off src bs) = length bs"
  by (auto simp: copy_at_def)

lemma Uint64_take8: "Uint64 (take 8 bs) = Uint64 bs"
  by (cases bs rule: Uint64.cases) simp_all

lemma get_put_same:
  "off + length src \<le> length bs \<Longrightarrow> take (length src) (drop off (copy_at off src bs)) = src"
  by (simp add: copy_at_def)

lemma get_put_other:
  assumes "off + length src \<le> length bs" and "o' + n \<le> off \<or> off + length src \<le> o'"
  shows "take n (drop o' (copy_at off src bs)) = take n (drop o' bs)"
  using assms
proof (elim disjE)
  assume "o' + n \<le> off"
  with assms(1) show ?thesis
    by (simp add: copy_at_def drop_take min_absorb1)
next
  assume "off + length src \<le> o'"
  with assms(1) show ?thesis
    by (simp add: copy_at_def)
qed

text \<open>Writing the consumption of one dimension changes that value and nothing else.\<close>

lemmas manager_defs = wf_Manager_def FeeDimensions_def dimensionStateLen_def WindowSliceSize_def
  WindowSize_def

lemma wf_setLastConsumed [simp]:
  "wf_Manager f \<Longrightarrow> i < FeeDimensions \<Longrightarrow> wf_Manager (setLastConsumed i v f)"
  by (simp add: setLastConsumed_def manager_defs Let_def)

lemma lastConsumed_set:
  assumes "wf_Manager f" and "i < FeeDimensions" and "j < FeeDimensions"
  shows "lastConsumed (setLastConsumed i v f) j = (if j = i then v else lastConsumed f j)"
proof -
  let ?o = "\<lambda>k. 8 + dimensionStateLen * k + 8 + WindowSliceSize"
  have b: "?o i + length (PutUint64 v) \<le> length (fm_raw f)"
    using assms by (simp add: manager_defs)
  show ?thesis
  proof (cases "j = i")
    case True
    then show ?thesis
      using get_put_same [OF b] by (simp add: lastConsumed_def setLastConsumed_def Let_def)
  next
    case False
    then have "?o j + 8 \<le> ?o i \<or> ?o i + length (PutUint64 v) \<le> ?o j"
      by (simp add: manager_defs) linarith
    with False show ?thesis
      using get_put_other [OF b] by (simp add: lastConsumed_def setLastConsumed_def Let_def)
  qed
qed

lemma unitPrice_setLastConsumed:
  assumes "wf_Manager f" and "i < FeeDimensions" and "j < FeeDimensions"
  shows "unitPrice (setLastConsumed i v f) j = unitPrice f j"
proof -
  let ?o = "8 + dimensionStateLen * i + 8 + WindowSliceSize"
  have "?o + length (PutUint64 v) \<le> length (fm_raw f)"
    using assms by (simp add: manager_defs)
  moreover have "8 + dimensionStateLen * j + 8 \<le> ?o \<or>
      ?o + length (PutUint64 v) \<le> 8 + dimensionStateLen * j"
    by (cases "j \<le> i") (simp_all add: manager_defs)
  ultimately show ?thesis
    using get_put_other by (simp add: unitPrice_def setLastConsumed_def Let_def)
qed

section \<open>Consuming units is all or nothing\<close>

definition consumable :: "Manager \<Rightarrow> Dimensions \<Rightarrow> Dimensions \<Rightarrow> nat \<Rightarrow> bool" where
  "consumable f d l i \<longleftrightarrow> unat (lastConsumed f i) + unat (d ! i) \<le> unat (l ! i)"

lemma Consume_check_None:
  "Consume_check f d l is = None \<longleftrightarrow> (\<forall>i \<in> set is. consumable f d l i)"
proof (induction "is")
  case (Cons i "is")
  then show ?case
    using unat_less_64 [of "l ! i"]
    by (cases "lastConsumed f i" "d ! i" rule: safe_Add_cases)
       (auto simp: consumable_def word_less_nat_alt)
qed simp

lemma Consume_check_Some:
  "Consume_check f d l is = Some i \<Longrightarrow> i \<in> set is \<and> \<not> consumable f d l i"
proof (induction "is")
  case (Cons j "is")
  then show ?case
    using unat_less_64 [of "l ! j"]
    by (cases "lastConsumed f j" "d ! j" rule: safe_Add_cases)
       (auto simp: consumable_def word_less_nat_alt split: if_splits)
qed simp

lemma Consume_commit_ok:
  assumes "wf_Manager f" and "set is \<subseteq> {0..<FeeDimensions}" and "distinct is"
    and "\<And>i. i \<in> set is \<Longrightarrow> unat (lastConsumed f i) + unat (d ! i) < 2 ^ 64"
  shows "\<exists>f'. Consume_commit d is f = (None, f') \<and> wf_Manager f' \<and>
    (\<forall>j < FeeDimensions. unitPrice f' j = unitPrice f j \<and>
       lastConsumed f' j = (if j \<in> set is then lastConsumed f j + d ! j else lastConsumed f j))"
  using assms
proof (induction "is" arbitrary: f)
  case (Cons i "is")
  let ?f = "setLastConsumed i (lastConsumed f i + d ! i) f"
  have i: "i < FeeDimensions" using Cons.prems by simp
  have "safe_Add (lastConsumed f i) (d ! i) = Inr (lastConsumed f i + d ! i)"
    using Cons.prems(4) [of i] by (simp add: safe_Add_exact)
  moreover have "\<exists>f'. Consume_commit d is ?f = (None, f') \<and> wf_Manager f' \<and>
    (\<forall>j < FeeDimensions. unitPrice f' j = unitPrice ?f j \<and>
       lastConsumed f' j = (if j \<in> set is then lastConsumed ?f j + d ! j else lastConsumed ?f j))"
    using Cons.prems i by (intro Cons.IH) (auto simp: lastConsumed_set)
  ultimately show ?case
    using Cons.prems i by (auto simp: lastConsumed_set unitPrice_setLastConsumed)
qed simp

lemma Consume_cases:
  assumes "wf_Manager f"
  obtains (ok) f' where "Consume d l f = ((True, 0), f')" "wf_Manager f'"
      "\<forall>i < FeeDimensions. consumable f d l i"
      "\<forall>i < FeeDimensions. unitPrice f' i = unitPrice f i \<and>
         lastConsumed f' i = lastConsumed f i + d ! i"
  | (refused) i where "Consume d l f = ((False, i), f)" "i < FeeDimensions" "\<not> consumable f d l i"
proof (cases "Consume_check f d l [0..<FeeDimensions]")
  case (Some i)
  then show thesis
    using Consume_check_Some [OF Some] by (auto intro: refused simp: Consume_def)
next
  case None
  then have c: "\<forall>i < FeeDimensions. consumable f d l i"
    by (simp add: Consume_check_None)
  then have "unat (lastConsumed f i) + unat (d ! i) < 2 ^ 64" if "i < FeeDimensions" for i
    using that unat_less_64 [of "l ! i"] by (fastforce simp: consumable_def)
  then obtain f' where "Consume_commit d [0..<FeeDimensions] f = (None, f')" "wf_Manager f'"
    "\<forall>i < FeeDimensions. unitPrice f' i = unitPrice f i \<and>
       lastConsumed f' i = lastConsumed f i + d ! i"
    using Consume_commit_ok [OF assms, of "[0..<FeeDimensions]" d] by auto
  with None c show thesis
    by (intro ok [of f']) (simp_all add: Consume_def)
qed

section \<open>The next price\<close>

lemma price_delta_pos: "price_delta p d t c = Some b \<Longrightarrow> b \<noteq> 0"
  by (auto simp: price_delta_def word_less_1 split: option.splits if_splits)

lemma computeNextPriceWindow_min:
  "computeNextPriceWindow w u p t c mp since = Some (p', w') \<Longrightarrow> mp \<le> p'"
  by (auto simp: computeNextPriceWindow_def Let_def split: if_splits option.splits)

lemma computeNextPriceWindow_total:
  assumes "t \<noteq> 0" and "c \<noteq> 0"
  shows "\<exists>p'. computeNextPriceWindow w u p t c mp since = Some (p', next_window w u since)"
  using assms
  by (auto simp: computeNextPriceWindow_def next_price_def price_delta_def go_div_def Let_def)

lemma next_price_up:
  assumes "next_price p windowTotal t c since = Some q" and "windowTotal > t"
  shows "p < q \<or> q = MaxUint64"
proof -
  obtain b where b: "price_delta p (windowTotal - t) t c = Some b"
    and q: "q = (case safe_Add p b of Inl _ \<Rightarrow> MaxUint64 | Inr n \<Rightarrow> n)"
    using assms by (auto simp: next_price_def split: option.splits)
  have "0 < unat b" using price_delta_pos [OF b] by (simp add: unat_gt_0)
  then show ?thesis
    using q by (cases p b rule: safe_Add_cases) (auto simp: word_less_nat_alt)
qed

lemma next_price_down:
  "next_price p windowTotal t c since = Some q \<Longrightarrow> windowTotal < t \<Longrightarrow> q \<le> p"
  by (auto simp: next_price_def safe_Sub_def word_sub_le not_less Let_def split: option.splits if_splits)

lemma next_price_same: "next_price p t t c since = Some p"
  by (simp add: next_price_def)

lemma if_less_max: "(if a < b then b else a) = max a (b :: u64)"
  by (auto simp: max_def)

lemma computeNextPriceWindow_direction:
  assumes "computeNextPriceWindow w u p t c mp since = Some (p', w')"
  shows "Window_Sum w' > t \<Longrightarrow> p < p' \<or> p' = MaxUint64"
    and "Window_Sum w' = t \<Longrightarrow> p' = max p mp"
    and "Window_Sum w' < t \<Longrightarrow> p' \<le> max p mp"
proof -
  obtain q where q: "next_price p (Window_Sum w') t c since = Some q" "p' = max q mp"
    using assms
    by (auto simp: computeNextPriceWindow_def Let_def if_less_max split: option.splits)
  show "p < p' \<or> p' = MaxUint64" if "Window_Sum w' > t"
    using next_price_up [OF q(1) that] q(2) by (auto simp: less_max_iff_disj max_absorb1)
  show "p' = max p mp" if "Window_Sum w' = t"
    using q that by (simp add: next_price_same)
  show "p' \<le> max p mp" if "Window_Sum w' < t"
    using next_price_down [OF q(1) that] q(2) by (simp add: max.coboundedI1)
qed

lemma next_price_bounds:
  assumes "t \<noteq> 0" and "c \<noteq> 0"
  shows "\<exists>p'. computeNextPriceWindow w u p t c mp since = Some (p', next_window w u since) \<and> mp \<le> p' \<and>
    (if Window_Sum (next_window w u since) > t then p < p' \<or> p' = MaxUint64 else p' \<le> max p mp)"
proof -
  obtain p' where p': "computeNextPriceWindow w u p t c mp since = Some (p', next_window w u since)"
    using computeNextPriceWindow_total [OF assms] by blast
  have "p' \<le> max p mp" if "\<not> Window_Sum (next_window w u since) > t"
    using computeNextPriceWindow_direction(2,3) [OF p'] that
    by (cases "Window_Sum (next_window w u since) = t") auto
  with p' computeNextPriceWindow_min [OF p'] computeNextPriceWindow_direction(1) [OF p']
  show ?thesis by auto
qed

section \<open>The window as a list of numbers\<close>

lemma unat_Sum_loop:
  "unat (Sum_loop acc xs) = min (unat acc + sum_list (map unat xs)) (2 ^ 64 - 1)"
proof (induction xs arbitrary: acc)
  case Nil
  then show ?case using unat_less_64 [of acc] by simp
next
  case (Cons x xs)
  then show ?case by (cases acc x rule: safe_Add_cases) (auto simp: unat_MaxUint64)
qed

definition slots :: "Window \<Rightarrow> nat \<Rightarrow> nat" where
  "slots w j = unat (window_slots w ! j)"

lemma Window_Sum_slots: "unat (Window_Sum w) = min (\<Sum>j < WindowSize. slots w j) (2 ^ 64 - 1)"
proof -
  have "(\<Sum>j < WindowSize. slots w j) = (\<Sum>j \<leftarrow> [0..<WindowSize]. slots w j)"
    by (simp add: sum_list_distinct_conv_sum_set lessThan_atLeast0)
  moreover have "map (slots w) [0..<WindowSize] = map unat (window_slots w)"
    by (rule nth_equalityI) (simp_all add: slots_def window_slots_def)
  ultimately show ?thesis by (simp add: Window_Sum_def unat_Sum_loop)
qed

lemma slots_eq: "j < WindowSize \<Longrightarrow> slots w j = unat (Uint64 (take 8 (drop (8 * j) w)))"
  by (simp add: slots_def window_slots_def Uint64_take8)

lemma Uint64_zeros: "Uint64 (replicate n 0) = 0"
proof -
  have "set xs \<subseteq> {0} \<Longrightarrow> Uint64 xs = 0" for xs by (cases xs rule: Uint64.cases) simp_all
  then show ?thesis by (simp add: set_replicate_conv_if)
qed

lemma slots_Roll:
  assumes "wf_Window w" and "j < WindowSize"
  shows "slots (Roll w since) j = (if j + unat since < WindowSize then slots w (j + unat since) else 0)"
proof (cases "unat since \<le> WindowSize")
  case False
  then have "since > word_of_nat WindowSize" by (simp add: word_less_nat_alt WindowSize_def)
  then have "Roll w since = replicate WindowSliceSize 0" by (simp add: Roll_def Let_def)
  with False show ?thesis using assms(2) by (simp add: slots_eq Uint64_zeros)
next
  case True
  let ?s = "unat since"
  have n: "\<not> since > word_of_nat WindowSize" using True by (simp add: word_less_nat_alt WindowSize_def)
  have "unat (since * 8) = 8 * ?s" using True by (simp add: unat_mult_no_wrap WindowSize_def mult.commute)
  moreover have "length w = 80" using assms(1) by (simp add: wf_Window_def WindowSliceSize_def WindowSize_def)
  ultimately have R: "Roll w since = drop (8 * ?s) w @ replicate (8 * ?s) 0"
    using n True by (simp add: Roll_def Let_def copy_at_def WindowSliceSize_def WindowSize_def)
  show ?thesis
  proof (cases "j + ?s < WindowSize")
    case True
    then have "8 * j + 8 \<le> length (drop (8 * ?s) w)" using \<open>length w = 80\<close> by (simp add: WindowSize_def)
    then have "take 8 (drop (8 * j) (Roll w since)) = take 8 (drop (8 * (j + ?s)) w)"
      by (simp add: R add.commute distrib_left)
    with True assms(2) show ?thesis by (simp add: slots_eq)
  next
    case False
    then have "length (drop (8 * ?s) w) \<le> 8 * j" using \<open>length w = 80\<close> by (simp add: WindowSize_def)
    then have "drop (8 * j) (Roll w since) = replicate (8 * ?s - (8 * j - length (drop (8 * ?s) w))) 0"
      by (simp add: R)
    with False assms(2) show ?thesis by (simp add: slots_eq Uint64_zeros)
  qed
qed

lemma slots_Update:
  assumes "length w = WindowSliceSize" and "j < WindowSize" and "k < WindowSize"
  shows "slots (Window_Update w (k * 8) u) j =
    (if j = k then min (slots w k + unat u) (2 ^ 64 - 1) else slots w j)"
proof -
  define n where "n = (case safe_Add (Uint64 (drop (k * 8) w)) u of Inl _ \<Rightarrow> MaxUint64 | Inr t \<Rightarrow> t)"
  have b: "k * 8 + length (PutUint64 n) \<le> length w" using assms(1,3) by (simp add: WindowSliceSize_def WindowSize_def)
  have W: "Window_Update w (k * 8) u = copy_at (k * 8) (PutUint64 n) w" by (simp add: Window_Update_def n_def Let_def)
  have n: "unat n = min (slots w k + unat u) (2 ^ 64 - 1)"
    using assms(3) unfolding n_def
    by (cases "Uint64 (drop (k * 8) w)" u rule: safe_Add_cases)
       (auto simp: slots_eq Uint64_take8 unat_MaxUint64 mult.commute)
  show ?thesis
  proof (cases "j = k")
    case True
    then show ?thesis using get_put_same [OF b] n assms(2) by (simp add: W slots_eq mult.commute)
  next
    case False
    then have "8 * j + 8 \<le> k * 8 \<or> k * 8 + length (PutUint64 n) \<le> 8 * j" by auto
    then show ?thesis using get_put_other [OF b] False assms(2) by (simp add: W slots_eq)
  qed
qed

text \<open>
  After \<open>s\<close> seconds every slot holds what was \<open>s\<close> slots later; the newest of them gets the consumption
  of the parent block on top, and the slots of the seconds since are empty.
\<close>

lemma slots_next_window:
  assumes "wf_Window w" and "j < WindowSize"
  shows "slots (next_window w u since) j =
    (let k = j + unat since in
     if k < WindowSize - 1 then slots w k
     else if k = WindowSize - 1 then min (slots w k + unat u) (2 ^ 64 - 1)
     else 0)"
proof (cases "unat since < WindowSize")
  case True
  then have s: "since < word_of_nat WindowSize" by (simp add: word_less_nat_alt WindowSize_def)
  have l: "length (Roll w since) = WindowSliceSize" by (simp add: Roll_def Let_def)
  have k: "WindowSize - 1 - unat since < WindowSize" by (simp add: WindowSize_def)
  have "slots (next_window w u since) j =
      (if j = WindowSize - 1 - unat since then min (slots (Roll w since) j + unat u) (2 ^ 64 - 1) else slots (Roll w since) j)"
    using s slots_Update [OF l assms(2) k, of u] by (simp add: next_window_def Let_def)
  with True show ?thesis using slots_Roll [OF assms] by (auto simp: Let_def WindowSize_def)
next
  case False
  then have "\<not> since < word_of_nat WindowSize" by (simp add: word_less_nat_alt WindowSize_def)
  with False show ?thesis using slots_Roll [OF assms] by (simp add: next_window_def Let_def WindowSize_def)
qed

section \<open>The next manager\<close>

lemma wf_next_window: "wf_Window (next_window w u since)"
proof -
  have r: "length (Roll w since) = WindowSliceSize" by (simp add: Roll_def Let_def)
  show ?thesis
  proof (cases "since < word_of_nat WindowSize")
    case True
    have "(WindowSize - 1 - unat since) * 8 \<le> WindowSliceSize"
      by (simp add: WindowSliceSize_def WindowSize_def)
    with r True show ?thesis by (simp add: wf_Window_def next_window_def Window_Update_def Let_def)
  qed (use r in \<open>simp add: wf_Window_def next_window_def Let_def\<close>)
qed

text \<open>The price and the window of one dimension, as one field of the raw bytes.\<close>

definition price_slot :: "nat \<Rightarrow> bytes \<Rightarrow> bytes" where
  "price_slot i bs = take (8 + WindowSliceSize) (drop (8 + dimensionStateLen * i) bs)"

lemma manager_slot:
  "unitPrice \<lparr>fm_raw = bs\<rparr> i = Uint64 (price_slot i bs)"
  "manager_window \<lparr>fm_raw = bs\<rparr> i = drop 8 (price_slot i bs)"
proof -
  have "take 8 (price_slot i bs) = take 8 (drop (8 + dimensionStateLen * i) bs)"
    by (simp add: price_slot_def)
  then show "unitPrice \<lparr>fm_raw = bs\<rparr> i = Uint64 (price_slot i bs)"
    using Uint64_take8 [of "price_slot i bs"] by (simp add: unitPrice_def)
qed (simp add: manager_window_def price_slot_def drop_take add.commute)

lemma copy_at_join:
  "off + length xs + length ys \<le> length bs \<Longrightarrow>
   copy_at (off + length xs) ys (copy_at off xs bs) = copy_at off (xs @ ys) bs"
  by (simp add: copy_at_def ac_simps)

lemma ComputeNext_loop_spec:
  assumes "length bs = 8 + FeeDimensions * dimensionStateLen" and "set is \<subseteq> {0..<FeeDimensions}" and "distinct is"
    and "\<And>i. i \<in> set is \<Longrightarrow> GetWindowTargetUnits r ! i \<noteq> 0 \<and> GetUnitPriceChangeDenominator r ! i \<noteq> 0"
  shows "\<exists>bs'. ComputeNext_loop f r since is bs = Some bs' \<and> length bs' = length bs \<and> take 8 bs' = take 8 bs \<and>
    (\<forall>j < FeeDimensions. lastConsumed \<lparr>fm_raw = bs'\<rparr> j = lastConsumed \<lparr>fm_raw = bs\<rparr> j \<and>
      (if j \<in> set is
       then computeNextPriceWindow (manager_window f j) (lastConsumed f j) (unitPrice f j)
         (GetWindowTargetUnits r ! j) (GetUnitPriceChangeDenominator r ! j) (GetMinUnitPrice r ! j) since =
         Some (unitPrice \<lparr>fm_raw = bs'\<rparr> j, manager_window \<lparr>fm_raw = bs'\<rparr> j)
       else price_slot j bs' = price_slot j bs))"
  using assms
proof (induction "is" arbitrary: bs)
  case (Cons i "is")
  let ?w = "next_window (manager_window f i) (lastConsumed f i) since"
  have i: "i < FeeDimensions" using Cons.prems(2) by simp
  obtain p where p: "computeNextPriceWindow (manager_window f i) (lastConsumed f i) (unitPrice f i)
      (GetWindowTargetUnits r ! i) (GetUnitPriceChangeDenominator r ! i) (GetMinUnitPrice r ! i) since = Some (p, ?w)"
    using computeNextPriceWindow_total Cons.prems(4) [of i] by (meson list.set_intros(1))
  let ?o = "8 + dimensionStateLen * i"
  define bs2 where "bs2 = copy_at ?o (PutUint64 p @ ?w) bs"
  have w: "length ?w = WindowSliceSize" using wf_next_window by (simp add: wf_Window_def)
  have b: "?o + length (PutUint64 p @ ?w) \<le> length bs" using Cons.prems(1) i by (simp add: w) (simp add: manager_defs)
  then have j: "copy_at (?o + 8) ?w (copy_at ?o (PutUint64 p) bs) = bs2"
    using copy_at_join [of ?o "PutUint64 p" ?w bs] by (simp add: bs2_def)
  have slot: "price_slot k bs2 = (if k = i then PutUint64 p @ ?w else price_slot k bs)" if "k < FeeDimensions" for k
  proof (cases "k = i")
    case True
    then show ?thesis using get_put_same [OF b] by (simp add: price_slot_def bs2_def w)
  next
    case False
    then have "8 + dimensionStateLen * k + (8 + WindowSliceSize) \<le> ?o \<or>
        ?o + length (PutUint64 p @ ?w) \<le> 8 + dimensionStateLen * k"
      by (simp add: w) (simp add: manager_defs, linarith)
    with False get_put_other [OF b] show ?thesis by (simp add: price_slot_def bs2_def)
  qed
  have last: "lastConsumed \<lparr>fm_raw = bs2\<rparr> k = lastConsumed \<lparr>fm_raw = bs\<rparr> k" if "k < FeeDimensions" for k
  proof -
    have "8 + dimensionStateLen * k + 8 + WindowSliceSize + 8 \<le> ?o \<or>
        ?o + length (PutUint64 p @ ?w) \<le> 8 + dimensionStateLen * k + 8 + WindowSliceSize"
      by (cases "k < i") (simp_all add: w, simp_all add: manager_defs)
    with get_put_other [OF b] show ?thesis by (simp add: lastConsumed_def bs2_def Let_def)
  qed
  have l: "length bs2 = length bs" "take 8 bs2 = take 8 bs"
    using b get_put_other [OF b, of 0 8] by (simp_all add: bs2_def)
  obtain bs' where bs': "ComputeNext_loop f r since is bs2 = Some bs'" "length bs' = length bs2" "take 8 bs' = take 8 bs2"
    "\<forall>j < FeeDimensions. lastConsumed \<lparr>fm_raw = bs'\<rparr> j = lastConsumed \<lparr>fm_raw = bs2\<rparr> j \<and>
      (if j \<in> set is
       then computeNextPriceWindow (manager_window f j) (lastConsumed f j) (unitPrice f j)
         (GetWindowTargetUnits r ! j) (GetUnitPriceChangeDenominator r ! j) (GetMinUnitPrice r ! j) since =
         Some (unitPrice \<lparr>fm_raw = bs'\<rparr> j, manager_window \<lparr>fm_raw = bs'\<rparr> j)
       else price_slot j bs' = price_slot j bs2)"
    using Cons.IH [of bs2] Cons.prems l by auto
  have "unitPrice \<lparr>fm_raw = bs'\<rparr> i = p" "manager_window \<lparr>fm_raw = bs'\<rparr> i = ?w"
    using bs'(4) i slot [OF i] Cons.prems(3) by (simp_all add: manager_slot)
  with bs' slot last l p j i Cons.prems(3) show ?case by (intro exI [of _ bs']) (simp add: Let_def)
qed simp

text \<open>The fields of the next manager: the second of the block, no consumption, and for every dimension the next price.\<close>

lemma ComputeNext_spec:
  assumes wf: "8 + FeeDimensions * dimensionStateLen \<le> length (fm_raw f)"
    and "\<And>i. i < FeeDimensions \<Longrightarrow> GetWindowTargetUnits r ! i \<noteq> 0 \<and> GetUnitPriceChangeDenominator r ! i \<noteq> 0"
  obtains f' where "ComputeNext f t r = Some f'" "wf_Manager f'"
    "take 8 (fm_raw f') = PutUint64 (go_int64_div t 1000)"
    "\<And>i. i < FeeDimensions \<Longrightarrow> lastConsumed f' i = 0 \<and>
      computeNextPriceWindow (manager_window f i) (lastConsumed f i) (unitPrice f i) (GetWindowTargetUnits r ! i)
        (GetUnitPriceChangeDenominator r ! i) (GetMinUnitPrice r ! i) (go_int64_div t 1000 - Uint64 (take 8 (fm_raw f))) =
      Some (unitPrice f' i, manager_window f' i)"
proof -
  let ?z = "replicate (8 + dimensionStateLen * FeeDimensions) (0 :: u8)"
  let ?bs = "copy_at 0 (PutUint64 (go_int64_div t 1000)) ?z"
  have zero: "lastConsumed \<lparr>fm_raw = ?bs\<rparr> i = 0" if "i < FeeDimensions" for i
    using that by (simp add: lastConsumed_def Let_def get_put_other) (simp add: manager_defs min_def numeral_eq_Suc)
  have "take 8 ?bs = PutUint64 (go_int64_div t 1000)"
    using get_put_same [of 0 "PutUint64 (go_int64_div t 1000)" ?z] by simp
  then show thesis
    using ComputeNext_loop_spec [of ?bs "[0..<FeeDimensions]" r f "go_int64_div t 1000 - Uint64 (take 8 (fm_raw f))"] assms(2) zero wf
    by (auto simp: ComputeNext_def Let_def wf_Manager_def mult.commute intro!: that)
qed

lemma ComputeNext_loop_length:
  "ComputeNext_loop f r since is bs = Some bs' \<Longrightarrow> set is \<subseteq> {0..<FeeDimensions} \<Longrightarrow>
   length bs = 8 + FeeDimensions * dimensionStateLen \<Longrightarrow> length bs' = length bs"
proof (induction "is" arbitrary: bs)
  case (Cons i "is")
  then have "i < FeeDimensions" by simp
  then have "8 + dimensionStateLen * i + 8 \<le> length bs" using Cons.prems(3) by (simp add: manager_defs)
  with Cons show ?case by (auto simp: Let_def split: option.splits)
qed simp

lemma wf_ComputeNext: "ComputeNext f t r = Some f' \<Longrightarrow> wf_Manager f'"
  by (auto simp: ComputeNext_def Let_def wf_Manager_def mult.commute split: if_splits
      dest!: ComputeNext_loop_length)

lemma ComputeNext_bounds:
  assumes wf: "8 + FeeDimensions * dimensionStateLen \<le> length (fm_raw f)"
    and "\<And>i. i < FeeDimensions \<Longrightarrow> GetWindowTargetUnits r ! i \<noteq> 0 \<and> GetUnitPriceChangeDenominator r ! i \<noteq> 0"
  shows "\<exists>f'. ComputeNext f t r = Some f' \<and> wf_Manager f' \<and>
    take 8 (fm_raw f') = PutUint64 (go_int64_div t 1000) \<and>
    (\<forall>i < FeeDimensions. lastConsumed f' i = 0 \<and>
       manager_window f' i = next_window (manager_window f i) (lastConsumed f i)
         (go_int64_div t 1000 - Uint64 (take 8 (fm_raw f))) \<and>
       GetMinUnitPrice r ! i \<le> unitPrice f' i \<and>
       (if Window_Sum (manager_window f' i) > GetWindowTargetUnits r ! i
        then unitPrice f i < unitPrice f' i \<or> unitPrice f' i = MaxUint64
        else unitPrice f' i \<le> max (unitPrice f i) (GetMinUnitPrice r ! i)))"
proof -
  let ?since = "go_int64_div t 1000 - Uint64 (take 8 (fm_raw f))"
  obtain f' where f': "ComputeNext f t r = Some f'" "wf_Manager f'"
    "take 8 (fm_raw f') = PutUint64 (go_int64_div t 1000)"
    "\<And>i. i < FeeDimensions \<Longrightarrow> lastConsumed f' i = 0 \<and>
      computeNextPriceWindow (manager_window f i) (lastConsumed f i) (unitPrice f i) (GetWindowTargetUnits r ! i)
        (GetUnitPriceChangeDenominator r ! i) (GetMinUnitPrice r ! i) ?since =
      Some (unitPrice f' i, manager_window f' i)"
    using ComputeNext_spec [where r = r, OF wf assms(2)] by blast
  have "manager_window f' i = next_window (manager_window f i) (lastConsumed f i) ?since \<and>
      GetMinUnitPrice r ! i \<le> unitPrice f' i \<and>
      (if Window_Sum (manager_window f' i) > GetWindowTargetUnits r ! i
       then unitPrice f i < unitPrice f' i \<or> unitPrice f' i = MaxUint64
       else unitPrice f' i \<le> max (unitPrice f i) (GetMinUnitPrice r ! i))" if i: "i < FeeDimensions" for i
    using next_price_bounds [where w = "manager_window f i" and u = "lastConsumed f i" and p = "unitPrice f i"
        and mp = "GetMinUnitPrice r ! i" and since = ?since] assms(2) [OF i] f'(4) [OF i] by fastforce
  with f' show ?thesis by blast
qed

section \<open>Properties\<close>

text \<open>
  C23: the fee of a transaction is the exact sum of unit price times units over the five dimensions,
  or an overflow error when that sum does not fit 64 bits; it never wraps.
\<close>

theorem fee_is_exact:
  assumes "wf_Dimensions d"
  shows "Fee f d =
    (if dot (UnitPrices f) d < 2 ^ 64 then Inr (word_of_nat (dot (UnitPrices f) d))
     else Inl (Sentinel ErrOverflow))"
  using assms
  by (simp add: Fee_MulSum MulSum_exact UnitPrices_def wf_Dimensions_def)

definition sample_manager :: Manager where
  "sample_manager = setUnitPrice 0 100 (NewManager [])"

theorem fee_is_exact_witness: "Fee sample_manager [24, 0, 0, 0, 0] = Inr 2400"
proof -
  have "UnitPrices sample_manager = [100, 0, 0, 0, 0]"
    by (simp add: UnitPrices_def FeeDimensions_def unitPrice_def sample_manager_def
          setUnitPrice_def NewManager_def dimensionStateLen_def WindowSliceSize_def WindowSize_def
          copy_at_def upt_rec Let_def numeral_eq_Suc)
  then show ?thesis
    using fee_is_exact [of "[24, 0, 0, 0, 0]" sample_manager]
    by (simp add: wf_Dimensions_def FeeDimensions_def)
qed

text \<open>
  C12: consuming units of a block is all or nothing. When every dimension stays within its limit the
  consumption of each grows by exactly its units; otherwise the manager is unchanged and a dimension
  that exceeds its limit is named. Prices never change.
\<close>

theorem consume_all_or_nothing:
  assumes "wf_Manager f"
  shows "if \<forall>i < FeeDimensions. consumable f d l i
    then \<exists>f'. Consume d l f = ((True, 0), f') \<and> wf_Manager f' \<and>
           (\<forall>i < FeeDimensions. unat (lastConsumed f' i) = unat (lastConsumed f i) + unat (d ! i) \<and>
                                unitPrice f' i = unitPrice f i)
    else \<exists>i < FeeDimensions. Consume d l f = ((False, i), f) \<and> \<not> consumable f d l i"
  using assms
proof (cases rule: Consume_cases [where d = d and l = l])
  case (ok f')
  have "unat (lastConsumed f' i) = unat (lastConsumed f i) + unat (d ! i)" if "i < FeeDimensions" for i
    using ok(3,4) that unat_less_64 [of "l ! i"]
    by (fastforce simp: consumable_def intro: unat_add_no_wrap)
  with ok show ?thesis by auto
next
  case (refused i)
  then show ?thesis by auto
qed

theorem consume_all_or_nothing_witness:
  "\<exists>i < 5. Consume [1, 0, 0, 0, 0] [0, 0, 0, 0, 0] (NewManager []) = ((False, i), NewManager [])"
proof -
  have "wf_Manager (NewManager [])" by (simp add: wf_Manager_def NewManager_def)
  moreover have "\<not> consumable (NewManager []) [1, 0, 0, 0, 0] [0, 0, 0, 0, 0] 0"
    by (simp add: consumable_def)
  ultimately show ?thesis
    using consume_all_or_nothing [of "NewManager []" "[1, 0, 0, 0, 0]" "[0, 0, 0, 0, 0]"]
    by (auto simp: FeeDimensions_def split: if_splits)
qed

text \<open>
  C26: the fee manager of the next block. From a manager of full length and with non-zero targets and
  denominators it is always computed; it carries the second of the block and no consumption. In every
  dimension the window of ten seconds moves on by the seconds \<open>s\<close> since the parent: each slot holds what
  was \<open>s\<close> slots later, the newest of these gets the consumption of the parent on top (at most the
  largest 64-bit value), the others are empty. The price is at least the minimum price; when the sum
  of the slots (at most the largest 64-bit value) is above the target, the price rises or is the
  largest 64-bit value, otherwise it does not rise above the larger of the old price and the minimum.
\<close>

theorem next_manager:
  assumes "wf_Manager f"
    and "\<forall>i < FeeDimensions. GetWindowTargetUnits r ! i \<noteq> 0 \<and> GetUnitPriceChangeDenominator r ! i \<noteq> 0"
    and "s = unat (go_int64_div t 1000 - Uint64 (take 8 (fm_raw f)))"
  shows "\<exists>f'. ComputeNext f t r = Some f' \<and> wf_Manager f' \<and>
    take 8 (fm_raw f') = PutUint64 (go_int64_div t 1000) \<and>
    (\<forall>i < FeeDimensions. lastConsumed f' i = 0 \<and>
       (\<forall>j < 10. slots (manager_window f' i) j =
          (if j + s < 9 then slots (manager_window f i) (j + s)
           else if j + s = 9 then min (slots (manager_window f i) 9 + unat (lastConsumed f i)) (2 ^ 64 - 1)
           else 0)) \<and>
       GetMinUnitPrice r ! i \<le> unitPrice f' i \<and>
       (if min (\<Sum>j < 10. slots (manager_window f' i) j) (2 ^ 64 - 1) > unat (GetWindowTargetUnits r ! i)
        then unitPrice f i < unitPrice f' i \<or> unat (unitPrice f' i) = 2 ^ 64 - 1
        else unitPrice f' i \<le> max (unitPrice f i) (GetMinUnitPrice r ! i)))"
proof -
  let ?since = "go_int64_div t 1000 - Uint64 (take 8 (fm_raw f))"
  have wf: "8 + FeeDimensions * dimensionStateLen \<le> length (fm_raw f)" using assms(1) by (simp add: wf_Manager_def)
  obtain f' where f': "ComputeNext f t r = Some f'" "wf_Manager f'" "take 8 (fm_raw f') = PutUint64 (go_int64_div t 1000)"
    "\<forall>i < FeeDimensions. lastConsumed f' i = 0 \<and>
       manager_window f' i = next_window (manager_window f i) (lastConsumed f i) ?since \<and>
       GetMinUnitPrice r ! i \<le> unitPrice f' i \<and>
       (if Window_Sum (manager_window f' i) > GetWindowTargetUnits r ! i
        then unitPrice f i < unitPrice f' i \<or> unitPrice f' i = MaxUint64
        else unitPrice f' i \<le> max (unitPrice f i) (GetMinUnitPrice r ! i))"
    using ComputeNext_bounds [where r = r and t = t, OF wf] assms(2) by blast
  have sl: "slots (manager_window f' i) j =
      (if j + s < 9 then slots (manager_window f i) (j + s)
       else if j + s = 9 then min (slots (manager_window f i) 9 + unat (lastConsumed f i)) (2 ^ 64 - 1) else 0)"
    if "i < FeeDimensions" "j < 10" for i j
  proof -
    have "wf_Window (manager_window f i)"
      using assms(1) that(1) by (simp add: wf_Window_def manager_window_def Let_def manager_defs)
    from slots_next_window [OF this, of j] that f'(4) show ?thesis by (auto simp: assms(3) Let_def WindowSize_def)
  qed
  have total: "Window_Sum (manager_window f' i) > GetWindowTargetUnits r ! i \<longleftrightarrow>
      min (\<Sum>j < 10. slots (manager_window f' i) j) (2 ^ 64 - 1) > unat (GetWindowTargetUnits r ! i)" for i
    using Window_Sum_slots [of "manager_window f' i"] by (simp only: word_less_nat_alt WindowSize_def)
  have top: "x = MaxUint64 \<longleftrightarrow> unat x = 2 ^ 64 - 1" for x
    by (simp only: word_unat_eq_iff unat_MaxUint64)
  show ?thesis
  proof (intro exI [of _ f'] conjI allI impI)
    fix i assume i: "i < FeeDimensions"
    note at = f'(4) [rule_format, OF i, unfolded total top]
    show "lastConsumed f' i = 0" "GetMinUnitPrice r ! i \<le> unitPrice f' i"
      "if min (\<Sum>j < 10. slots (manager_window f' i) j) (2 ^ 64 - 1) > unat (GetWindowTargetUnits r ! i)
       then unitPrice f i < unitPrice f' i \<or> unat (unitPrice f' i) = 2 ^ 64 - 1
       else unitPrice f' i \<le> max (unitPrice f i) (GetMinUnitPrice r ! i)"
      using at by blast+
  qed (fact f'(1-3) | rule sl; assumption)+
qed

theorem next_manager_witness:
  "\<exists>f'. ComputeNext (NewManager []) 5000
       \<lparr>GetMinUnitPrice = [1, 2, 3, 4, 5], GetUnitPriceChangeDenominator = [48, 48, 48, 48, 48],
        GetWindowTargetUnits = [9, 9, 9, 9, 9], GetMaxBlockUnits = [9, 9, 9, 9, 9]\<rparr> = Some f' \<and>
    3 \<le> unitPrice f' 2 \<and> lastConsumed f' 4 = 0"
proof -
  let ?r = "\<lparr>GetMinUnitPrice = [1, 2, 3, 4, 5], GetUnitPriceChangeDenominator = [48, 48, 48, 48, 48],
        GetWindowTargetUnits = [9, 9, 9, 9, 9], GetMaxBlockUnits = [9, 9, 9, 9, 9]\<rparr> :: fee_Rules"
  have "i < FeeDimensions \<Longrightarrow> i \<in> {0, 1, 2, 3, 4}" for i by (auto simp: FeeDimensions_def)
  then have "\<forall>i < FeeDimensions. GetWindowTargetUnits ?r ! i \<noteq> 0 \<and> GetUnitPriceChangeDenominator ?r ! i \<noteq> 0"
    by fastforce
  moreover have "wf_Manager (NewManager [])" by (simp add: wf_Manager_def NewManager_def)
  ultimately obtain f' where f': "ComputeNext (NewManager []) 5000 ?r = Some f'"
      "\<forall>i < FeeDimensions. lastConsumed f' i = 0 \<and> GetMinUnitPrice ?r ! i \<le> unitPrice f' i"
    using next_manager [OF _ _ refl, of "NewManager []" ?r 5000] by blast
  from f'(2) [rule_format, of 2] f'(2) [rule_format, of 4] f'(1) show ?thesis by (simp add: FeeDimensions_def)
qed

end
