(* ===== verification/Transactions.thy ===== *)
theory Transactions
  imports BuyNoAction CreateMarketAction Fees
begin

text \<open>
  Transactions of hypersdk over the actions of this program (\<^verbatim>\<open>chain/transaction.go\<close>,
  \<^verbatim>\<open>chain/base.go\<close>): the declared state keys, the units and the fee, the checks before
  execution, and the execution that charges the fee, runs the actions and rolls back when one fails.
  Shown: the declared keys are exactly those of the actions and the sponsor, a failed transaction
  changes nothing but the sponsor's balance, and the accounting of units is exact. The
  authentication of a transaction is a parameter (a record of what the code asks of it), as is the
  randomness each action would draw.
\<close>

section \<open>Actions\<close>

datatype Action = ActCreateMarket CreateMarket | ActBuyYes BuyYes | ActBuyNo BuyNo

fun Action_GetTypeID :: "Action \<Rightarrow> u8" where
  "Action_GetTypeID (ActCreateMarket _) = CreateMarket_GetTypeID"
| "Action_GetTypeID (ActBuyYes _) = BuyYes_GetTypeID"
| "Action_GetTypeID (ActBuyNo _) = BuyNo_GetTypeID"

fun Action_StateKeys :: "Action \<Rightarrow> Address \<Rightarrow> Keys" where
  "Action_StateKeys (ActCreateMarket _) actor = CreateMarket_StateKeys actor"
| "Action_StateKeys (ActBuyYes b) actor = BuyYes_StateKeys b actor"
| "Action_StateKeys (ActBuyNo b) actor = BuyNo_StateKeys b actor"

fun Action_ComputeUnits :: "Action \<Rightarrow> u64" where
  "Action_ComputeUnits (ActCreateMarket _) = CreateMarket_ComputeUnits"
| "Action_ComputeUnits (ActBuyYes _) = BuyYes_ComputeUnits"
| "Action_ComputeUnits (ActBuyNo _) = BuyNo_ComputeUnits"

fun Action_ValidRange :: "Action \<Rightarrow> i64 \<times> i64" where
  "Action_ValidRange (ActCreateMarket _) = CreateMarket_ValidRange"
| "Action_ValidRange (ActBuyYes _) = BuyYes_ValidRange"
| "Action_ValidRange (ActBuyNo _) = BuyNo_ValidRange"

fun Action_Execute ::
  "(bytes \<Rightarrow> bytes) \<Rightarrow> bytes result \<Rightarrow> 's state_Mutable \<Rightarrow> Action \<Rightarrow> 's \<Rightarrow> i64 \<Rightarrow> Address \<Rightarrow>
   bytes result \<times> 's" where
  "Action_Execute sha256 rand mu (ActCreateMarket cm) s ts actor =
     CreateMarket_Execute sha256 rand mu cm s ts actor"
| "Action_Execute sha256 rand mu (ActBuyYes b) s ts actor = BuyYes_Execute mu b s ts actor"
| "Action_Execute sha256 rand mu (ActBuyNo b) s ts actor = BuyNo_Execute mu b s ts actor"

section \<open>Rules, base and authentication\<close>

record Rules = fee_Rules +
  GetNetworkID :: u32
  GetChainID :: bytes
  GetMinBlockGap :: i64
  GetMinEmptyBlockGap :: i64
  GetValidityWindow :: i64
  GetMaxActionsPerTx :: u8
  GetBaseComputeUnits :: u64
  GetStorageKeyReadUnits :: u64
  GetStorageValueReadUnits :: u64
  GetStorageKeyAllocateUnits :: u64
  GetStorageValueAllocateUnits :: u64
  GetStorageKeyWriteUnits :: u64
  GetStorageValueWriteUnits :: u64
  GetSponsorStateKeysMaxChunks :: "u16 list"

definition NewDefaultRules :: Rules where
  "NewDefaultRules =
     \<lparr>GetMinUnitPrice = [100, 100, 100, 100, 100],
      GetUnitPriceChangeDenominator = [48, 48, 48, 48, 48],
      GetWindowTargetUnits = [20000000, 1000, 1000, 1000, 1000],
      GetMaxBlockUnits = [1800000, 2000, 2000, 2000, 2000],
      GetNetworkID = 0, GetChainID = replicate IDLen 0, GetMinBlockGap = 100, GetMinEmptyBlockGap = 750,
      GetValidityWindow = 60 * 1000, GetMaxActionsPerTx = 16, GetBaseComputeUnits = 1,
      GetStorageKeyReadUnits = 5, GetStorageValueReadUnits = 2, GetStorageKeyAllocateUnits = 20,
      GetStorageValueAllocateUnits = 5, GetStorageKeyWriteUnits = 10,
      GetStorageValueWriteUnits = 3, GetSponsorStateKeysMaxChunks = [1]\<rparr>"

record Base =
  base_Timestamp :: i64
  base_ChainID :: bytes
  base_MaxFee :: u64

definition VerifyTimestamp :: "i64 \<Rightarrow> i64 \<Rightarrow> int \<Rightarrow> i64 \<Rightarrow> go_error option" where
  "VerifyTimestamp containerTimestamp executionTimestamp divisor validityWindow =
     (if sint containerTimestamp smod divisor \<noteq> 0
      then Some (Wrapf ''%w: timestamp (%d) %% divisor (%d) != 0''
             [FI64 containerTimestamp, FI64 (word_of_int divisor)] (Sentinel ErrMisalignedTime))
      else if i64_less containerTimestamp executionTimestamp
      then Some (Wrapf ''%w: timestamp (%d) < block timestamp (%d)''
             [FI64 containerTimestamp, FI64 executionTimestamp] (Sentinel ErrTimestampExpired))
      else if i64_less (executionTimestamp + validityWindow) containerTimestamp
      then Some (Wrapf ''%w: timestamp (%d) > block timestamp (%d) + validity window (%d)''
             [FI64 containerTimestamp, FI64 executionTimestamp, FI64 validityWindow]
             (Sentinel ErrFutureTimestamp))
      else None)"

definition Base_Execute :: "Base \<Rightarrow> Rules \<Rightarrow> i64 \<Rightarrow> go_error option" where
  "Base_Execute b r timestamp =
     (if base_ChainID b \<noteq> GetChainID r
      then Some (Wrapf ''%w: chainID=%s, expected=%s'' [FBytes (base_ChainID b), FBytes (GetChainID r)]
             (Sentinel ErrInvalidChainID))
      else VerifyTimestamp (base_Timestamp b) timestamp 1000 (GetValidityWindow r))"

text \<open>What a transaction asks of its \<^verbatim>\<open>Auth\<close>.\<close>

record Auth =
  Actor :: Address
  Sponsor :: Address
  auth_ComputeUnits :: u64
  auth_ValidRange :: "i64 \<times> i64"

record Transaction =
  tx_Base :: Base
  tx_Actions :: "Action list"
  tx_Auth :: Auth
  tx_Size :: u64

section \<open>State keys\<close>

fun add_keys :: "Keys \<Rightarrow> Keys \<Rightarrow> Keys option" where
  "add_keys [] stateKeys = Some stateKeys"
| "add_keys ((k, v) # kvs) stateKeys =
     (case Keys_Add stateKeys k v of
        (False, _) \<Rightarrow> None
      | (True, stateKeys') \<Rightarrow> add_keys kvs stateKeys')"

fun add_action_keys :: "Action list \<Rightarrow> Address \<Rightarrow> Keys \<Rightarrow> Keys option" where
  "add_action_keys [] actor stateKeys = Some stateKeys"
| "add_action_keys (a # as) actor stateKeys =
     (case add_keys (Action_StateKeys a actor) stateKeys of
        None \<Rightarrow> None
      | Some stateKeys' \<Rightarrow> add_action_keys as actor stateKeys')"

text \<open>
  The cached copy of the keys is the value of the first call; \<^verbatim>\<open>bh\<close> and the transaction are
  the same on every call, so the function is written without the cache.
\<close>

definition Transaction_StateKeys :: "'s BalanceHandler \<Rightarrow> Transaction \<Rightarrow> Keys result" where
  "Transaction_StateKeys bh t =
     (case add_action_keys (tx_Actions t) (Actor (tx_Auth t)) [] of
        None \<Rightarrow> Inl (Sentinel ErrInvalidKeyValue)
      | Some stateKeys \<Rightarrow>
          (case add_keys (bh_SponsorStateKeys bh (Sponsor (tx_Auth t))) stateKeys of
             None \<Rightarrow> Inl (Sentinel ErrInvalidKeyValue)
           | Some stateKeys' \<Rightarrow> Inr stateKeys'))"

section \<open>Units\<close>

definition key_units :: "u64 \<Rightarrow> u64 \<Rightarrow> u16 \<Rightarrow> Uint64Operator \<Rightarrow> Uint64Operator" where
  "key_units keyUnits valueUnits maxChunks oper =
     uop_MulAdd (ucast maxChunks) valueUnits (uop_Add keyUnits oper)"

fun storage_units ::
  "Rules \<Rightarrow> bytes list \<Rightarrow> Uint64Operator \<times> Uint64Operator \<times> Uint64Operator \<Rightarrow>
   (Uint64Operator \<times> Uint64Operator \<times> Uint64Operator) option" where
  "storage_units r [] ops = Some ops"
| "storage_units r (k # ks) (readsOp, allocatesOp, writesOp) =
     (case MaxChunks k of
        None \<Rightarrow> None
      | Some maxChunks \<Rightarrow>
          storage_units r ks
            (key_units (GetStorageKeyReadUnits r) (GetStorageValueReadUnits r) maxChunks readsOp,
             key_units (GetStorageKeyAllocateUnits r) (GetStorageValueAllocateUnits r) maxChunks
               allocatesOp,
             key_units (GetStorageKeyWriteUnits r) (GetStorageValueWriteUnits r) maxChunks writesOp))"

definition Transaction_Units :: "'s BalanceHandler \<Rightarrow> Rules \<Rightarrow> Transaction \<Rightarrow> Dimensions result" where
  "Transaction_Units bh r t =
     (let computeOp = uop_Add (auth_ComputeUnits (tx_Auth t))
            (fold (\<lambda>a. uop_Add (Action_ComputeUnits a)) (tx_Actions t)
               (NewUint64Operator (GetBaseComputeUnits r))) in
      case uop_Value computeOp of
        Inl err \<Rightarrow> Inl err
      | Inr maxComputeUnits \<Rightarrow>
       (case Transaction_StateKeys bh t of
          Inl err \<Rightarrow> Inl err
        | Inr stateKeys \<Rightarrow>
         (case storage_units r (map fst stateKeys)
                 (NewUint64Operator 0, NewUint64Operator 0, NewUint64Operator 0) of
            None \<Rightarrow> Inl (Sentinel ErrInvalidKeyValue)
          | Some (readsOp, allocatesOp, writesOp) \<Rightarrow>
           (case uop_Value readsOp of
              Inl err \<Rightarrow> Inl err
            | Inr readUnits \<Rightarrow>
             (case uop_Value allocatesOp of
                Inl err \<Rightarrow> Inl err
              | Inr allocateUnits \<Rightarrow>
               (case uop_Value writesOp of
                  Inl err \<Rightarrow> Inl err
                | Inr writeUnits \<Rightarrow>
                    Inr [tx_Size t, maxComputeUnits, readUnits, allocateUnits, writeUnits]))))))"

section \<open>Execution\<close>

definition out_of_range :: "i64 \<times> i64 \<Rightarrow> i64 \<Rightarrow> bool" where
  "out_of_range rng timestamp \<longleftrightarrow>
     (let (start, end') = rng in
      i64_le 0 start \<and> i64_less timestamp start \<or> i64_le 0 end' \<and> i64_less end' timestamp)"

fun check_ranges :: "nat \<Rightarrow> Action list \<Rightarrow> i64 \<Rightarrow> go_error option" where
  "check_ranges i [] timestamp = None"
| "check_ranges i (a # as) timestamp =
     (if out_of_range (Action_ValidRange a) timestamp
      then Some (Wrapf ''%w: action type %d at index %d'' [FU8 (Action_GetTypeID a), FNat i]
             (Sentinel ErrActionNotActivated))
      else check_ranges (Suc i) as timestamp)"

definition PreExecute ::
  "Manager \<Rightarrow> 's BalanceHandler \<Rightarrow> Rules \<Rightarrow> Transaction \<Rightarrow> 's \<Rightarrow> i64 \<Rightarrow> go_error option" where
  "PreExecute feeManager bh r t s timestamp =
     (case Base_Execute (tx_Base t) r timestamp of
        Some err \<Rightarrow> Some err
      | None \<Rightarrow>
        if length (tx_Actions t) > unat (GetMaxActionsPerTx r) then Some (Sentinel ErrTooManyActions)
        else case check_ranges 0 (tx_Actions t) timestamp of
          Some err \<Rightarrow> Some err
        | None \<Rightarrow>
          if out_of_range (auth_ValidRange (tx_Auth t)) timestamp then Some (Sentinel ErrAuthNotActivated)
          else case Transaction_Units bh r t of
            Inl err \<Rightarrow> Some err
          | Inr units \<Rightarrow>
             (case Fee feeManager units of
                Inl err \<Rightarrow> Some err
              | Inr fee \<Rightarrow> bh_CanDeduct bh (Sponsor (tx_Auth t)) s fee))"

text \<open>The error of a result is kept as a value; hypersdk stores its text.\<close>

record Result =
  Success :: bool
  result_Error :: "go_error option"
  Outputs :: "bytes list"
  result_Units :: Dimensions
  result_Fee :: u64

fun run_actions ::
  "(bytes \<Rightarrow> bytes) \<Rightarrow> (nat \<Rightarrow> bytes result) \<Rightarrow> i64 \<Rightarrow> Address \<Rightarrow> nat \<Rightarrow> Action list \<Rightarrow> bytes list \<Rightarrow>
   TStateView \<Rightarrow> (go_error option \<times> bytes list) \<times> TStateView" where
  "run_actions sha256 rand timestamp actor i [] outs v = ((None, outs), v)"
| "run_actions sha256 rand timestamp actor i (a # as) outs v =
     (case Action_Execute sha256 (rand i) TStateView_Mutable a v timestamp actor of
        (Inl err, v') \<Rightarrow> ((Some err, outs), v')
      | (Inr out, v') \<Rightarrow> run_actions sha256 rand timestamp actor (Suc i) as (outs @ [out]) v')"

definition Transaction_Execute ::
  "(bytes \<Rightarrow> bytes) \<Rightarrow> (nat \<Rightarrow> bytes result) \<Rightarrow> Manager \<Rightarrow> TStateView BalanceHandler \<Rightarrow> Rules \<Rightarrow>
   Transaction \<Rightarrow> TStateView \<Rightarrow> i64 \<Rightarrow> Result result \<times> TStateView" where
  "Transaction_Execute sha256 rand feeManager bh r t ts timestamp =
     (case Transaction_Units bh r t of
        Inl err \<Rightarrow> (Inl (Wrapf ''failed to calculate tx units: %w'' [] err), ts)
      | Inr units \<Rightarrow>
       (case Fee feeManager units of
          Inl err \<Rightarrow> (Inl (Wrapf ''failed to calculate tx fee: %w'' [] err), ts)
        | Inr fee \<Rightarrow>
         (case bh_Deduct bh (Sponsor (tx_Auth t)) ts fee of
            (Some err, ts1) \<Rightarrow> (Inl (Wrapf ''failed to deduct tx fee: %w'' [] err), ts1)
          | (None, ts1) \<Rightarrow>
           (let actionStart = OpIndex ts1 in
            case run_actions sha256 rand timestamp (Actor (tx_Auth t)) 0 (tx_Actions t) [] ts1 of
              ((Some err, outs), ts2) \<Rightarrow>
                (Inr \<lparr>Success = False, result_Error = Some err, Outputs = outs,
                      result_Units = units, result_Fee = fee\<rparr>, Rollback actionStart ts2)
            | ((None, outs), ts2) \<Rightarrow>
                (Inr \<lparr>Success = True, result_Error = None, Outputs = outs,
                      result_Units = units, result_Fee = fee\<rparr>, ts2)))))"

section \<open>The declared keys\<close>

text \<open>\<open>declared kvs key\<close>: the permissions a list of declarations gives for a key.\<close>

fun declared :: "Keys \<Rightarrow> bytes \<Rightarrow> Permissions" where
  "declared [] key = PermNone"
| "declared ((k, v) # kvs) key = (if k = key then v OR declared kvs key else declared kvs key)"

lemma declared_append [simp]: "declared (xs @ ys) key = declared xs key OR declared ys key"
  by (induction xs key rule: declared.induct) (simp_all add: PermNone_def or.assoc)

lemma add_keys_valid:
  "add_keys kvs ks \<noteq> None \<longleftrightarrow> (\<forall>(k, v) \<in> set kvs. keys_Valid k)"
proof (induction kvs arbitrary: ks)
  case (Cons kv kvs)
  obtain k v where kv: "kv = (k, v)" by force
  show ?case
    using Cons [of "AList.update k (Keys_lookup ks k OR v) ks"]
    by (cases "keys_Valid k") (simp_all add: kv Keys_Add_def)
qed simp

lemma add_keys_lookup:
  "add_keys kvs ks = Some ks' \<Longrightarrow> Keys_lookup ks' key = Keys_lookup ks key OR declared kvs key"
proof (induction kvs arbitrary: ks)
  case Nil
  then show ?case by (simp add: PermNone_def)
next
  case (Cons kv kvs)
  obtain k v where kv: "kv = (k, v)" by force
  show ?case
  proof (cases "keys_Valid k")
    case True
    with Cons.prems have "add_keys kvs (snd (Keys_Add ks k v)) = Some ks'"
      by (simp add: kv Keys_Add_def)
    from Cons.IH [OF this] True show ?thesis
      by (simp add: kv Keys_lookup_Add or.assoc)
  next
    case False
    with Cons.prems show ?thesis by (simp add: kv Keys_Add_def)
  qed
qed

lemma add_keys_append:
  "add_keys (xs @ ys) ks = (case add_keys xs ks of None \<Rightarrow> None | Some ks' \<Rightarrow> add_keys ys ks')"
  by (induction xs ks rule: add_keys.induct) (auto split: prod.splits bool.splits)

lemma add_action_keys_eq:
  "add_action_keys as actor ks = add_keys (concat (map (\<lambda>a. Action_StateKeys a actor) as)) ks"
  by (induction as arbitrary: ks) (auto simp: add_keys_append split: option.splits)

text \<open>All keys a transaction declares, the sponsor's included.\<close>

definition tx_declared :: "'s BalanceHandler \<Rightarrow> Transaction \<Rightarrow> Keys" where
  "tx_declared bh t =
     concat (map (\<lambda>a. Action_StateKeys a (Actor (tx_Auth t))) (tx_Actions t)) @
     bh_SponsorStateKeys bh (Sponsor (tx_Auth t))"

lemma Transaction_StateKeys_eq:
  "Transaction_StateKeys bh t =
     (case add_keys (tx_declared bh t) [] of
        None \<Rightarrow> Inl (Sentinel ErrInvalidKeyValue) | Some ks \<Rightarrow> Inr ks)"
  by (simp add: Transaction_StateKeys_def tx_declared_def add_action_keys_eq add_keys_append
        split: option.splits)

lemma Transaction_StateKeys_lookup:
  "Transaction_StateKeys bh t = Inr ks \<Longrightarrow> Keys_lookup ks key = declared (tx_declared bh t) key"
  using add_keys_lookup [of "tx_declared bh t" "[]" ks key]
  by (simp add: Transaction_StateKeys_eq Keys_lookup_def PermNone_def split: option.splits)

lemma Transaction_StateKeys_ok:
  "(\<exists>ks. Transaction_StateKeys bh t = Inr ks) \<longleftrightarrow> (\<forall>(k, v) \<in> set (tx_declared bh t). keys_Valid k)"
  using add_keys_valid [of "tx_declared bh t" "[]"]
  by (auto simp: Transaction_StateKeys_eq split: option.splits)

section \<open>What a run of the actions keeps\<close>

context tracked_store
begin

lemma rel_Action_Execute: "Action_Execute sha256 rnd mu a s ts actor = (r, s') \<Longrightarrow> rel s s'"
  by (cases a) (auto dest: rel_BuyYes_Execute rel_BuyNo_Execute rel_CreateMarket_Execute)

lemma rel_Controller_Deduct: "bh_Deduct (Controller_New mu) a s v = (e, s') \<Longrightarrow> rel s s'"
  by (auto simp: Controller_New_def Controller_Deduct_def intro: rel_DeductBalance)

end

lemma run_actions_tracked:
  assumes "tracked_store TStateView_Mutable rel"
  shows "run_actions sha256 rnd ts actor i as outs v = (r, v') \<Longrightarrow> rel v v'"
proof (induction sha256 rnd ts actor i as outs v rule: run_actions.induct)
  case 1
  then show ?case using tracked_store.rel_refl [OF assms] by auto
next
  case (2 sha256 rnd ts actor i a as outs v)
  obtain x w where x: "Action_Execute sha256 (rnd i) TStateView_Mutable a v ts actor = (x, w)"
    by force
  then have "rel v w" by (rule tracked_store.rel_Action_Execute [OF assms])
  with 2 x show ?case
    by (auto split: sum.splits intro: tracked_store.rel_trans [OF assms])
qed

text \<open>
  The three outcomes of executing a transaction: an error before anything was charged, a failed
  action, and success.
\<close>

lemma Transaction_Execute_cases:
  assumes "Transaction_Execute sha256 rnd fm bh r t v ts = (res, v')"
  obtains (uncharged) e where "res = Inl e" "v' = v \<or>
      (\<exists>fee e'. bh_Deduct bh (Sponsor (tx_Auth t)) v fee = (Some e', v'))"
  | (failed) units fee e outs v1 v2 where "Transaction_Units bh r t = Inr units"
      "Fee fm units = Inr fee" "bh_Deduct bh (Sponsor (tx_Auth t)) v fee = (None, v1)"
      "run_actions sha256 rnd ts (Actor (tx_Auth t)) 0 (tx_Actions t) [] v1 = ((Some e, outs), v2)"
      "res = Inr \<lparr>Success = False, result_Error = Some e, Outputs = outs,
                  result_Units = units, result_Fee = fee\<rparr>" "v' = Rollback (OpIndex v1) v2"
  | (succeeded) units fee outs v1 where "Transaction_Units bh r t = Inr units"
      "Fee fm units = Inr fee" "bh_Deduct bh (Sponsor (tx_Auth t)) v fee = (None, v1)"
      "run_actions sha256 rnd ts (Actor (tx_Auth t)) 0 (tx_Actions t) [] v1 = ((None, outs), v')"
      "res = Inr \<lparr>Success = True, result_Error = None, Outputs = outs,
                  result_Units = units, result_Fee = fee\<rparr>"
  using assms unfolding Transaction_Execute_def Let_def
  by (auto split: sum.splits prod.splits option.splits)

section \<open>Fees are charged, failed actions are undone\<close>

abbreviation view_handler :: "TStateView BalanceHandler" where
  "view_handler \<equiv> Controller_New TStateView_Mutable"

lemma Deduct_view:
  assumes "wf_view v" and "bh_Deduct view_handler a v fee = (None, v1)"
  shows "\<exists>bal. GetBalance TStateView_Mutable v a = Inr bal \<and> fee \<le> bal \<and> wf_view v1 \<and>
    view_contents v1 = (view_contents v)(BalanceKey a \<mapsto> PutUint64 (bal - fee))"
proof -
  obtain bal where bal: "GetBalance TStateView_Mutable v a = Inr bal" "fee \<le> bal"
    and ins: "Insert TStateView_Mutable v (BalanceKey a) (PutUint64 (bal - fee)) = (None, v1)"
    using assms(2)
    by (auto simp: Controller_New_def Controller_Deduct_def tview.DeductBalance_spec [OF assms(1)]
          not_less split: sum.splits if_splits)
  show ?thesis
  proof (cases "insertable (view_contents v) (checkScope v) VerifyValue (BalanceKey a)
      (PutUint64 (bal - fee))")
    case True
    from tview.insert_ok [OF assms(1) this] ins bal show ?thesis by auto
  next
    case False
    from tview.insert_fail [OF assms(1) this] ins show ?thesis by simp
  qed
qed

lemma Deduct_view_fail:
  "wf_view v \<Longrightarrow> bh_Deduct view_handler a v fee = (Some e, v1) \<Longrightarrow> v1 = v"
  by (auto simp: Controller_New_def Controller_Deduct_def dest: tview.DeductBalance_fail)

lemma Rollback_run:
  assumes "wf_view v" and "run_actions sha256 rnd ts actor 0 as [] v = (r, w)"
  shows "view_contents (Rollback (OpIndex v) w) = view_contents v"
proof -
  have "extends v w"
    using assms(2) by (rule run_actions_tracked [OF tview_log.tracked_store_axioms])
  with assms(1) show ?thesis by (intro same_data_contents Rollback_extends(1))
qed

section \<open>Keys no transaction can create\<close>

text \<open>
  \<open>keeps_keys\<close>: in a view whose scope grants no allocation, the set of stored keys stays.
\<close>

definition no_alloc :: "TStateView \<Rightarrow> bool" where
  "no_alloc v \<longleftrightarrow> (\<forall>k. \<not> checkScope v k PermAllocate)"

definition keeps_keys :: "TStateView \<Rightarrow> TStateView \<Rightarrow> bool" where
  "keeps_keys v w \<longleftrightarrow>
     (wf_view v \<and> no_alloc v \<longrightarrow>
        wf_view w \<and> no_alloc w \<and> dom (view_contents w) = dom (view_contents v))"

lemma keeps_keys_Insert: "keeps_keys v (snd (TStateView_Insert v k x))"
  unfolding keeps_keys_def
proof
  assume v: "wf_view v \<and> no_alloc v"
  show "wf_view (snd (TStateView_Insert v k x)) \<and> no_alloc (snd (TStateView_Insert v k x)) \<and>
      dom (view_contents (snd (TStateView_Insert v k x))) = dom (view_contents v)"
  proof (cases "insertable (view_contents v) (checkScope v) VerifyValue k x")
    case True
    then have "view_contents v k \<noteq> None"
      using v by (auto simp: insertable_def no_alloc_def)
    with TStateView_Insert_ok [OF _ True] v show ?thesis
      by (auto simp: no_alloc_def split: if_splits)
  next
    case False
    with v show ?thesis by (simp add: TStateView_Insert_fail)
  qed
qed

interpretation tview_keys: tracked_store TStateView_Mutable keeps_keys
  by unfold_locales
     (auto simp: keeps_keys_def TStateView_Mutable_def keeps_keys_Insert [unfolded keeps_keys_def])

text \<open>No declaration of the program has the allocate bit.\<close>

lemma declared_no_bit1:
  "(\<And>k v. (k, v) \<in> set kvs \<Longrightarrow> \<not> bit v 1) \<Longrightarrow> \<not> bit (declared kvs key) 1"
  by (induction kvs key rule: declared.induct) (auto simp: PermNone_def bit_simps)

lemma program_keys_no_bit1:
  "(k, v) \<in> set (tx_declared view_handler t) \<Longrightarrow> \<not> bit v 1"
proof -
  have "\<not> bit PermRead 1" "\<not> bit PermWrite 1" "\<not> bit (PermRead OR PermWrite) 1"
    by (simp_all add: Perm_defs bit_simps)
  moreover have "(k, v) \<in> set (Action_StateKeys a actor) \<Longrightarrow> v \<in> {PermWrite, PermRead OR PermWrite}"
    for a actor
    by (cases a) (auto simp: CreateMarket_StateKeys_def BuyYes_StateKeys_def BuyNo_StateKeys_def)
  ultimately show "(k, v) \<in> set (tx_declared view_handler t) \<Longrightarrow> \<not> bit v 1"
    by (fastforce simp: tx_declared_def Controller_New_def SponsorStateKeys_def)
qed

lemma program_scope_no_alloc:
  assumes "Transaction_StateKeys view_handler t = Inr ks" and "view_scope v = ScopeKeys ks"
  shows "no_alloc v"
proof -
  have "\<not> bit (Keys_lookup ks k) 1" for k
    using declared_no_bit1 [OF program_keys_no_bit1, where key = k]
    by (simp add: Transaction_StateKeys_lookup [OF assms(1)])
  moreover have "bit PermAllocate 1"
    by (simp add: Perm_defs bit_simps)
  ultimately show ?thesis
    using assms(2) by (auto simp: no_alloc_def checkScope_def Keys_Has_def Perm_Has_bits)
qed

lemma Transaction_Execute_keeps_keys:
  assumes "wf_view v" and "no_alloc v"
    and "Transaction_Execute sha256 rnd fm view_handler r t v ts = (res, v')"
  shows "dom (view_contents v') = dom (view_contents v)"
  using assms(3)
proof (cases rule: Transaction_Execute_cases)
  case uncharged
  then have "v' = v" using Deduct_view_fail [OF assms(1)] by blast
  then show ?thesis by simp
next
  case (failed units fee e outs v1 v2)
  then have "keeps_keys v v1" by (intro tview_keys.rel_Controller_Deduct)
  with assms(1,2) have "wf_view v1" "dom (view_contents v1) = dom (view_contents v)"
    by (simp_all add: keeps_keys_def)
  with failed show ?thesis by (simp add: Rollback_run)
next
  case (succeeded units fee outs v1)
  then have "keeps_keys v v1" by (intro tview_keys.rel_Controller_Deduct)
  moreover have "keeps_keys v1 v'"
    using succeeded(4) by (rule run_actions_tracked [OF tview_keys.tracked_store_axioms])
  ultimately show ?thesis using assms(1,2) by (simp add: keeps_keys_def)
qed

section \<open>Properties\<close>

definition sample_auth :: Auth where
  "sample_auth = \<lparr>Actor = sample_address, Sponsor = sample_address, auth_ComputeUnits = 5,
     auth_ValidRange = (- 1, - 1)\<rparr>"

definition sample_tx :: Transaction where
  "sample_tx = \<lparr>tx_Base = \<lparr>base_Timestamp = 1000, base_ChainID = replicate IDLen 0, base_MaxFee = 0\<rparr>,
     tx_Actions = [ActBuyYes sample_buy], tx_Auth = sample_auth, tx_Size = 150\<rparr>"

definition bare_view :: "(bytes \<rightharpoonup> bytes) \<Rightarrow> Keys \<Rightarrow> TStateView" where
  "bare_view m ks = NewView TState_New (ScopeKeys ks) (ImmutableStorage_GetValue m)"

lemma wf_bare_view [simp]: "wf_view (bare_view m ks)" "view_scope (bare_view m ks) = ScopeKeys ks"
  by (simp_all add: bare_view_def wf_view_NewView) (simp add: NewView_def)

lemma sample_tx_keys: "\<exists>ks. Transaction_StateKeys view_handler sample_tx = Inr ks"
  unfolding Transaction_StateKeys_ok
  by (auto simp: tx_declared_def sample_tx_def sample_auth_def BuyYes_StateKeys_def
        Controller_New_def SponsorStateKeys_def keys_simps keys_Valid_def wf_Address_def
        AddressLen_def sample_address_def)

text \<open>
  C10: no transaction of this program can create a state entry. None of the keys its actions and its
  sponsor declare carries the allocate permission, so in a view with the declared keys execution
  leaves the set of stored keys as it was: no new market, no first share balance, no new account.
\<close>

theorem no_transaction_creates_keys:
  assumes "wf_view v" and "Transaction_StateKeys view_handler t = Inr ks"
    and "view_scope v = ScopeKeys ks"
  shows "dom (view_contents (snd (Transaction_Execute sha256 rnd fm view_handler r t v ts))) =
    dom (view_contents v)"
  using Transaction_Execute_keeps_keys [OF assms(1) program_scope_no_alloc [OF assms(2,3)]]
  by (metis prod.collapse)

theorem no_transaction_creates_keys_witness:
  "\<exists>ks. Transaction_StateKeys view_handler sample_tx = Inr ks \<and>
    dom (view_contents (snd (Transaction_Execute (\<lambda>_. replicate 32 0) (\<lambda>_. Inr (replicate 32 0))
      (NewManager []) view_handler NewDefaultRules sample_tx (bare_view sample_contents ks) 50))) =
    dom (view_contents (bare_view sample_contents ks))"
  using sample_tx_keys no_transaction_creates_keys [OF wf_bare_view(1) _ wf_bare_view(2)] by blast

text \<open>
  C2: what executing a transaction can do to the state. When it returns an error nothing changes.
  When an action fails everything the actions did is undone, and the only change is that the fee was
  taken from the sponsor's balance. When it succeeds the fee was taken first, in full, and the
  actions ran from that state.
\<close>

theorem transaction_outcome:
  assumes "wf_view v"
  shows "case Transaction_Execute sha256 rnd fm view_handler r t v ts of
      (Inl e, v') \<Rightarrow> v' = v
    | (Inr res, v') \<Rightarrow>
        (\<exists>bal v1. GetBalance TStateView_Mutable v (Sponsor (tx_Auth t)) = Inr bal \<and>
           result_Fee res \<le> bal \<and>
           view_contents v1 = (view_contents v)(BalanceKey (Sponsor (tx_Auth t)) \<mapsto>
             PutUint64 (bal - result_Fee res)) \<and>
           (if Success res
            then fst (run_actions sha256 rnd ts (Actor (tx_Auth t)) 0 (tx_Actions t) [] v1) =
                   (None, Outputs res) \<and>
                 v' = snd (run_actions sha256 rnd ts (Actor (tx_Auth t)) 0 (tx_Actions t) [] v1)
            else view_contents v' = view_contents v1))"
proof -
  obtain res v' where e: "Transaction_Execute sha256 rnd fm view_handler r t v ts = (res, v')"
    by force
  from e show ?thesis
  proof (cases rule: Transaction_Execute_cases)
    case uncharged
    then have "v' = v" using Deduct_view_fail [OF assms] by blast
    with uncharged e show ?thesis by simp
  next
    case (failed units fee er outs v1 v2)
    from Deduct_view [OF assms failed(3)] failed(4-6) e show ?thesis
      by (auto simp: Rollback_run intro!: exI [of _ v1])
  next
    case (succeeded units fee outs v1)
    from Deduct_view [OF assms succeeded(3)] succeeded(4,5) e show ?thesis
      by (auto intro!: exI [of _ v1])
  qed
qed

theorem transaction_outcome_witness:
  "\<exists>ks. case Transaction_Execute (\<lambda>_. replicate 32 0) (\<lambda>_. Inr (replicate 32 0)) (NewManager [])
       view_handler NewDefaultRules sample_tx (bare_view sample_contents ks) 50 of
      (Inl e, v') \<Rightarrow> v' = bare_view sample_contents ks
    | (Inr res, v') \<Rightarrow> \<exists>bal. result_Fee res \<le> bal \<and>
        GetBalance TStateView_Mutable (bare_view sample_contents ks) sample_address = Inr bal"
  using transaction_outcome [OF wf_bare_view(1) [of sample_contents "[]"],
      where t = sample_tx and ?sha256.0 = "\<lambda>_. replicate 32 0" and rnd = "\<lambda>_. Inr (replicate 32 0)"
        and fm = "NewManager []" and r = NewDefaultRules and ts = 50]
  by (intro exI [of _ "[]"])
     (auto split: prod.splits sum.splits simp: sample_tx_def sample_auth_def)

text \<open>
  C28: a transaction with a \<^verbatim>\<open>CreateMarket\<close> action is always refused: the action declares the
  one-byte key of the market prefix, which is no valid state key.
\<close>

theorem create_market_tx_refused:
  assumes "ActCreateMarket cm \<in> set (tx_Actions t)"
  shows "Transaction_StateKeys bh t = Inl (Sentinel ErrInvalidKeyValue) \<and>
    (\<exists>e. Transaction_Units bh r t = Inl e)"
proof -
  have "([MarketPrefix], PermWrite) \<in> set (tx_declared bh t)" "\<not> keys_Valid [MarketPrefix]"
    using assms
    by (auto simp: tx_declared_def keys_Valid_def CreateMarket_StateKeys_def
          intro!: bexI [of _ "ActCreateMarket cm"])
  then have "\<not> (\<exists>ks. Transaction_StateKeys bh t = Inr ks)"
    unfolding Transaction_StateKeys_ok by blast
  then have "Transaction_StateKeys bh t = Inl (Sentinel ErrInvalidKeyValue)"
    by (auto simp: Transaction_StateKeys_eq split: option.splits)
  then show ?thesis
    by (auto simp: Transaction_Units_def Let_def split: sum.splits)
qed

theorem create_market_tx_refused_witness:
  "Transaction_StateKeys view_handler (sample_tx\<lparr>tx_Actions := [ActCreateMarket sample_create]\<rparr>) =
     Inl (Sentinel ErrInvalidKeyValue)"
  using create_market_tx_refused [of sample_create "sample_tx\<lparr>tx_Actions := [ActCreateMarket sample_create]\<rparr>"
      view_handler]
  by simp

text \<open>
  C25: the permissions a transaction gets are exactly the union of what its actions and its sponsor
  declare for each key, and it gets them exactly when every declared key has a chunk suffix.
\<close>

theorem state_keys_are_declared:
  "(case Transaction_StateKeys bh t of
      Inr ks \<Rightarrow> (\<forall>(k, v) \<in> set (tx_declared bh t). keys_Valid k) \<and>
               (\<forall>key. Keys_lookup ks key = declared (tx_declared bh t) key)
    | Inl e \<Rightarrow> e = Sentinel ErrInvalidKeyValue \<and>
               \<not> (\<forall>(k, v) \<in> set (tx_declared bh t). keys_Valid k))"
proof (cases "Transaction_StateKeys bh t")
  case (Inl e)
  then have "\<not> (\<forall>(k, v) \<in> set (tx_declared bh t). keys_Valid k)"
    using Transaction_StateKeys_ok [of bh t] by auto
  moreover have "e = Sentinel ErrInvalidKeyValue"
    using Inl by (auto simp: Transaction_StateKeys_eq split: option.splits)
  ultimately show ?thesis by (simp add: Inl)
next
  case (Inr ks)
  then show ?thesis
    using Transaction_StateKeys_ok [of bh t] Transaction_StateKeys_lookup [of bh t ks] by auto
qed

theorem state_keys_are_declared_witness:
  "\<exists>ks. Transaction_StateKeys view_handler sample_tx = Inr ks \<and>
    Keys_lookup ks (BalanceKey sample_address) = declared (tx_declared view_handler sample_tx) (BalanceKey sample_address)"
  using sample_tx_keys state_keys_are_declared [of view_handler sample_tx] by auto

end
