(* ===== verification/MockRules.thy ===== *)
theory MockRules
  imports Transactions
begin

text \<open>
  The rules the tests of the actions run under (\<^verbatim>\<open>actions/actions_test_utils.go\<close>): a record
  of optional functions, where a getter whose function is not set answers with the zero value.
  Shown: every set of rules can be given as a mock, and under a mock that sets nothing no
  transaction with an action passes the checks before execution.
\<close>

section \<open>The record\<close>

text \<open>
  A nil function is \<open>None\<close>. The type \<^verbatim>\<open>any\<close> of \<^verbatim>\<open>FetchCustom\<close> is a type variable
  with nil as \<open>None\<close>.
\<close>

record 'a MockRules =
  GetTimeFunc :: "(unit \<Rightarrow> i64) option"
  MaxActionGasFunc :: "(Action \<Rightarrow> u64) option"
  MaxBlockGasFunc :: "(unit \<Rightarrow> u64) option"
  FetchCustomFunc :: "(string \<Rightarrow> 'a option \<times> bool) option"
  GetBaseComputeUnitsFunc :: "(unit \<Rightarrow> u64) option"
  GetChainIDFunc :: "(unit \<Rightarrow> bytes) option"
  GetMaxActionsPerTxFunc :: "(unit \<Rightarrow> u8) option"
  GetMaxBlockUnitsFunc :: "(unit \<Rightarrow> Dimensions) option"
  GetMinBlockGapFunc :: "(unit \<Rightarrow> i64) option"
  GetMinEmptyBlockGapFunc :: "(unit \<Rightarrow> i64) option"
  GetMinUnitPriceFunc :: "(unit \<Rightarrow> Dimensions) option"
  GetNetworkIDFunc :: "(unit \<Rightarrow> u32) option"
  GetSponsorStateKeysMaxChunksFunc :: "(unit \<Rightarrow> u16 list) option"
  GetStorageKeyAllocateUnitsFunc :: "(unit \<Rightarrow> u64) option"
  GetStorageKeyReadUnitsFunc :: "(unit \<Rightarrow> u64) option"
  GetStorageKeyWriteUnitsFunc :: "(unit \<Rightarrow> u64) option"
  GetStorageValueAllocateUnitsFunc :: "(unit \<Rightarrow> u64) option"
  GetStorageValueReadUnitsFunc :: "(unit \<Rightarrow> u64) option"
  GetStorageValueWriteUnitsFunc :: "(unit \<Rightarrow> u64) option"
  GetUnitPriceChangeDenominatorFunc :: "(unit \<Rightarrow> Dimensions) option"
  GetValidityWindowFunc :: "(unit \<Rightarrow> i64) option"
  GetWindowTargetUnitsFunc :: "(unit \<Rightarrow> Dimensions) option"

definition no_units :: Dimensions where
  "no_units = replicate FeeDimensions 0"

section \<open>The getters\<close>

definition MockRules_GetTime :: "'a MockRules \<Rightarrow> i64" where
  "MockRules_GetTime m = (case GetTimeFunc m of Some f \<Rightarrow> f () | None \<Rightarrow> 0)"

definition MockRules_MaxActionGas :: "'a MockRules \<Rightarrow> Action \<Rightarrow> u64" where
  "MockRules_MaxActionGas m action = (case MaxActionGasFunc m of Some f \<Rightarrow> f action | None \<Rightarrow> 0)"

definition MockRules_MaxBlockGas :: "'a MockRules \<Rightarrow> u64" where
  "MockRules_MaxBlockGas m = (case MaxBlockGasFunc m of Some f \<Rightarrow> f () | None \<Rightarrow> 0)"

definition MockRules_FetchCustom :: "'a MockRules \<Rightarrow> string \<Rightarrow> 'a option \<times> bool" where
  "MockRules_FetchCustom m key = (case FetchCustomFunc m of Some f \<Rightarrow> f key | None \<Rightarrow> (None, False))"

definition MockRules_GetBaseComputeUnits :: "'a MockRules \<Rightarrow> u64" where
  "MockRules_GetBaseComputeUnits m = (case GetBaseComputeUnitsFunc m of Some f \<Rightarrow> f () | None \<Rightarrow> 0)"

definition MockRules_GetChainID :: "'a MockRules \<Rightarrow> bytes" where
  "MockRules_GetChainID m = (case GetChainIDFunc m of Some f \<Rightarrow> f () | None \<Rightarrow> replicate IDLen 0)"

definition MockRules_GetMaxActionsPerTx :: "'a MockRules \<Rightarrow> u8" where
  "MockRules_GetMaxActionsPerTx m = (case GetMaxActionsPerTxFunc m of Some f \<Rightarrow> f () | None \<Rightarrow> 0)"

definition MockRules_GetMaxBlockUnits :: "'a MockRules \<Rightarrow> Dimensions" where
  "MockRules_GetMaxBlockUnits m = (case GetMaxBlockUnitsFunc m of Some f \<Rightarrow> f () | None \<Rightarrow> no_units)"

definition MockRules_GetMinBlockGap :: "'a MockRules \<Rightarrow> i64" where
  "MockRules_GetMinBlockGap m = (case GetMinBlockGapFunc m of Some f \<Rightarrow> f () | None \<Rightarrow> 0)"

definition MockRules_GetMinEmptyBlockGap :: "'a MockRules \<Rightarrow> i64" where
  "MockRules_GetMinEmptyBlockGap m = (case GetMinEmptyBlockGapFunc m of Some f \<Rightarrow> f () | None \<Rightarrow> 0)"

definition MockRules_GetMinUnitPrice :: "'a MockRules \<Rightarrow> Dimensions" where
  "MockRules_GetMinUnitPrice m = (case GetMinUnitPriceFunc m of Some f \<Rightarrow> f () | None \<Rightarrow> no_units)"

definition MockRules_GetNetworkID :: "'a MockRules \<Rightarrow> u32" where
  "MockRules_GetNetworkID m = (case GetNetworkIDFunc m of Some f \<Rightarrow> f () | None \<Rightarrow> 0)"

definition MockRules_GetSponsorStateKeysMaxChunks :: "'a MockRules \<Rightarrow> u16 list" where
  "MockRules_GetSponsorStateKeysMaxChunks m = (case GetSponsorStateKeysMaxChunksFunc m of Some f \<Rightarrow> f () | None \<Rightarrow> [])"

definition MockRules_GetStorageKeyAllocateUnits :: "'a MockRules \<Rightarrow> u64" where
  "MockRules_GetStorageKeyAllocateUnits m = (case GetStorageKeyAllocateUnitsFunc m of Some f \<Rightarrow> f () | None \<Rightarrow> 0)"

definition MockRules_GetStorageKeyReadUnits :: "'a MockRules \<Rightarrow> u64" where
  "MockRules_GetStorageKeyReadUnits m = (case GetStorageKeyReadUnitsFunc m of Some f \<Rightarrow> f () | None \<Rightarrow> 0)"

definition MockRules_GetStorageKeyWriteUnits :: "'a MockRules \<Rightarrow> u64" where
  "MockRules_GetStorageKeyWriteUnits m = (case GetStorageKeyWriteUnitsFunc m of Some f \<Rightarrow> f () | None \<Rightarrow> 0)"

definition MockRules_GetStorageValueAllocateUnits :: "'a MockRules \<Rightarrow> u64" where
  "MockRules_GetStorageValueAllocateUnits m = (case GetStorageValueAllocateUnitsFunc m of Some f \<Rightarrow> f () | None \<Rightarrow> 0)"

definition MockRules_GetStorageValueReadUnits :: "'a MockRules \<Rightarrow> u64" where
  "MockRules_GetStorageValueReadUnits m = (case GetStorageValueReadUnitsFunc m of Some f \<Rightarrow> f () | None \<Rightarrow> 0)"

definition MockRules_GetStorageValueWriteUnits :: "'a MockRules \<Rightarrow> u64" where
  "MockRules_GetStorageValueWriteUnits m = (case GetStorageValueWriteUnitsFunc m of Some f \<Rightarrow> f () | None \<Rightarrow> 0)"

definition MockRules_GetUnitPriceChangeDenominator :: "'a MockRules \<Rightarrow> Dimensions" where
  "MockRules_GetUnitPriceChangeDenominator m = (case GetUnitPriceChangeDenominatorFunc m of Some f \<Rightarrow> f () | None \<Rightarrow> no_units)"

definition MockRules_GetValidityWindow :: "'a MockRules \<Rightarrow> i64" where
  "MockRules_GetValidityWindow m = (case GetValidityWindowFunc m of Some f \<Rightarrow> f () | None \<Rightarrow> 0)"

definition MockRules_GetWindowTargetUnits :: "'a MockRules \<Rightarrow> Dimensions" where
  "MockRules_GetWindowTargetUnits m = (case GetWindowTargetUnitsFunc m of Some f \<Rightarrow> f () | None \<Rightarrow> no_units)"

section \<open>The mock as rules\<close>

text \<open>What the chain asks of rules, answered by the getters of a mock.\<close>

definition mocked_rules :: "'a MockRules \<Rightarrow> Rules" where
  "mocked_rules m =
     \<lparr>GetMinUnitPrice = MockRules_GetMinUnitPrice m,
      GetUnitPriceChangeDenominator = MockRules_GetUnitPriceChangeDenominator m,
      GetWindowTargetUnits = MockRules_GetWindowTargetUnits m,
      GetMaxBlockUnits = MockRules_GetMaxBlockUnits m,
      GetNetworkID = MockRules_GetNetworkID m,
      GetChainID = MockRules_GetChainID m,
      GetMinBlockGap = MockRules_GetMinBlockGap m,
      GetMinEmptyBlockGap = MockRules_GetMinEmptyBlockGap m,
      GetValidityWindow = MockRules_GetValidityWindow m,
      GetMaxActionsPerTx = MockRules_GetMaxActionsPerTx m,
      GetBaseComputeUnits = MockRules_GetBaseComputeUnits m,
      GetStorageKeyReadUnits = MockRules_GetStorageKeyReadUnits m,
      GetStorageValueReadUnits = MockRules_GetStorageValueReadUnits m,
      GetStorageKeyAllocateUnits = MockRules_GetStorageKeyAllocateUnits m,
      GetStorageValueAllocateUnits = MockRules_GetStorageValueAllocateUnits m,
      GetStorageKeyWriteUnits = MockRules_GetStorageKeyWriteUnits m,
      GetStorageValueWriteUnits = MockRules_GetStorageValueWriteUnits m,
      GetSponsorStateKeysMaxChunks = MockRules_GetSponsorStateKeysMaxChunks m\<rparr>"

definition unset_mock :: "'a MockRules" where
  "unset_mock =
     \<lparr>GetTimeFunc = None,
      MaxActionGasFunc = None,
      MaxBlockGasFunc = None,
      FetchCustomFunc = None,
      GetBaseComputeUnitsFunc = None,
      GetChainIDFunc = None,
      GetMaxActionsPerTxFunc = None,
      GetMaxBlockUnitsFunc = None,
      GetMinBlockGapFunc = None,
      GetMinEmptyBlockGapFunc = None,
      GetMinUnitPriceFunc = None,
      GetNetworkIDFunc = None,
      GetSponsorStateKeysMaxChunksFunc = None,
      GetStorageKeyAllocateUnitsFunc = None,
      GetStorageKeyReadUnitsFunc = None,
      GetStorageKeyWriteUnitsFunc = None,
      GetStorageValueAllocateUnitsFunc = None,
      GetStorageValueReadUnitsFunc = None,
      GetStorageValueWriteUnitsFunc = None,
      GetUnitPriceChangeDenominatorFunc = None,
      GetValidityWindowFunc = None,
      GetWindowTargetUnitsFunc = None\<rparr>"

definition mock_of :: "Rules \<Rightarrow> 'a MockRules" where
  "mock_of r = unset_mock
     \<lparr>GetMinUnitPriceFunc := Some (\<lambda>_. GetMinUnitPrice r),
      GetUnitPriceChangeDenominatorFunc := Some (\<lambda>_. GetUnitPriceChangeDenominator r),
      GetWindowTargetUnitsFunc := Some (\<lambda>_. GetWindowTargetUnits r),
      GetMaxBlockUnitsFunc := Some (\<lambda>_. GetMaxBlockUnits r),
      GetNetworkIDFunc := Some (\<lambda>_. GetNetworkID r),
      GetChainIDFunc := Some (\<lambda>_. GetChainID r),
      GetMinBlockGapFunc := Some (\<lambda>_. GetMinBlockGap r),
      GetMinEmptyBlockGapFunc := Some (\<lambda>_. GetMinEmptyBlockGap r),
      GetValidityWindowFunc := Some (\<lambda>_. GetValidityWindow r),
      GetMaxActionsPerTxFunc := Some (\<lambda>_. GetMaxActionsPerTx r),
      GetBaseComputeUnitsFunc := Some (\<lambda>_. GetBaseComputeUnits r),
      GetStorageKeyReadUnitsFunc := Some (\<lambda>_. GetStorageKeyReadUnits r),
      GetStorageValueReadUnitsFunc := Some (\<lambda>_. GetStorageValueReadUnits r),
      GetStorageKeyAllocateUnitsFunc := Some (\<lambda>_. GetStorageKeyAllocateUnits r),
      GetStorageValueAllocateUnitsFunc := Some (\<lambda>_. GetStorageValueAllocateUnits r),
      GetStorageKeyWriteUnitsFunc := Some (\<lambda>_. GetStorageKeyWriteUnits r),
      GetStorageValueWriteUnitsFunc := Some (\<lambda>_. GetStorageValueWriteUnits r),
      GetSponsorStateKeysMaxChunksFunc := Some (\<lambda>_. GetSponsorStateKeysMaxChunks r)\<rparr>"

lemmas MockRules_getters =
  MockRules_GetTime_def
  MockRules_MaxActionGas_def
  MockRules_MaxBlockGas_def
  MockRules_FetchCustom_def
  MockRules_GetBaseComputeUnits_def
  MockRules_GetChainID_def
  MockRules_GetMaxActionsPerTx_def
  MockRules_GetMaxBlockUnits_def
  MockRules_GetMinBlockGap_def
  MockRules_GetMinEmptyBlockGap_def
  MockRules_GetMinUnitPrice_def
  MockRules_GetNetworkID_def
  MockRules_GetSponsorStateKeysMaxChunks_def
  MockRules_GetStorageKeyAllocateUnits_def
  MockRules_GetStorageKeyReadUnits_def
  MockRules_GetStorageKeyWriteUnits_def
  MockRules_GetStorageValueAllocateUnits_def
  MockRules_GetStorageValueReadUnits_def
  MockRules_GetStorageValueWriteUnits_def
  MockRules_GetUnitPriceChangeDenominator_def
  MockRules_GetValidityWindow_def
  MockRules_GetWindowTargetUnits_def

section \<open>Properties\<close>

text \<open>
  Every set of rules can be mocked: the mock that sets each function to the value of the rules
  answers every question of the chain as those rules do.
\<close>

theorem mock_stands_for_rules: "mocked_rules (mock_of r) = r"
  by (simp add: mocked_rules_def mock_of_def MockRules_getters)

text \<open>
  A mock that sets nothing allows no actions: before execution a transaction with an action is
  refused, with \<^verbatim>\<open>ErrTooManyActions\<close> when its base is valid.
\<close>

theorem unset_mock_refuses_actions:
  assumes "tx_Actions t \<noteq> []"
  shows "PreExecute fm bh (mocked_rules unset_mock) t s ts =
    (case Base_Execute (tx_Base t) (mocked_rules unset_mock) ts of
       Some e \<Rightarrow> Some e
     | None \<Rightarrow> Some (Sentinel ErrTooManyActions))"
  using assms
  by (simp add: PreExecute_def mocked_rules_def unset_mock_def MockRules_getters split: option.splits)

theorem unset_mock_refuses_actions_witness:
  "PreExecute (NewManager []) view_handler (mocked_rules unset_mock) sample_tx (bare_view sample_contents []) 1000 =
     Some (Sentinel ErrTooManyActions)"
  using unset_mock_refuses_actions [of sample_tx "NewManager []" view_handler "bare_view sample_contents []" 1000]
  by (simp add: sample_tx_def Base_Execute_def VerifyTimestamp_def mocked_rules_def unset_mock_def
        MockRules_getters i64_less_def)

end
