(* ===== verification/Bech32.thy ===== *)
theory Bech32
  imports Prelude
begin

text \<open>
  The bech32 strings that a genesis file names its accounts by (the vendored
  \<^verbatim>\<open>btcutil/bech32\<close>): the checksum polynomial, encoding, decoding and the regrouping of
  bits. Shown: the checksum step is linear over XOR, so the checksum that the encoder writes is the
  one the decoder accepts, and a string that was encoded is decoded to what it was made from.
\<close>

section \<open>The character set and the checksum\<close>

definition charset :: string where
  "charset = ''qpzry9x8gf2tvdw0s3jn54khce6mua7l''"

definition gen :: "u64 list" where
  "gen = [0x3b6a57b2, 0x26508e6d, 0x1ea119fa, 0x3d4233dd, 0x2a1462b3]"

text \<open>\<^verbatim>\<open>strings.IndexByte\<close> and \<^verbatim>\<open>strings.LastIndexByte\<close>; \<open>None\<close> is \<open>- 1\<close>.\<close>

fun IndexByte :: "string \<Rightarrow> char \<Rightarrow> nat option" where
  "IndexByte [] c = None"
| "IndexByte (d # ds) c = (if d = c then Some 0 else map_option Suc (IndexByte ds c))"

fun LastIndexByte :: "string \<Rightarrow> char \<Rightarrow> nat option" where
  "LastIndexByte [] c = None"
| "LastIndexByte (d # ds) c =
     (case LastIndexByte ds c of
        Some i \<Rightarrow> Some (Suc i)
      | None \<Rightarrow> if d = c then Some 0 else None)"

fun toBytes :: "string \<Rightarrow> bytes result" where
  "toBytes [] = Inr []"
| "toBytes (c # cs) =
     (case IndexByte charset c of
        None \<Rightarrow> Inl (Errorf ''invalid character not part of charset: %v'' [FNat (of_char c)])
      | Some index \<Rightarrow>
          (case toBytes cs of
             Inl e \<Rightarrow> Inl e
           | Inr decoded \<Rightarrow> Inr (word_of_nat index # decoded)))"

text \<open>
  One round of the polynomial division; every loop of \<^verbatim>\<open>bech32Polymod\<close> has this body. A Go
  \<^verbatim>\<open>int\<close> has 64 bits, and the remainder stays below \<open>2 ^ 30\<close>.
\<close>

definition polymod_step :: "u64 \<Rightarrow> u64 \<Rightarrow> u64" where
  "polymod_step v chk =
     (let b = drop_bit 25 chk;
          chk1 = push_bit 5 (chk AND 0x1ffffff) XOR v
      in fold (\<lambda>i c. if bit b i then c XOR gen ! i else c) [0..<5] chk1)"

definition char_bits :: "char \<Rightarrow> u64" where
  "char_bits c = word_of_nat (of_char c)"

definition bech32Polymod :: "string \<Rightarrow> bytes \<Rightarrow> bytes option \<Rightarrow> u64" where
  "bech32Polymod hrp values checksum =
     (let chk1 = fold (\<lambda>c. polymod_step (drop_bit 5 (char_bits c))) hrp 1;
          chk2 = polymod_step 0 chk1;
          chk3 = fold (\<lambda>c. polymod_step (char_bits c AND 31)) hrp chk2;
          chk4 = fold (\<lambda>v. polymod_step (ucast v)) values chk3
      in case checksum of
           None \<Rightarrow> fold (\<lambda>_. polymod_step 0) [0..<6] chk4
         | Some cs \<Rightarrow> fold (\<lambda>v. polymod_step (ucast v)) cs chk4)"

definition Version0Const :: u64 where "Version0Const = 1"
definition VersionMConst :: u64 where "VersionMConst = 0x2bc830a3"

text \<open>The six characters the checksum is written as.\<close>

definition writeBech32Checksum :: "string \<Rightarrow> bytes \<Rightarrow> u64 \<Rightarrow> string" where
  "writeBech32Checksum hrp data bech32Const =
     (let polymod = bech32Polymod hrp data None XOR bech32Const
      in map (\<lambda>i. charset ! unat (drop_bit (5 * (5 - i)) polymod AND 31)) [0..<6])"

definition bech32VerifyChecksum :: "string \<Rightarrow> bytes \<Rightarrow> bool" where
  "bech32VerifyChecksum hrp data =
     (let checksum = drop (length data - 6) data;
          values = take (length data - 6) data;
          polymod = bech32Polymod hrp values (Some checksum)
      in polymod = Version0Const \<or> polymod = VersionMConst)"

section \<open>Decoding\<close>

text \<open>The loop over the characters: their range, and that they are not of both cases.\<close>

fun check_case :: "string \<Rightarrow> bool \<Rightarrow> bool \<Rightarrow> (bool \<times> bool) result" where
  "check_case [] hasLower hasUpper = Inr (hasLower, hasUpper)"
| "check_case (c # cs) hasLower hasUpper =
     (let n = of_char c :: nat in
      if n < 33 \<or> n > 126 then Inl (Errorf (''invalid character in string: '' @ [CHR 0x27] @ ''%c'' @ [CHR 0x27]) [FStr [c]])
      else
       (let hasLower' = (hasLower \<or> 97 \<le> n \<and> n \<le> 122);
            hasUpper' = (hasUpper \<or> 65 \<le> n \<and> n \<le> 90) in
        if hasLower' \<and> hasUpper' then Inl (ErrNew ''string not all lowercase or all uppercase'')
        else check_case cs hasLower' hasUpper'))"

definition ToLower :: "string \<Rightarrow> string" where
  "ToLower s = map (\<lambda>c. let n = of_char c :: nat in
     if 65 \<le> n \<and> n \<le> 90 then char_of (n + 32) else c) s"

definition invalid_checksum :: "string \<Rightarrow> bytes \<Rightarrow> string \<Rightarrow> go_error" where
  "invalid_checksum hrp payload actual =
     (let expectedVersion0 = writeBech32Checksum hrp payload Version0Const;
          expectedVersionM = expectedVersion0 @ writeBech32Checksum hrp payload VersionMConst
      in Errorf ''invalid checksum (expected (bech32=%v, bech32m=%v), got %v)''
           [FStr expectedVersion0, FStr expectedVersionM, FStr actual])"

text \<open>
  The version of the checksum is dropped by \<^verbatim>\<open>Decode\<close>. The two expected checksums of the error
  are written into one builder, so the second one is printed after the first.
\<close>

definition decodeNoLimit :: "string \<Rightarrow> (string \<times> bytes) result" where
  "decodeNoLimit bech0 =
     (if length bech0 < 8 then Inl (Errorf ''invalid bech32 string length %d'' [FNat (length bech0)])
      else case check_case bech0 False False of
        Inl e \<Rightarrow> Inl e
      | Inr (hasLower, hasUpper) \<Rightarrow>
         (let bech = (if hasUpper then ToLower bech0 else bech0) in
          case LastIndexByte bech (CHR ''1'') of
            None \<Rightarrow> Inl (Errorf ''invalid separator index %d'' [FI64 (- 1)])
          | Some one \<Rightarrow>
             (if one < 1 \<or> one + 7 > length bech
              then Inl (Errorf ''invalid separator index %d'' [FI64 (word_of_nat one)])
              else
               (let hrp = take one bech; data = drop (one + 1) bech in
                case toBytes data of
                  Inl e \<Rightarrow> Inl e
                | Inr decoded \<Rightarrow>
                   (let payload = take (length decoded - 6) decoded in
                    if \<not> bech32VerifyChecksum hrp decoded
                    then Inl (invalid_checksum hrp payload (drop (length bech - 6) bech))
                    else Inr (hrp, payload))))))"

definition Decode :: "string \<Rightarrow> (string \<times> bytes) result" where
  "Decode bech =
     (if length bech > 90 then Inl (Errorf ''invalid bech32 string length %d'' [FNat (length bech)])
      else decodeNoLimit bech)"

section \<open>Encoding\<close>

fun write_data :: "bytes \<Rightarrow> string result" where
  "write_data [] = Inr []"
| "write_data (b # bs) =
     (if unat b \<ge> length charset then Inl (Errorf ''invalid data byte: %v'' [FU8 b])
      else case write_data bs of
        Inl e \<Rightarrow> Inl e
      | Inr s \<Rightarrow> Inr (charset ! unat b # s))"

definition encodeGeneric :: "string \<Rightarrow> bytes \<Rightarrow> u64 \<Rightarrow> string result" where
  "encodeGeneric hrp0 data bech32Const =
     (let hrp = ToLower hrp0 in
      case write_data data of
        Inl e \<Rightarrow> Inl e
      | Inr s \<Rightarrow> Inr (hrp @ ''1'' @ s @ writeBech32Checksum hrp data bech32Const))"

definition bech32_Encode :: "string \<Rightarrow> bytes \<Rightarrow> string result" where
  "bech32_Encode hrp data = encodeGeneric hrp data Version0Const"

section \<open>Regrouping bits\<close>

text \<open>
  The inner loop: the bits of one input byte, moved to its top, are shifted into \<open>nextByte\<close>. The
  group being filled is never full at the head of the loop, so each round extracts a bit; the
  second test of the guard only states that for the recursion.
\<close>

function extract_bits ::
  "nat \<Rightarrow> byte \<Rightarrow> nat \<Rightarrow> bytes \<times> byte \<times> nat \<Rightarrow> bytes \<times> byte \<times> nat" where
  "extract_bits toBits b remFromBits (regrouped, nextByte, filledBits) =
     (if remFromBits = 0 \<or> toBits \<le> filledBits then (regrouped, nextByte, filledBits)
      else
       (let remToBits = toBits - filledBits;
            toExtract = (if remToBits < remFromBits then remToBits else remFromBits);
            nextByte' = push_bit toExtract nextByte OR drop_bit (8 - toExtract) b;
            b' = push_bit toExtract b;
            filledBits' = filledBits + toExtract
        in extract_bits toBits b' (remFromBits - toExtract)
             (if filledBits' = toBits then (regrouped @ [nextByte'], 0, 0)
              else (regrouped, nextByte', filledBits'))))"
  by pat_completeness auto
termination
  by (relation "measure (\<lambda>(_, _, remFromBits, _). remFromBits)") (auto simp: Let_def)

declare extract_bits.simps [simp del]

definition ConvertBits :: "bytes \<Rightarrow> nat \<Rightarrow> nat \<Rightarrow> bool \<Rightarrow> bytes result" where
  "ConvertBits data fromBits toBits pad =
     (if fromBits < 1 \<or> fromBits > 8 \<or> toBits < 1 \<or> toBits > 8
      then Inl (ErrNew ''only bit groups between 1 and 8 allowed'')
      else
       (let (regrouped, nextByte, filledBits) =
              fold (\<lambda>b st. extract_bits toBits (push_bit (8 - fromBits) b) fromBits st) data ([], 0, 0);
            (regrouped', nextByte', filledBits') =
              (if pad \<and> filledBits > 0
               then (regrouped @ [push_bit (toBits - filledBits) nextByte], 0, 0)
               else (regrouped, nextByte, filledBits))
        in if filledBits' > 0 \<and> (filledBits' > 4 \<or> nextByte' \<noteq> 0)
           then Inl (ErrNew ''invalid incomplete group'')
           else Inr regrouped'))"

section \<open>The checksum is linear\<close>

lemma mix_xor:
  "fold (\<lambda>i c. if bit (a XOR b) i then c XOR g i else c) is (x XOR y) =
   fold (\<lambda>i c. if bit a i then c XOR g i else c) is x XOR
   fold (\<lambda>i c. if bit b i then c XOR g i else c) is y"
  for a b x y :: u64
proof (induction "is" arbitrary: x y)
  case (Cons i "is")
  have "(if bit (a XOR b) i then (x XOR y) XOR g i else x XOR y) =
      (if bit a i then x XOR g i else x) XOR (if bit b i then y XOR g i else y)"
    by (cases "bit a i"; cases "bit b i")
       (simp_all add: bit_xor_iff xor.assoc xor.left_commute xor.commute)
  then show ?case by (simp only: fold.simps comp_def Cons.IH)
qed simp

lemma polymod_step_xor:
  "polymod_step (v XOR w) (a XOR b) = polymod_step v a XOR polymod_step w b"
proof -
  have "push_bit 5 ((a XOR b) AND 0x1ffffff) XOR (v XOR w) =
      (push_bit 5 (a AND 0x1ffffff) XOR v) XOR (push_bit 5 (b AND 0x1ffffff) XOR w)"
    by (rule bit_word_eqI) (auto simp: bit_simps)
  moreover have "drop_bit 25 (a XOR b) = drop_bit 25 a XOR drop_bit 25 b"
    by (rule bit_word_eqI) (auto simp: bit_simps)
  ultimately show ?thesis
    unfolding polymod_step_def Let_def by (simp only: mix_xor)
qed

lemma polymod_steps_xor:
  "fold polymod_step vs (a XOR b) = fold polymod_step vs a XOR fold (\<lambda>_. polymod_step 0) vs b"
proof (induction vs arbitrary: a b)
  case (Cons v vs)
  show ?case using polymod_step_xor [of v 0 a b] Cons.IH by simp
qed simp

lemma take_bit_mix:
  assumes "\<forall>i \<in> set is. take_bit 30 (g i) = g i" and "take_bit 30 x = x"
  shows "take_bit 30 (fold (\<lambda>i c. if bit b i then c XOR g i else c) is x) =
    fold (\<lambda>i c. if bit b i then c XOR g i else c) is (x :: u64)"
  using assms by (induction "is" arbitrary: x) (simp_all add: take_bit_xor)

lemma mask_25: "(0x1ffffff :: u64) = mask 25" and mask_5: "(31 :: u64) = mask 5"
  by (simp_all add: mask_eq_exp_minus_1)

lemma take_bit_polymod_step:
  "take_bit 30 v = v \<Longrightarrow> take_bit 30 (polymod_step v chk) = polymod_step v chk"
  unfolding polymod_step_def Let_def
proof (rule take_bit_mix)
  show "\<forall>i \<in> set [0..<5]. take_bit 30 (gen ! i) = gen ! i"
    by (simp add: upt_rec gen_def)
  assume "take_bit 30 v = v"
  then show "take_bit 30 (push_bit 5 (chk AND 0x1ffffff) XOR v) = push_bit 5 (chk AND 0x1ffffff) XOR v"
    unfolding mask_25 by (simp add: take_bit_xor take_bit_push_bit flip: take_bit_eq_mask)
qed

lemma polymod_step_small:
  assumes "take_bit 25 chk = chk"
  shows "polymod_step v chk = push_bit 5 chk XOR v"
proof -
  have "drop_bit 25 chk = 0"
    using assms by (metis drop_bit_of_0 drop_bit_take_bit diff_self_eq_0 take_bit_0)
  with assms show ?thesis
    unfolding polymod_step_def mask_25 by (simp add: Let_def upt_rec flip: take_bit_eq_mask)
qed

text \<open>Reading six groups of five bits into an empty register puts them side by side.\<close>

definition groups :: "u64 \<Rightarrow> u64 list" where
  "groups p = map (\<lambda>i. drop_bit (5 * (5 - i)) p AND 31) [0..<6]"

lemma polymod_group:
  assumes "take_bit 30 p = p" and "n < 5"
  shows "polymod_step (drop_bit (5 * n) p AND 31) (drop_bit (5 * Suc n) p) = drop_bit (5 * n) p"
proof -
  have "take_bit 25 (drop_bit (5 * Suc n) p) = drop_bit (5 * Suc n) p"
    using assms(2) by (subst (1 2) assms(1) [symmetric]) (auto intro: bit_word_eqI simp: bit_simps)
  moreover have "push_bit 5 (drop_bit (5 * Suc n) p) XOR (drop_bit (5 * n) p AND 31) = drop_bit (5 * n) p"
    unfolding mask_5 by (rule bit_word_eqI) (auto simp: bit_simps)
  ultimately show ?thesis by (simp add: polymod_step_small)
qed

lemma polymod_groups:
  assumes "take_bit 30 p = p"
  shows "fold polymod_step (groups p) 0 = p"
proof -
  have "drop_bit 25 p AND 31 = drop_bit 25 p"
    unfolding mask_5 by (subst (1 2) assms [symmetric]) (auto intro: bit_word_eqI simp: bit_simps)
  then have "polymod_step (drop_bit 25 p AND 31) 0 = drop_bit 25 p"
    by (simp add: polymod_step_small)
  with polymod_group [OF assms, of 4] polymod_group [OF assms, of 3] polymod_group [OF assms, of 2]
    polymod_group [OF assms, of 1] polymod_group [OF assms, of 0]
  show ?thesis by (simp add: groups_def upt_rec)
qed

section \<open>Encoding and decoding\<close>

definition register :: "string \<Rightarrow> bytes \<Rightarrow> u64" where
  "register hrp values =
     fold (\<lambda>v. polymod_step (ucast v)) values
       (fold (\<lambda>c. polymod_step (char_bits c AND 31)) hrp
         (polymod_step 0 (fold (\<lambda>c. polymod_step (drop_bit 5 (char_bits c))) hrp 1)))"

lemma bech32Polymod_register:
  "bech32Polymod hrp values None = fold (\<lambda>_. polymod_step 0) [0..<6] (register hrp values)"
  "bech32Polymod hrp values (Some cs) = fold (\<lambda>v. polymod_step (ucast v)) cs (register hrp values)"
  by (simp_all add: bech32Polymod_def register_def Let_def)

lemma take_bit_zero_steps:
  "take_bit 30 chk = chk \<or> xs \<noteq> [] \<Longrightarrow>
   take_bit 30 (fold (\<lambda>_. polymod_step 0) xs chk) = fold (\<lambda>_. polymod_step 0) xs chk"
  by (induction xs arbitrary: chk) (simp_all add: take_bit_polymod_step)

lemma fold_const_cong: "length xs = length ys \<Longrightarrow> fold (\<lambda>_. f) xs z = fold (\<lambda>_. f) ys z"
  by (induction xs ys arbitrary: z rule: list_induct2) simp_all

text \<open>The digits of the checksum that \<^verbatim>\<open>writeBech32Checksum\<close> writes.\<close>

definition checksum_digits :: "string \<Rightarrow> bytes \<Rightarrow> u64 \<Rightarrow> bytes" where
  "checksum_digits hrp data c = map ucast (groups (bech32Polymod hrp data None XOR c))"

lemma groups_less: "x \<in> set (groups p) \<Longrightarrow> x < 32"
proof -
  assume "x \<in> set (groups p)"
  then obtain y where "x = y AND 31" by (auto simp: groups_def)
  then show ?thesis
    by (simp add: mask_5 word_less_nat_alt unsigned_take_bit_eq take_bit_eq_mod unat_mod_distrib
             flip: take_bit_eq_mask)
qed

lemma ucast_small:
  assumes "x < (32 :: u64)"
  shows "ucast (ucast x :: byte) = x" "unat (ucast x :: byte) = unat x"
proof -
  have "unat x < 32" using assms by (simp add: word_less_nat_alt)
  then show u: "unat (ucast x :: byte) = unat x"
    by (simp add: unsigned_ucast_eq take_bit_eq_mod)
  then show "ucast (ucast x :: byte) = x"
    by (intro word_unat_eq_iff [THEN iffD2]) (simp add: unsigned_ucast_eq unsigned_take_bit_eq)
qed

lemma checksum_accepted:
  assumes "take_bit 30 c = c"
  shows "bech32Polymod hrp data (Some (checksum_digits hrp data c)) = c"
proof -
  let ?z = "fold (\<lambda>_. polymod_step 0) [0..<6] (register hrp data)"
  let ?p = "?z XOR c"
  have p: "take_bit 30 ?p = ?p"
    using assms take_bit_zero_steps [of "register hrp data" "[0..<6]"]
    by (simp add: take_bit_xor upt_rec)
  have "fold (\<lambda>v. polymod_step (ucast v)) (map (ucast :: u64 \<Rightarrow> byte) (groups ?p)) z =
      fold polymod_step (groups ?p) z" for z
    unfolding fold_map comp_def by (rule fold_cong) (simp_all add: ucast_small groups_less)
  then have "bech32Polymod hrp data (Some (checksum_digits hrp data c)) =
      fold polymod_step (groups ?p) (0 XOR register hrp data)"
    by (simp add: bech32Polymod_register checksum_digits_def del: fold_map)
  also have "\<dots> = ?p XOR fold (\<lambda>_. polymod_step 0) (groups ?p) (register hrp data)"
    by (simp only: polymod_steps_xor polymod_groups [OF p])
  also have "fold (\<lambda>_. polymod_step 0) (groups ?p) (register hrp data) = ?z"
    by (rule fold_const_cong) (simp add: groups_def)
  finally show ?thesis by (simp add: xor.assoc xor.left_commute xor.commute)
qed

lemma IndexByte_nth: "distinct cs \<Longrightarrow> i < length cs \<Longrightarrow> IndexByte cs (cs ! i) = Some i"
proof (induction cs arbitrary: i)
  case (Cons d ds)
  then show ?case by (cases i) (auto simp: nth_mem)
qed simp

lemma length_charset [simp]: "length charset = 32"
  by (simp add: charset_def)

lemma IndexByte_charset: "i < 32 \<Longrightarrow> IndexByte charset (charset ! i) = Some i"
  by (rule IndexByte_nth) (simp_all add: charset_def)

lemma toBytes_charset:
  "\<forall>b \<in> set bs. unat b < 32 \<Longrightarrow> toBytes (map (\<lambda>b. charset ! unat b) bs) = Inr bs"
  by (induction bs) (simp_all add: IndexByte_charset)

lemma write_data_ok: "\<forall>b \<in> set bs. unat b < 32 \<Longrightarrow> write_data bs = Inr (map (\<lambda>b. charset ! unat b) bs)"
  by (induction bs) simp_all

lemma writeBech32Checksum_digits:
  "writeBech32Checksum hrp data c = map (\<lambda>b. charset ! unat b) (checksum_digits hrp data c)"
  using ucast_small(2) [OF groups_less, of _ "bech32Polymod hrp data None XOR c"]
  by (auto simp: writeBech32Checksum_def checksum_digits_def Let_def groups_def)

lemma LastIndexByte_last: "c \<notin> set ys \<Longrightarrow> LastIndexByte (xs @ c # ys) c = Some (length xs)"
proof -
  assume "c \<notin> set ys"
  then have "LastIndexByte ys c = None" by (induction ys) auto
  then show ?thesis by (induction xs) simp_all
qed

text \<open>The characters a prefix may have: printable, and no upper case.\<close>

definition lower_char :: "char \<Rightarrow> bool" where
  "lower_char c \<longleftrightarrow> (let n = of_char c :: nat in 33 \<le> n \<and> n \<le> 126 \<and> \<not> (65 \<le> n \<and> n \<le> 90))"

lemma lower_charset: "i < 32 \<Longrightarrow> lower_char (charset ! i) \<and> charset ! i \<noteq> CHR ''1''"
proof -
  have "list_all (\<lambda>c. lower_char c \<and> c \<noteq> CHR ''1'') charset"
    by (simp add: charset_def lower_char_def)
  then show "i < 32 \<Longrightarrow> ?thesis" by (simp add: list_all_length)
qed

lemma check_case_lower:
  "\<forall>c \<in> set s. lower_char c \<Longrightarrow> \<exists>l'. check_case s l False = Inr (l', False)"
proof (induction s arbitrary: l)
  case (Cons c s)
  then have "\<exists>l1. check_case (c # s) l False = check_case s l1 False"
    by (intro exI [of _ "l \<or> 97 \<le> (of_char c :: nat) \<and> (of_char c :: nat) \<le> 122"])
       (auto simp: lower_char_def Let_def intro: arg_cong)
  with Cons show ?case by auto
qed simp

lemma ToLower_lower: "\<forall>c \<in> set s. lower_char c \<Longrightarrow> ToLower s = s"
  unfolding ToLower_def by (rule map_idI) (auto simp: lower_char_def Let_def)

lemma Decode_Encode:
  assumes hrp: "\<forall>c \<in> set hrp. lower_char c" "hrp \<noteq> []"
    and data: "\<forall>b \<in> set data. unat b < 32"
    and len: "length hrp + length data + 7 \<le> 90"
  shows "\<exists>s. bech32_Encode hrp data = Inr s \<and> Decode s = Inr (hrp, data)"
proof -
  let ?cs = "checksum_digits hrp data Version0Const"
  let ?d = "map (\<lambda>b. charset ! unat b) (data @ ?cs)"
  let ?s = "hrp @ CHR ''1'' # ?d"
  have cs: "length ?cs = 6" "\<forall>b \<in> set ?cs. unat b < 32"
    using groups_less [of _ "bech32Polymod hrp data None XOR Version0Const"]
    by (auto simp: checksum_digits_def groups_def ucast_small word_less_nat_alt)
  then have dcs: "\<forall>b \<in> set (data @ ?cs). unat b < 32" using data by auto
  have enc: "bech32_Encode hrp data = Inr ?s"
    by (simp add: bech32_Encode_def encodeGeneric_def ToLower_lower [OF hrp(1)] write_data_ok [OF data]
          writeBech32Checksum_digits)
  have d: "\<forall>c \<in> set ?d. lower_char c \<and> c \<noteq> CHR ''1''"
    using dcs lower_charset by (auto simp del: map_append)
  then have one: "CHR ''1'' \<notin> set ?d" by blast
  have "lower_char (CHR ''1'')" by (simp add: lower_char_def)
  with hrp(1) d have "\<forall>c \<in> set ?s. lower_char c" by auto
  then obtain l where cc: "check_case ?s False False = Inr (l, False)"
    using check_case_lower by blast
  have ver: "bech32VerifyChecksum hrp (data @ ?cs)"
    using checksum_accepted [of Version0Const hrp data] cs
    by (simp add: bech32VerifyChecksum_def Let_def Version0Const_def)
  have "length ?s = length hrp + length data + 7" "length hrp \<ge> 1"
    using cs hrp(2) by (simp_all add: Suc_le_eq)
  then have "Decode ?s = Inr (hrp, data)"
    using len ver cs hrp(2)
    unfolding Decode_def decodeNoLimit_def
    by (simp add: cc LastIndexByte_last [OF one] toBytes_charset [OF dcs] Let_def del: map_append)
  with enc show ?thesis by blast
qed

section \<open>Regrouping keeps the bits\<close>

text \<open>The lowest \<open>n\<close> bits of a byte and its highest \<open>n\<close> bits, most significant first.\<close>

definition low_bits :: "nat \<Rightarrow> byte \<Rightarrow> bool list" where
  "low_bits n b = map (\<lambda>i. bit b (n - Suc i)) [0..<n]"

definition high_bits :: "nat \<Rightarrow> byte \<Rightarrow> bool list" where
  "high_bits n b = map (\<lambda>i. bit b (7 - i)) [0..<n]"

definition group_bits :: "nat \<Rightarrow> bytes \<times> byte \<times> nat \<Rightarrow> bool list" where
  "group_bits n = (\<lambda>(r, b, f). concat (map (low_bits n) r) @ low_bits f b)"

definition wf_group :: "nat \<Rightarrow> bytes \<times> byte \<times> nat \<Rightarrow> bool" where
  "wf_group n = (\<lambda>(r, b, f). (\<forall>x \<in> set r. take_bit n x = x) \<and> take_bit f b = b \<and> f < n)"

lemma low_bits_0 [simp]: "low_bits 0 b = []" "high_bits 0 b = []"
  by (simp_all add: low_bits_def high_bits_def)

lemma length_low_bits [simp]: "length (low_bits n b) = n" "length (high_bits n b) = n"
  by (simp_all add: low_bits_def high_bits_def)

lemma low_bits_shift:
  assumes "f + k \<le> 8"
  shows "low_bits (f + k) (push_bit k b OR drop_bit (8 - k) c) = low_bits f b @ high_bits k c"
proof (rule nth_equalityI)
  fix i assume "i < length (low_bits (f + k) (push_bit k b OR drop_bit (8 - k) c))"
  with assms show "low_bits (f + k) (push_bit k b OR drop_bit (8 - k) c) ! i = (low_bits f b @ high_bits k c) ! i"
    using bit_imp_le_length [of c "8 + (f - Suc i)"] bit_imp_le_length [of b]
    by (cases "i < f")
       (auto simp: low_bits_def high_bits_def nth_append bit_simps not_less Suc_diff_Suc
          dest: bit_imp_le_length)
qed simp

lemma high_bits_split:
  "k \<le> n \<Longrightarrow> n \<le> 8 \<Longrightarrow> high_bits n c = high_bits k c @ high_bits (n - k) (push_bit k c)"
  by (rule nth_equalityI) (auto simp: high_bits_def nth_append bit_simps)

lemma high_bits_top: "0 < n \<Longrightarrow> n \<le> 8 \<Longrightarrow> high_bits n (push_bit (8 - n) c) = low_bits n c"
  by (rule nth_equalityI) (auto simp: high_bits_def low_bits_def bit_simps)

lemma take_bit_shift:
  assumes "f + k \<le> 8" and "take_bit f b = b"
  shows "take_bit (f + k) (push_bit k b OR drop_bit (8 - k) c) = push_bit k b OR drop_bit (8 - k) (c :: byte)"
proof (rule bit_word_eqI)
  fix i assume "i < LENGTH(8)"
  have "bit b (i - k) \<Longrightarrow> i - k < f" using assms(2) by (metis bit_take_bit_iff)
  moreover have "bit c (8 + i - k) \<Longrightarrow> 8 + i - k < 8" using bit_imp_le_length [of c "8 + i - k"] by simp
  ultimately show "bit (take_bit (f + k) (push_bit k b OR drop_bit (8 - k) c)) i =
      bit (push_bit k b OR drop_bit (8 - k) c) i"
    using assms(1) by (auto simp: bit_simps)
qed

lemma extract_bits_keeps:
  assumes "wf_group n st" and "n \<le> 8" and "m \<le> 8"
  shows "wf_group n (extract_bits n c m st) \<and>
    group_bits n (extract_bits n c m st) = group_bits n st @ high_bits m c"
  using assms
proof (induction n c m st rule: extract_bits.induct)
  case (1 n c m r b f)
  show ?case
  proof (cases "m = 0")
    case True
    with 1(2) show ?thesis by (simp add: extract_bits.simps)
  next
    case False
    let ?k = "if n - f < m then n - f else m"
    let ?b = "push_bit ?k b OR drop_bit (8 - ?k) c"
    let ?st = "if f + ?k = n then (r @ [?b], 0, 0) else (r, ?b, f + ?k)"
    have f: "f < n" "take_bit f b = b" using 1(2) by (auto simp: wf_group_def)
    then have k: "f + ?k \<le> n" "f + ?k \<le> 8" "?k \<le> m" using 1(3) by auto
    have wf: "wf_group n ?st"
      using 1(2) take_bit_shift [OF k(2) f(2)] k(1)
      by (cases "f + ?k = n") (auto simp: wf_group_def)
    have "group_bits n ?st = group_bits n (r, b, f) @ high_bits ?k c"
      using low_bits_shift [OF k(2), of b c] by (cases "f + ?k = n") (auto simp: group_bits_def)
    moreover have "extract_bits n c m (r, b, f) = extract_bits n (push_bit ?k c) (m - ?k) ?st"
      using False f(1) by (subst extract_bits.simps) (simp add: Let_def)
    moreover have "wf_group n (extract_bits n (push_bit ?k c) (m - ?k) ?st) \<and>
        group_bits n (extract_bits n (push_bit ?k c) (m - ?k) ?st) =
          group_bits n ?st @ high_bits (m - ?k) (push_bit ?k c)"
      using False f(1) wf 1(3,4) by (intro 1(1)) auto
    ultimately show ?thesis using high_bits_split [OF k(3) 1(4), of c] by simp
  qed
qed

lemma fold_extract_bits:
  assumes "wf_group n st" and "n \<le> 8" and "0 < m" "m \<le> 8"
  shows "let st' = fold (\<lambda>b. extract_bits n (push_bit (8 - m) b) m) data st in
    wf_group n st' \<and> group_bits n st' = group_bits n st @ concat (map (low_bits m) data)"
  using assms(1)
proof (induction data arbitrary: st)
  case (Cons b data)
  from extract_bits_keeps [OF Cons.prems assms(2,4), of "push_bit (8 - m) b"]
    Cons.IH [of "extract_bits n (push_bit (8 - m) b) m st"]
  show ?case by (simp add: Let_def high_bits_top assms(3,4))
qed (simp add: Let_def)

lemma low_bits_inj: "low_bits 8 a = low_bits 8 b \<Longrightarrow> a = b"
proof (rule bit_word_eqI)
  fix i assume "low_bits 8 a = low_bits 8 b" and "i < LENGTH(8)"
  then have "low_bits 8 a ! (7 - i) = low_bits 8 b ! (7 - i)" and i: "i < 8" by simp_all
  moreover have "low_bits 8 c ! (7 - i) = bit c i" for c
    unfolding low_bits_def using i by (subst nth_map) (simp_all add: nth_upt less_Suc_eq_le)
  ultimately show "bit a i = bit b i" by simp
qed

lemma byte_groups_inj:
  assumes "concat (map (low_bits 8) xs) @ us = concat (map (low_bits 8) ys) @ vs"
    and "length us < 8" and "length vs < 8"
  shows "xs = ys \<and> us = vs"
  using assms(1)
proof (induction xs arbitrary: ys)
  case Nil
  with assms(2) show ?case by (cases ys) (auto dest!: arg_cong [where f = length])
next
  case (Cons x xs)
  show ?case
  proof (cases ys)
    case Nil
    with Cons.prems assms(3) show ?thesis by (auto dest!: arg_cong [where f = length])
  next
    case (Cons y ys')
    with Cons.prems have "low_bits 8 x = low_bits 8 y"
      and "concat (map (low_bits 8) xs) @ us = concat (map (low_bits 8) ys') @ vs"
      by simp_all
    with Cons.IH [of ys'] low_bits_inj Cons show ?thesis by blast
  qed
qed

lemma low_bits_zero:
  assumes "take_bit f b = b" and "low_bits f b = replicate f False"
  shows "b = 0"
proof (rule bit_word_eqI)
  fix i assume "i < LENGTH(8)"
  have "i < f \<Longrightarrow> low_bits f b ! (f - Suc i) = bit b i"
    by (simp add: low_bits_def)
  with assms(2) have "i < f \<Longrightarrow> \<not> bit b i" by simp
  moreover have "bit b i \<Longrightarrow> i < f" using assms(1) by (metis bit_take_bit_iff)
  ultimately show "bit b i = bit 0 i" by auto
qed

lemma low_bits_pad:
  "f \<le> n \<Longrightarrow> n \<le> 8 \<Longrightarrow> take_bit f b = b \<Longrightarrow>
   low_bits n (push_bit (n - f) b) = low_bits f b @ replicate (n - f) False"
  using low_bits_shift [of f "n - f" b 0] by (simp add: high_bits_def map_replicate_const)

text \<open>Bytes written as groups of five bits with padding are read back as the same bytes.\<close>

lemma ConvertBits_8_5:
  "\<exists>d z. ConvertBits data 8 5 True = Inr d \<and> z < 5 \<and> (\<forall>b \<in> set d. take_bit 5 b = b) \<and>
     concat (map (low_bits 5) d) = concat (map (low_bits 8) data) @ replicate z False"
proof -
  obtain r b f where st: "fold (\<lambda>b. extract_bits 5 (push_bit 0 b) 8) data ([], 0, 0) = (r, b, f)"
    using prod_cases3 by blast
  have "wf_group 5 (r, b, f) \<and> group_bits 5 (r, b, f) = concat (map (low_bits 8) data)"
    using fold_extract_bits [of 5 "([], 0, 0)" 8 data] st by (simp add: wf_group_def group_bits_def)
  then have w: "\<forall>x \<in> set r. take_bit 5 x = x" "take_bit f b = b" "f < 5"
    and g: "concat (map (low_bits 5) r) @ low_bits f b = concat (map (low_bits 8) data)"
    by (auto simp: wf_group_def group_bits_def)
  show ?thesis
  proof (cases "f = 0")
    case True
    with st w g show ?thesis by (auto simp: ConvertBits_def intro!: exI [of _ r] exI [of _ 0])
  next
    case False
    have "take_bit 5 (push_bit (5 - f) b) = push_bit (5 - f) b"
      using take_bit_shift [of f "5 - f" b 0] w by simp
    with False st w g low_bits_pad [of f 5 b] show ?thesis
      by (auto simp: ConvertBits_def intro!: exI [of _ "r @ [push_bit (5 - f) b]"] exI [of _ "5 - f"])
  qed
qed

lemma ConvertBits_5_8:
  assumes "concat (map (low_bits 5) d) = concat (map (low_bits 8) data) @ replicate z False" and "z < 5"
  shows "ConvertBits d 5 8 False = Inr data"
proof -
  obtain r b f where st: "fold (\<lambda>b. extract_bits 8 (push_bit 3 b) 5) d ([], 0, 0) = (r, b, f)"
    using prod_cases3 by blast
  have "wf_group 8 (r, b, f) \<and> group_bits 8 (r, b, f) = concat (map (low_bits 5) d)"
    using fold_extract_bits [of 8 "([], 0, 0)" 5 d] st by (simp add: wf_group_def group_bits_def)
  then have w: "take_bit f b = b" "f < 8"
    and g: "concat (map (low_bits 8) r) @ low_bits f b = concat (map (low_bits 8) data) @ replicate z False"
    using assms(1) by (auto simp: wf_group_def group_bits_def)
  from byte_groups_inj [OF g] w(2) assms(2) have "r = data" "low_bits f b = replicate z False"
    by simp_all
  moreover from this have "f = z" by (metis length_low_bits(1) length_replicate)
  ultimately show ?thesis
    using low_bits_zero [OF w(1)] st assms(2) by (simp add: ConvertBits_def)
qed

end
