(* ===== verification/GenesisState.thy ===== *)
theory GenesisState
  imports Bech32 Transactions
begin

text \<open>
  Genesis: the program's own genesis (\<^verbatim>\<open>genesis/genesis.go\<close>), whose accounts are named by
  bech32 strings, and hypersdk's default genesis, which is the one the virtual machine is built
  with. JSON decoding is a parameter. Shown: over any store without restrictions both credit every
  account with exactly the sum of its allocations, and the default genesis refuses a supply above
  64 bits before it credits the allocation that exceeds it.
\<close>

section \<open>genesis/genesis.go\<close>

record genesis_market =
  gm_ID :: u64
  gm_Question :: string
  gm_ClosingTime :: i64
  gm_CollateralAssetID :: string

record CustomGenesisState =
  custom_Markets :: "genesis_market list"

record allocation =
  alloc_Address :: string
  alloc_Balance :: u64

record Genesis =
  Magic :: u64
  genesis_Timestamp :: i64
  Custom :: CustomGenesisState
  Allocations :: "allocation list"

definition Genesis_Load ::
  "(bytes \<Rightarrow> Genesis \<Rightarrow> go_error option \<times> Genesis) \<Rightarrow> bytes \<Rightarrow> Genesis \<Rightarrow> go_error option \<times> Genesis" where
  "Genesis_Load json_Unmarshal raw g = json_Unmarshal raw g"

definition GetMagic :: "Genesis \<Rightarrow> u64" where
  "GetMagic g = Magic g"

definition GetTimestamp :: "Genesis \<Rightarrow> i64" where
  "GetTimestamp g = genesis_Timestamp g"

text \<open>What one round of the loop makes of the string of an allocation.\<close>

definition decode_allocation :: "string \<Rightarrow> Address result" where
  "decode_allocation s =
     (case Decode s of
        Inl err \<Rightarrow> Inl (Wrapf ''failed to decode bech32 address %s: %w'' [FStr s] err)
      | Inr (hrp, data5bit) \<Rightarrow>
         (case ConvertBits data5bit 5 8 False of
            Inl err \<Rightarrow> Inl (Wrapf ''failed to convert bech32 data bits for address %s: %w'' [FStr s] err)
          | Inr data8bit \<Rightarrow>
              if length data8bit > AddressLen
              then Inl (Errorf ''decoded address %s is too long: got %d bytes, expected max %d''
                          [FStr s, FNat (length data8bit), FNat AddressLen])
              else Inr (copy_at 0 data8bit EmptyAddress)))"

fun credit_allocations ::
  "'s BalanceHandler \<Rightarrow> allocation list \<Rightarrow> 's \<Rightarrow> go_error option \<times> 's" where
  "credit_allocations bh [] s = (None, s)"
| "credit_allocations bh (alloc # allocs) s =
     (case decode_allocation (alloc_Address alloc) of
        Inl err \<Rightarrow> (Some err, s)
      | Inr addr \<Rightarrow>
         (case bh_AddBalance bh addr s (alloc_Balance alloc) of
            (Some err, s') \<Rightarrow> (Some err, s')
          | (None, s') \<Rightarrow> credit_allocations bh allocs s'))"

definition InitializeState :: "'s BalanceHandler \<Rightarrow> Genesis \<Rightarrow> 's \<Rightarrow> go_error option \<times> 's" where
  "InitializeState bh g s = credit_allocations bh (Allocations g) s"

text \<open>
  The code reads the clock twice; \<open>now1\<close> and \<open>now2\<close> are the two readings in seconds.
\<close>

definition GetDefault :: "i64 \<Rightarrow> i64 \<Rightarrow> Genesis" where
  "GetDefault now1 now2 =
     \<lparr>Magic = 12345, genesis_Timestamp = now1,
      Custom = \<lparr>custom_Markets =
        [\<lparr>gm_ID = 1, gm_Question = ''Will X happen by Y date?'', gm_ClosingTime = now2 + 24 * 3600,
          gm_CollateralAssetID = ''AVAX''\<rparr>]\<rparr>,
      Allocations = []\<rparr>"

section \<open>hypersdk's default genesis\<close>

record CustomAllocation =
  ca_Address :: Address
  ca_Balance :: u64

record DefaultGenesis =
  StateBranchFactor :: nat
  dg_CustomAllocation :: "CustomAllocation list"
  dg_Rules :: Rules

definition NewDefaultGenesis :: "CustomAllocation list \<Rightarrow> DefaultGenesis" where
  "NewDefaultGenesis customAllocations =
     \<lparr>StateBranchFactor = 16, dg_CustomAllocation = customAllocations, dg_Rules = NewDefaultRules\<rparr>"

fun credit_supply ::
  "'s BalanceHandler \<Rightarrow> CustomAllocation list \<Rightarrow> u64 \<Rightarrow> 's \<Rightarrow> go_error option \<times> 's" where
  "credit_supply bh [] supply s = (None, s)"
| "credit_supply bh (alloc # allocs) supply s =
     (case safe_Add supply (ca_Balance alloc) of
        Inl err \<Rightarrow> (Some err, s)
      | Inr supply' \<Rightarrow>
         (case bh_AddBalance bh (ca_Address alloc) s (ca_Balance alloc) of
            (Some err, s') \<Rightarrow>
              (Some (Wrapf ''%w: addr=%s, bal=%d'' [FBytes (ca_Address alloc), FU64 (ca_Balance alloc)] err), s')
          | (None, s') \<Rightarrow> credit_supply bh allocs supply' s'))"

definition DefaultGenesis_InitializeState ::
  "'s BalanceHandler \<Rightarrow> DefaultGenesis \<Rightarrow> 's \<Rightarrow> go_error option \<times> 's" where
  "DefaultGenesis_InitializeState bh g s = credit_supply bh (dg_CustomAllocation g) 0 s"

text \<open>
  \<^verbatim>\<open>DefaultGenesisFactory.Load\<close>; the rule factory it returns is the rules themselves. A file
  without \<^verbatim>\<open>initialRules\<close> leaves a nil pointer that the code dereferences; the parameter gives
  only genesis values that have rules.
\<close>

definition DefaultGenesisFactory_Load ::
  "(bytes \<Rightarrow> DefaultGenesis result) \<Rightarrow> bytes \<Rightarrow> u32 \<Rightarrow> bytes \<Rightarrow> (DefaultGenesis \<times> Rules) result" where
  "DefaultGenesisFactory_Load json_Unmarshal genesisBytes networkID chainID =
     (case json_Unmarshal genesisBytes of
        Inl err \<Rightarrow> Inl err
      | Inr g \<Rightarrow>
         (let r = (dg_Rules g)\<lparr>GetNetworkID := networkID, GetChainID := chainID\<rparr>
          in Inr (g\<lparr>dg_Rules := r\<rparr>, r)))"

section \<open>Crediting a store without restrictions\<close>

text \<open>The state a genesis writes to: everything may be written and a balance always has room.\<close>

locale open_store = scoped_store +
  assumes full: "inv s \<Longrightarrow> allowed s k p"
    and room: "wf_Address a \<Longrightarrow> roomy (BalanceKey a) (PutUint64 v)"
begin

lemma AddBalance_open:
  assumes "inv s" and "wf_Address a" and "GetBalance mu s a = Inr bal"
  shows "\<exists>s'. AddBalance mu s a n = (None, s') \<and> inv s' \<and>
    contents s' = (contents s)(BalanceKey a \<mapsto> PutUint64 (bal + n))"
  using AddBalance_ok [OF assms(1,3), of n] assms full room by (auto simp: insertable_def)

lemma GetBalance_open: "inv s \<Longrightarrow> GetBalance mu s a = stored_u64 (contents s (BalanceKey a))"
  by (simp add: GetBalance_stored full)

end

text \<open>What a list of credits gives an account.\<close>

definition allocated :: "Address \<Rightarrow> (Address \<times> u64) list \<Rightarrow> nat" where
  "allocated a ps = sum_list (map (\<lambda>(b, n). if b = a then unat n else 0) ps)"

fun credit_all :: "(Address \<Rightarrow> 's \<Rightarrow> u64 \<Rightarrow> go_error option \<times> 's) \<Rightarrow> (Address \<times> u64) list \<Rightarrow> 's \<Rightarrow>
    go_error option \<times> 's" where
  "credit_all add [] s = (None, s)"
| "credit_all add ((a, n) # ps) s =
     (case add a s n of (Some e, s') \<Rightarrow> (Some e, s') | (None, s') \<Rightarrow> credit_all add ps s')"

lemma allocated_simps [simp]:
  "allocated a [] = 0"
  "allocated a ((b, n) # ps) = (if b = a then unat n else 0) + allocated a ps"
  by (simp_all add: allocated_def)

lemma word_add_nat:
  assumes "unat (x :: u64) + unat y + k < 2 ^ 64"
  shows "unat (x + y) = unat x + unat y"
  using assms by (simp add: unat_word_ariths)

context open_store
begin

lemma credit_all_exact:
  assumes "inv s" and "\<forall>(a, n) \<in> set ps. wf_Address a \<and> n \<noteq> 0"
    and "\<forall>a. wf_Address a \<longrightarrow> GetBalance mu s a = Inr (bal a)"
    and "\<forall>a. unat (bal a) + allocated a ps < 2 ^ 64"
  shows "\<exists>s'. credit_all (Controller_AddBalance mu) ps s = (None, s') \<and> inv s' \<and>
    (\<forall>a. wf_Address a \<longrightarrow> GetBalance mu s' a = Inr (word_of_nat (unat (bal a) + allocated a ps))) \<and>
    (\<forall>k. k \<notin> BalanceKey ` fst ` set ps \<longrightarrow> contents s' k = contents s k)"
  using assms
proof (induction ps arbitrary: s bal)
  case Nil
  then show ?case by simp
next
  case (Cons p ps)
  obtain a n where p: "p = (a, n)" by force
  have wf: "wf_Address a" "n \<noteq> 0" using Cons.prems(2) by (auto simp: p)
  obtain s1 where s1: "AddBalance mu s a n = (None, s1)" "inv s1"
    "contents s1 = (contents s)(BalanceKey a \<mapsto> PutUint64 (bal a + n))"
    using AddBalance_open [OF Cons.prems(1) wf(1), of "bal a" n] Cons.prems(3) wf(1) by blast
  have sum: "unat (bal a) + unat n + allocated a ps < 2 ^ 64"
    using Cons.prems(4) by (auto simp: p split: if_splits dest: spec [of _ a])
  then have u: "unat (bal a + n) = unat (bal a) + unat n" by (rule word_add_nat)
  moreover have "unat n \<noteq> 0" using wf(2) by (simp add: unat_eq_0)
  ultimately have nz: "bal a + n \<noteq> 0" by (metis add_is_0 unsigned_0)
  have "GetBalance mu s1 b = Inr ((bal(a := bal a + n)) b)" if "wf_Address b" for b
    using s1 nz wf(1) that Cons.prems(1,3)
    by (auto simp: GetBalance_open BalanceKey_inj)
  moreover have "unat ((bal(a := bal a + n)) b) + allocated b ps < 2 ^ 64" for b
    using Cons.prems(4) sum u by (auto simp: p split: if_splits dest: spec [of _ b])
  ultimately obtain s' where "credit_all (Controller_AddBalance mu) ps s1 = (None, s')" "inv s'"
    "\<forall>b. wf_Address b \<longrightarrow> GetBalance mu s' b =
       Inr (word_of_nat (unat ((bal(a := bal a + n)) b) + allocated b ps))"
    "\<forall>k. k \<notin> BalanceKey ` fst ` set ps \<longrightarrow> contents s' k = contents s1 k"
    using Cons.IH [OF s1(2), of "bal(a := bal a + n)"] Cons.prems(2) by auto
  moreover have "word_of_nat (unat ((bal(a := bal a + n)) b) + allocated b ps) =
      (word_of_nat (unat (bal b) + allocated b (p # ps)) :: u64)" for b
    by (simp add: p)
  ultimately show ?case
    using s1(1,3) by (auto simp: p Controller_AddBalance_def [of mu a])
qed

end

section \<open>Both genesis kinds are lists of credits\<close>

lemma credit_allocations_all:
  assumes "map (decode_allocation \<circ> alloc_Address) allocs = map Inr addrs"
  shows "credit_allocations bh allocs s =
    credit_all (bh_AddBalance bh) (zip addrs (map alloc_Balance allocs)) s"
  using assms
  by (induction allocs arbitrary: addrs s) (auto simp: Cons_eq_map_conv split: prod.splits option.splits)

text \<open>The default genesis is the same list as long as the running supply fits 64 bits.\<close>

definition supply_of :: "CustomAllocation list \<Rightarrow> nat" where
  "supply_of allocs = sum_list (map (unat \<circ> ca_Balance) allocs)"

definition credits :: "CustomAllocation list \<Rightarrow> (Address \<times> u64) list" where
  "credits allocs = map (\<lambda>c. (ca_Address c, ca_Balance c)) allocs"

lemma credit_supply_all:
  assumes "unat n + supply_of allocs < 2 ^ 64"
    and "credit_all (bh_AddBalance bh) (credits allocs) s = (None, s')"
  shows "credit_supply bh allocs n s = (None, s')"
  using assms
proof (induction allocs arbitrary: n s)
  case (Cons c allocs)
  show ?case
  proof (cases n "ca_Balance c" rule: safe_Add_cases)
    case (ok m)
    with Cons.prems Cons.IH [of m] show ?thesis
      by (auto simp: credits_def supply_of_def split: prod.splits option.splits)
  next
    case over
    with Cons.prems(1) show ?thesis by (simp add: supply_of_def)
  qed
qed (simp_all add: credits_def)

text \<open>An oversized supply is an overflow error as soon as no credit fails before it.\<close>

lemma credit_supply_overflow:
  assumes "2 ^ 64 \<le> unat n + supply_of allocs"
    and "\<And>k. \<exists>s'. credit_all (bh_AddBalance bh) (credits (take k allocs)) s = (None, s') \<or>
                2 ^ 64 \<le> unat n + supply_of (take k allocs)"
  shows "fst (credit_supply bh allocs n s) = Some (Sentinel ErrOverflow)"
  using assms
proof (induction allocs arbitrary: n s)
  case Nil
  then show ?case using unsigned_less [of n, where ?'a = nat] by (simp add: supply_of_def)
next
  case (Cons c allocs)
  show ?case
  proof (cases n "ca_Balance c" rule: safe_Add_cases)
    case (ok m)
    obtain s1 where s1: "bh_AddBalance bh (ca_Address c) s (ca_Balance c) = (None, s1)"
      using Cons.prems(2) [of 1] ok by (auto simp: credits_def supply_of_def split: prod.splits option.splits)
    have "fst (credit_supply bh allocs m s1) = Some (Sentinel ErrOverflow)"
    proof (rule Cons.IH)
      show "2 ^ 64 \<le> unat m + supply_of allocs"
        using Cons.prems(1) ok by (simp add: supply_of_def)
      show "\<exists>s'. credit_all (bh_AddBalance bh) (credits (take k allocs)) s1 = (None, s') \<or>
          2 ^ 64 \<le> unat m + supply_of (take k allocs)" for k
        using Cons.prems(2) [of "Suc k"] ok s1 by (simp add: credits_def supply_of_def add.assoc)
    qed
    with ok s1 show ?thesis by simp
  next
    case over
    then show ?thesis by simp
  qed
qed

section \<open>Interpretations\<close>

interpretation mem_open: open_store InMemoryStore_Mutable "\<lambda>_. True" Storage "\<lambda>_ _ _. True" "\<lambda>_ _. True"
  by unfold_locales simp_all

text \<open>A view with complete permissions, which hypersdk runs the genesis in.\<close>

definition full_view :: "TStateView \<Rightarrow> bool" where
  "full_view v \<longleftrightarrow> wf_view v \<and> (\<forall>k p. checkScope v k p)"

interpretation view_open: open_store TStateView_Mutable full_view view_contents checkScope VerifyValue
proof unfold_locales
  fix v k x
  show "GetValue TStateView_Mutable v k =
      (if checkScope v k PermRead then found (view_contents v k)
       else Inl (Sentinel ErrInvalidKeyOrPermission))" if "full_view v"
    using that by (intro tview.get) (simp add: full_view_def)
  show "\<exists>v'. Insert TStateView_Mutable v k x = (None, v') \<and> full_view v' \<and>
      view_contents v' = (view_contents v)(k \<mapsto> x) \<and> checkScope v' = checkScope v"
    if "full_view v" "insertable (view_contents v) (checkScope v) VerifyValue k x"
    using that tview.insert_ok [of v k x] by (auto simp: full_view_def)
  show "Insert TStateView_Mutable v k x = (Some (insert_error (checkScope v) VerifyValue k x), v)"
    if "full_view v" "\<not> insertable (view_contents v) (checkScope v) VerifyValue k x"
    using that by (intro tview.insert_fail) (simp_all add: full_view_def)
qed (simp_all add: full_view_def tview.write_reads VerifyValue_BalanceKey)

section \<open>Properties\<close>

lemma allocated_le: "allocated a ps \<le> sum_list (map (unat \<circ> snd) ps)"
  by (induction ps) (auto simp: allocated_def)

definition no_balances :: "TStateView \<Rightarrow> bool" where
  "no_balances v \<longleftrightarrow> (\<forall>a. view_contents v (BalanceKey a) = None)"

lemma credit_all_view:
  assumes "full_view v" and "no_balances v" and "\<forall>(a, n) \<in> set ps. wf_Address a \<and> n \<noteq> 0"
    and "sum_list (map (unat \<circ> snd) ps) < 2 ^ 64"
  shows "\<exists>v'. credit_all (bh_AddBalance view_handler) ps v = (None, v') \<and> full_view v' \<and>
    (\<forall>a. wf_Address a \<longrightarrow> GetBalance TStateView_Mutable v' a = Inr (word_of_nat (allocated a ps))) \<and>
    (\<forall>k. k \<notin> BalanceKey ` fst ` set ps \<longrightarrow> view_contents v' k = view_contents v k)"
proof -
  have "\<forall>a. unat (0 :: u64) + allocated a ps < 2 ^ 64"
    using assms(4) le_less_trans [OF allocated_le] by simp
  with view_open.credit_all_exact [of v ps "\<lambda>_. 0"] assms(1-3) show ?thesis
    by (simp add: Controller_New_def view_open.GetBalance_open no_balances_def)
qed

lemma wf_decoded: "decode_allocation s = Inr a \<Longrightarrow> wf_Address a"
  by (auto simp: decode_allocation_def wf_Address_def EmptyAddress_def copy_at_def
        split: sum.splits if_splits)

text \<open>
  C36: an address written as a bech32 string is read back by the genesis. For every prefix of at most
  30 printable characters without upper case, the regrouped bits of the 33 bytes can be encoded, and
  the string is decoded to the same address.
\<close>

theorem allocation_address_round_trip:
  assumes "wf_Address a" and "hrp \<noteq> []" and "length hrp \<le> 30" and "\<forall>c \<in> set hrp. lower_char c"
  shows "\<exists>d s. ConvertBits a 8 5 True = Inr d \<and> bech32_Encode hrp d = Inr s \<and>
    decode_allocation s = Inr a"
proof -
  obtain d z where d: "ConvertBits a 8 5 True = Inr d" "z < 5" "\<forall>b \<in> set d. take_bit 5 b = b"
    and bits: "concat (map (low_bits 5) d) = concat (map (low_bits 8) a) @ replicate z False"
    using ConvertBits_8_5 by blast
  have "length (concat (map (low_bits n) xs)) = n * length xs" for n xs
    by (induction xs) simp_all
  then have "5 * length d = 8 * length a + z"
    using arg_cong [OF bits, of length] by simp
  then have len: "length d = 53" using assms(1) d(2) by (simp add: wf_Address_def AddressLen_def)
  have "unat b < 32" if "b \<in> set d" for b
  proof -
    have "unat b = take_bit 5 (unat b)"
      using d(3) that by (metis unsigned_take_bit_eq)
    also have "\<dots> < 2 ^ 5" by (rule take_bit_nat_less_exp)
    finally show ?thesis by simp
  qed
  then obtain s where s: "bech32_Encode hrp d = Inr s" "Decode s = Inr (hrp, d)"
    using Decode_Encode [of hrp d] assms(2-4) len by auto
  have "decode_allocation s = Inr a"
    using s(2) ConvertBits_5_8 [OF bits d(2)] assms(1)
    by (simp add: decode_allocation_def wf_Address_def EmptyAddress_def copy_at_array)
  with d(1) s(1) show ?thesis by blast
qed

theorem allocation_address_round_trip_witness:
  "\<exists>d s. ConvertBits sample_address 8 5 True = Inr d \<and> bech32_Encode ''pred'' d = Inr s \<and>
    decode_allocation s = Inr sample_address"
  using allocation_address_round_trip [of sample_address "''pred''"]
  by (simp add: wf_Address_def AddressLen_def sample_address_def lower_char_def)

text \<open>
  C35: the genesis of the program, run on a state without balances, credits every account with exactly
  the sum of its allocations, when the addresses can be decoded, no allocation is zero and their sum
  fits 64 bits, and writes nothing but these balances: the markets of the genesis are not stored.
\<close>

theorem genesis_credits_allocations:
  assumes "full_view v" and "no_balances v"
    and "map (decode_allocation \<circ> alloc_Address) (Allocations g) = map Inr addrs"
    and "\<forall>al \<in> set (Allocations g). alloc_Balance al \<noteq> 0"
    and "sum_list (map (unat \<circ> alloc_Balance) (Allocations g)) < 2 ^ 64"
  shows "\<exists>v'. InitializeState view_handler g v = (None, v') \<and>
    (\<forall>a. wf_Address a \<longrightarrow> GetBalance TStateView_Mutable v' a =
       Inr (word_of_nat (allocated a (zip addrs (map alloc_Balance (Allocations g)))))) \<and>
    (\<forall>k. k \<notin> BalanceKey ` set addrs \<longrightarrow> view_contents v' k = view_contents v k) \<and>
    (\<forall>i. view_contents v' (MarketKey i) = view_contents v (MarketKey i))"
proof -
  let ?ps = "zip addrs (map alloc_Balance (Allocations g))"
  have len: "length addrs = length (Allocations g)"
    using assms(3) by (metis length_map)
  have wf: "wf_Address a" if "a \<in> set addrs" for a
  proof -
    from that have "(Inr a :: Address result) \<in> set (map Inr addrs)" by simp
    then show ?thesis using wf_decoded by (auto simp flip: assms(3))
  qed
  have "\<forall>(a, n) \<in> set ?ps. wf_Address a \<and> n \<noteq> 0"
    using wf assms(4) by (force dest: set_zip_leftD set_zip_rightD)
  moreover have "map (unat \<circ> snd) ?ps = map (unat \<circ> alloc_Balance) (Allocations g)"
    using len by (simp flip: map_map)
  ultimately obtain v' where v': "credit_all (bh_AddBalance view_handler) ?ps v = (None, v')"
      "\<forall>a. wf_Address a \<longrightarrow> GetBalance TStateView_Mutable v' a = Inr (word_of_nat (allocated a ?ps))"
      "\<forall>k. k \<notin> BalanceKey ` fst ` set ?ps \<longrightarrow> view_contents v' k = view_contents v k"
    using credit_all_view [OF assms(1,2), of ?ps] assms(5) by auto
  moreover have "fst ` set ?ps = set addrs" using len by (metis length_map list.set_map map_fst_zip)
  moreover have "MarketKey i \<notin> BalanceKey ` set addrs" for i using wf keys_distinct(2) by fastforce
  ultimately show ?thesis by (simp add: InitializeState_def credit_allocations_all [OF assms(3)])
qed

definition genesis_view :: TStateView where
  "genesis_view = NewView TState_New FullAccess (ImmutableStorage_GetValue Map.empty)"

lemma genesis_view_open: "full_view genesis_view" "no_balances genesis_view"
proof -
  have "wf_view genesis_view" by (simp add: genesis_view_def wf_view_NewView)
  moreover have "view_scope genesis_view = FullAccess" by (simp add: genesis_view_def NewView_def)
  ultimately show "full_view genesis_view" by (auto simp: full_view_def checkScope_def)
  show "no_balances genesis_view"
    by (simp add: no_balances_def genesis_view_def NewView_def TState_New_def view_contents_def
          parent_value_def getChangedValue_def ImmutableStorage_GetValue_def)
qed

theorem genesis_credits_allocations_witness:
  "\<exists>v'. InitializeState view_handler
      ((GetDefault 0 0)\<lparr>Allocations := [\<lparr>alloc_Address = ''a12uel5l'', alloc_Balance = 5\<rparr>,
                                     \<lparr>alloc_Address = ''A12UEL5L'', alloc_Balance = 7\<rparr>]\<rparr>) genesis_view = (None, v') \<and>
    GetBalance TStateView_Mutable v' EmptyAddress = Inr 12 \<and>
    view_contents v' (MarketKey 1) = view_contents genesis_view (MarketKey 1)"
proof -
  have "decode_allocation ''a12uel5l'' = Inr EmptyAddress" "decode_allocation ''A12UEL5L'' = Inr EmptyAddress"
    by code_simp+
  with genesis_credits_allocations [OF genesis_view_open, of
      "(GetDefault 0 0)\<lparr>Allocations := [\<lparr>alloc_Address = ''a12uel5l'', alloc_Balance = 5\<rparr>,
                                      \<lparr>alloc_Address = ''A12UEL5L'', alloc_Balance = 7\<rparr>]\<rparr>"
      "[EmptyAddress, EmptyAddress]"]
  show ?thesis by force
qed

text \<open>
  The genesis of hypersdk, which the virtual machine starts from, either credits every account
  with exactly the sum of its allocations or, when the total supply does not fit 64 bits, stops with
  an overflow error; balances never wrap.
\<close>

theorem default_genesis_supply:
  assumes "full_view v" and "no_balances v"
    and "\<forall>c \<in> set (dg_CustomAllocation g). wf_Address (ca_Address c) \<and> ca_Balance c \<noteq> 0"
  shows "if supply_of (dg_CustomAllocation g) < 2 ^ 64
    then \<exists>v'. DefaultGenesis_InitializeState view_handler g v = (None, v') \<and>
      (\<forall>a. wf_Address a \<longrightarrow> GetBalance TStateView_Mutable v' a =
         Inr (word_of_nat (allocated a (credits (dg_CustomAllocation g)))))
    else fst (DefaultGenesis_InitializeState view_handler g v) = Some (Sentinel ErrOverflow)"
proof -
  have total: "sum_list (map (unat \<circ> snd) (credits cs)) = supply_of cs" for cs
    by (induction cs) (simp_all add: credits_def supply_of_def)
  have credit: "\<exists>v'. credit_all (bh_AddBalance view_handler) (credits (take k (dg_CustomAllocation g))) v = (None, v') \<and>
      (\<forall>a. wf_Address a \<longrightarrow> GetBalance TStateView_Mutable v' a =
        Inr (word_of_nat (allocated a (credits (take k (dg_CustomAllocation g))))))"
    if "supply_of (take k (dg_CustomAllocation g)) < 2 ^ 64" for k
  proof -
    have "\<forall>(a, n) \<in> set (credits (take k (dg_CustomAllocation g))). wf_Address a \<and> n \<noteq> 0"
      using assms(3) by (auto simp: credits_def dest: in_set_takeD)
    with credit_all_view [OF assms(1,2)] that show ?thesis by (metis total)
  qed
  show ?thesis
  proof (cases "supply_of (dg_CustomAllocation g) < 2 ^ 64")
    case True
    with credit [of "length (dg_CustomAllocation g)"]
      credit_supply_all [of 0 "dg_CustomAllocation g" view_handler v]
    show ?thesis by (auto simp: DefaultGenesis_InitializeState_def simp del: credit_all.simps)
  next
    case False
    with credit credit_supply_overflow [of 0 "dg_CustomAllocation g" view_handler v] show ?thesis
      by (force simp: DefaultGenesis_InitializeState_def not_less)
  qed
qed

theorem default_genesis_supply_witness:
  "fst (DefaultGenesis_InitializeState view_handler
     (NewDefaultGenesis [\<lparr>ca_Address = sample_address, ca_Balance = - 1\<rparr>,
                         \<lparr>ca_Address = sample_address, ca_Balance = 1\<rparr>]) genesis_view) =
   Some (Sentinel ErrOverflow)"
  using default_genesis_supply [OF genesis_view_open, of
      "NewDefaultGenesis [\<lparr>ca_Address = sample_address, ca_Balance = - 1\<rparr>,
                          \<lparr>ca_Address = sample_address, ca_Balance = 1\<rparr>]"]
  by (simp add: NewDefaultGenesis_def supply_of_def wf_Address_def AddressLen_def sample_address_def
        unsigned_minus_1_eq_mask mask_eq_exp_minus_1)

end
