(* ===== verification/VirtualMachine.thy ===== *)
theory VirtualMachine
  imports GenesisState
begin

text \<open>
  The virtual machine as it is put together (\<^verbatim>\<open>vm/vm.go\<close>, \<^verbatim>\<open>vm/option.go\<close>,
  \<^verbatim>\<open>vm/server.go\<close>): the type parsers with the types that are registered, the provider of
  private keys, the options and the RPC server. The unmarshalers of the signature schemes, the
  private key factories, JSON decoding and the HTTP handler are parameters. Shown: which actions a
  node can parse, that registering is a partial injective map, and which RPC endpoints a node
  serves.
\<close>

section \<open>hypersdk type parsers\<close>

text \<open>
  The field \<^verbatim>\<open>typeToIndex\<close> is never written or read and left out. A registered instance is
  represented by its type identifier.
\<close>

record 'a TypeParser =
  indexToDecoder :: "(u8 \<times> (bytes \<Rightarrow> 'a result)) list"
  registeredTypes :: "u8 list"

definition NewTypeParser :: "'a TypeParser" where
  "NewTypeParser = \<lparr>indexToDecoder = [], registeredTypes = []\<rparr>"

definition Register ::
  "u8 \<Rightarrow> (bytes \<Rightarrow> 'a result) \<Rightarrow> 'a TypeParser \<Rightarrow> go_error option \<times> 'a TypeParser" where
  "Register typeID f p =
     (if length (indexToDecoder p) = 256 then (Some (Sentinel ErrTooManyItems), p)
      else if map_of (indexToDecoder p) typeID \<noteq> None then (Some (Sentinel ErrDuplicateItem), p)
      else (None, p\<lparr>indexToDecoder := (typeID, f) # indexToDecoder p,
                    registeredTypes := registeredTypes p @ [typeID]\<rparr>))"

definition lookupIndex :: "'a TypeParser \<Rightarrow> u8 \<Rightarrow> (bytes \<Rightarrow> 'a result) option" where
  "lookupIndex p index = map_of (indexToDecoder p) index"

definition TypeParser_Unmarshal :: "'a TypeParser \<Rightarrow> bytes \<Rightarrow> 'a result" where
  "TypeParser_Unmarshal p bs =
     (case bs of
        [] \<Rightarrow> Inl (Errorf ''typeID not found in slice with length %d'' [FNat 0])
      | typeID # _ \<Rightarrow>
         (case lookupIndex p typeID of
            None \<Rightarrow> Inl (Errorf ''typeID %d not found'' [FU8 typeID])
          | Some decoder \<Rightarrow> decoder bs))"

text \<open>\<^verbatim>\<open>errors.Join\<close>: nil when every argument is nil, otherwise an error that wraps all others.\<close>

fun errors_Join :: "go_error option list \<Rightarrow> go_error option" where
  "errors_Join [] = None"
| "errors_Join (None # es) = errors_Join es"
| "errors_Join (Some e # es) =
     (case errors_Join es of
        None \<Rightarrow> Some (Wrapf ''%w'' [] e)
      | Some d \<Rightarrow> Some (Wrap2f (''%w'' @ [CHR 0x0A] @ ''%w'') [] e d))"

section \<open>hypersdk private keys\<close>

record PrivateKey =
  pk_Address :: Address
  pk_Bytes :: bytes

text \<open>A factory makes a key from randomness or from the bytes of a file.\<close>

record PrivateKeyFactory =
  factory_Generate :: "bytes \<Rightarrow> PrivateKey result"
  factory_Load :: "bytes \<Rightarrow> PrivateKey result"

type_synonym AuthProvider = "(string \<times> PrivateKeyFactory) list"

definition ED25519ID :: u8 where "ED25519ID = 0"
definition SECP256R1ID :: u8 where "SECP256R1ID = 1"
definition BLSID :: u8 where "BLSID = 2"
definition ED25519Key :: string where "ED25519Key = ''ed25519''"
definition Secp256r1Key :: string where "Secp256r1Key = ''secp256r1''"
definition BLSKey :: string where "BLSKey = ''bls''"

definition AuthProvider_Register ::
  "string \<Rightarrow> PrivateKeyFactory \<Rightarrow> AuthProvider \<Rightarrow> go_error option \<times> AuthProvider" where
  "AuthProvider_Register key f p =
     (if map_of p key \<noteq> None
      then (Some (Wrapf ''%w: %s'' [FStr key] (Sentinel ErrAlreadyRegisteredKeyType)), p)
      else (None, (key, f) # p))"

definition WithDefaultPrivateKeyFactories ::
  "PrivateKeyFactory \<Rightarrow> PrivateKeyFactory \<Rightarrow> PrivateKeyFactory \<Rightarrow> AuthProvider \<Rightarrow>
   go_error option \<times> AuthProvider" where
  "WithDefaultPrivateKeyFactories ed secp bls p0 =
     (let (e1, p1) = AuthProvider_Register ED25519Key ed p0;
          (e2, p2) = AuthProvider_Register Secp256r1Key secp p1;
          (e3, p3) = AuthProvider_Register BLSKey bls p2
      in (errors_Join [e1, e2, e3], p3))"

definition invalid_key_type :: "string \<Rightarrow> go_error" where
  "invalid_key_type key = Wrapf ''%w: %s'' [FStr key] (Sentinel ErrAuthInvalidKeyType)"

definition CheckType :: "AuthProvider \<Rightarrow> string \<Rightarrow> go_error option" where
  "CheckType p key = (if map_of p key \<noteq> None then None else Some (invalid_key_type key))"

definition GeneratePrivateKey :: "AuthProvider \<Rightarrow> bytes \<Rightarrow> string \<Rightarrow> PrivateKey result" where
  "GeneratePrivateKey p random key =
     (case map_of p key of
        Some f \<Rightarrow> factory_Generate f random
      | None \<Rightarrow> Inl (invalid_key_type key))"

definition LoadPrivateKey ::
  "AuthProvider \<Rightarrow> (string \<Rightarrow> bytes result) \<Rightarrow> string \<Rightarrow> string \<Rightarrow> PrivateKey result" where
  "LoadPrivateKey p os_ReadFile key path =
     (case map_of p key of
        None \<Rightarrow> Inl (invalid_key_type key)
      | Some f \<Rightarrow>
         (case os_ReadFile path of
            Inl err \<Rightarrow> Inl err
          | Inr privateKey \<Rightarrow> factory_Load f privateKey))"

section \<open>vm.go: the registered types\<close>

record 'auth vm_globals =
  ActionParser :: "Action TypeParser"
  AuthParser :: "'auth TypeParser"
  OutputParser :: "unit TypeParser"
  vm_AuthProvider :: AuthProvider

text \<open>\<^verbatim>\<open>chain.TxTypeParser\<close>.\<close>

record 'auth TxTypeParser =
  ActionRegistry :: "Action TypeParser"
  AuthRegistry :: "'auth TypeParser"

definition NewTxTypeParser :: "Action TypeParser \<Rightarrow> 'auth TypeParser \<Rightarrow> 'auth TxTypeParser" where
  "NewTxTypeParser actionRegistry authRegistry =
     \<lparr>ActionRegistry = actionRegistry, AuthRegistry = authRegistry\<rparr>"

definition ParseAction :: "'auth TxTypeParser \<Rightarrow> bytes \<Rightarrow> Action result" where
  "ParseAction t bs = TypeParser_Unmarshal (ActionRegistry t) bs"

definition ParseAuth :: "'auth TxTypeParser \<Rightarrow> bytes \<Rightarrow> 'auth result" where
  "ParseAuth t bs = TypeParser_Unmarshal (AuthRegistry t) bs"

text \<open>The decoder registered for \<^verbatim>\<open>BuyYes\<close>: the action as a \<^verbatim>\<open>chain.Action\<close>.\<close>

definition decode_BuyYes :: "bytes \<Rightarrow> Action result" where
  "decode_BuyYes b = (case UnmarshalBuyYes b of Inl e \<Rightarrow> Inl e | Inr a \<Rightarrow> Inr (ActBuyYes a))"

text \<open>\<open>Inl\<close> is a panic of the initializer.\<close>

definition vm_init ::
  "PrivateKeyFactory \<times> PrivateKeyFactory \<times> PrivateKeyFactory \<Rightarrow>
   (bytes \<Rightarrow> 'auth result) \<times> (bytes \<Rightarrow> 'auth result) \<times> (bytes \<Rightarrow> 'auth result) \<Rightarrow>
   ('auth vm_globals \<times> 'auth TxTypeParser) result" where
  "vm_init = (\<lambda>(ed, secp, bls) (unmarshalED25519, unmarshalSECP256R1, unmarshalBLS).
     case WithDefaultPrivateKeyFactories ed secp bls [] of
       (Some err, _) \<Rightarrow> Inl err
     | (None, provider) \<Rightarrow>
        (let (e1, actionParser) = Register BuyYes_GetTypeID decode_BuyYes NewTypeParser;
             (e2, auth1) = Register ED25519ID unmarshalED25519 NewTypeParser;
             (e3, auth2) = Register SECP256R1ID unmarshalSECP256R1 auth1;
             (e4, authParser) = Register BLSID unmarshalBLS auth2
         in case errors_Join [e1, e2, e3, e4] of
              Some err \<Rightarrow> Inl err
            | None \<Rightarrow>
                Inr (\<lparr>ActionParser = actionParser, AuthParser = authParser,
                      OutputParser = NewTypeParser, vm_AuthProvider = provider\<rparr>,
                     NewTxTypeParser actionParser authParser)))"

section \<open>server.go\<close>

definition JSONRPCEndpoint :: string where
  "JSONRPCEndpoint = ''/predictionapi''"

text \<open>What the server asks of the virtual machine. The genesis has some dynamic type.\<close>

datatype vm_genesis = IsDefaultGenesis DefaultGenesis | OtherGenesis Genesis

record api_VM =
  vm_Genesis :: vm_genesis
  vm_ReadState :: ReadState

record JSONRPCServer =
  server_vm :: api_VM

definition NewJSONRPCServer :: "api_VM \<Rightarrow> JSONRPCServer" where
  "NewJSONRPCServer vm = \<lparr>server_vm = vm\<rparr>"

record 'h api_Handler =
  handler_Path :: string
  handler_Handler :: 'h

definition jsonRPCServerFactory_New ::
  "(bytes \<Rightarrow> JSONRPCServer \<Rightarrow> 'h \<times> go_error option) \<Rightarrow> api_VM \<Rightarrow> 'h api_Handler \<times> go_error option" where
  "jsonRPCServerFactory_New newJSONRPCHandler vm =
     (let (handler, err) = newJSONRPCHandler Name (NewJSONRPCServer vm)
      in (\<lparr>handler_Path = JSONRPCEndpoint, handler_Handler = handler\<rparr>, err))"

record GenesisReply =
  reply_Genesis :: "DefaultGenesis option"

text \<open>The type assertion panics (\<open>Inl\<close>) on any other genesis.\<close>

definition server_Genesis :: "JSONRPCServer \<Rightarrow> GenesisReply \<Rightarrow> GenesisReply result" where
  "server_Genesis j reply =
     (case vm_Genesis (server_vm j) of
        IsDefaultGenesis g \<Rightarrow> Inr (reply\<lparr>reply_Genesis := Some g\<rparr>)
      | OtherGenesis _ \<Rightarrow> Inl (ErrNew ''panic: interface conversion''))"

record BalanceArgs =
  args_Address :: Address

record BalanceReply =
  reply_Amount :: u64

definition server_Balance ::
  "JSONRPCServer \<Rightarrow> BalanceArgs \<Rightarrow> BalanceReply \<Rightarrow> go_error option \<times> BalanceReply" where
  "server_Balance j args reply =
     (case GetBalanceFromState (vm_ReadState (server_vm j)) (args_Address args) of
        (balance, Some err) \<Rightarrow> (Some err, reply)
      | (balance, None) \<Rightarrow> (None, reply\<lparr>reply_Amount := balance\<rparr>))"

section \<open>option.go and the options of a virtual machine\<close>

text \<open>
  The part of hypersdk's \<^verbatim>\<open>vm.Options\<close> that options of this program can change; block
  subscriptions are left out.
\<close>

record 'h Options =
  opts_builder :: bool
  opts_gossiper :: bool
  vmAPIHandlerFactories :: "(api_VM \<Rightarrow> 'h api_Handler \<times> go_error option) list"

type_synonym 'h Opt = "'h Options \<Rightarrow> 'h Options"

record 'h vm_Option =
  option_Namespace :: string
  optionFunc :: "api_VM \<Rightarrow> bytes \<Rightarrow> 'h Opt result"

definition NewOpt :: "'h Opt list \<Rightarrow> 'h Opt" where
  "NewOpt opts o0 = fold (\<lambda>opt. opt) opts o0"

definition WithVMAPIs :: "(api_VM \<Rightarrow> 'h api_Handler \<times> go_error option) list \<Rightarrow> 'h Opt" where
  "WithVMAPIs apiHandlerFactories o0 =
     o0\<lparr>vmAPIHandlerFactories := vmAPIHandlerFactories o0 @ apiHandlerFactories\<rparr>"

text \<open>The configuration is decoded into the default value; an option is applied once.\<close>

definition NewOption ::
  "(bytes \<Rightarrow> 'c \<Rightarrow> 'c result) \<Rightarrow> string \<Rightarrow> 'c \<Rightarrow> (api_VM \<Rightarrow> 'c \<Rightarrow> 'h Opt result) \<Rightarrow> 'h vm_Option" where
  "NewOption json_Unmarshal namespace defaultConfig f =
     \<lparr>option_Namespace = namespace,
      optionFunc = (\<lambda>vm configBytes.
        if length configBytes > 0
        then (case json_Unmarshal configBytes defaultConfig of
                Inl err \<Rightarrow> Inl (Wrapf ''failed to unmarshal %q config %q: %w''
                                   [FStr namespace, FBytes configBytes] err)
              | Inr config \<Rightarrow> f vm config)
        else f vm defaultConfig)\<rparr>"

definition Namespace :: string where
  "Namespace = ''controller''"

record Config =
  Enabled :: bool

definition NewDefaultConfig :: Config where
  "NewDefaultConfig = \<lparr>Enabled = True\<rparr>"

definition vm_With ::
  "(bytes \<Rightarrow> Config \<Rightarrow> Config result) \<Rightarrow> (bytes \<Rightarrow> JSONRPCServer \<Rightarrow> 'h \<times> go_error option) \<Rightarrow> 'h vm_Option" where
  "vm_With json_Unmarshal newJSONRPCHandler =
     NewOption json_Unmarshal Namespace NewDefaultConfig (\<lambda>_ config.
       if \<not> Enabled config then Inr (NewOpt [])
       else Inr (WithVMAPIs [jsonRPCServerFactory_New newJSONRPCHandler]))"

section \<open>vm.go: the factory\<close>

text \<open>
  \<^verbatim>\<open>vm.Factory\<close> and the \<^verbatim>\<open>VM\<close> it makes, with what the program gives them; the options
  hypersdk has by default are the parameter \<open>defaults\<close>, the description of the ABI is left out.
\<close>

record ('auth, 'h) vm_Factory =
  factory_balanceHandler :: "TStateView BalanceHandler"
  factory_actionCodec :: "Action TypeParser"
  factory_authCodec :: "'auth TypeParser"
  factory_outputCodec :: "unit TypeParser"
  factory_options :: "'h vm_Option list"

fun check_namespaces :: "'h vm_Option list \<Rightarrow> string list \<Rightarrow> go_error option" where
  "check_namespaces [] allocatedNamespaces = None"
| "check_namespaces (opt # opts) allocatedNamespaces =
     (if option_Namespace opt \<in> set allocatedNamespaces
      then Some (Errorf ''namespace %s already allocated'' [FStr (option_Namespace opt)])
      else check_namespaces opts (option_Namespace opt # allocatedNamespaces))"

definition Factory_New ::
  "('auth, 'h) vm_Factory \<Rightarrow> 'h vm_Option list \<Rightarrow> ('auth, 'h) vm_Factory result" where
  "Factory_New f options =
     (let all = factory_options f @ options in
      case check_namespaces all [] of
        Some err \<Rightarrow> Inl err
      | None \<Rightarrow> Inr (f\<lparr>factory_options := all\<rparr>))"

definition NewFactory ::
  "'h vm_Option list \<Rightarrow> 'auth vm_globals \<Rightarrow> ('auth, 'h) vm_Factory" where
  "NewFactory defaults g =
     \<lparr>factory_balanceHandler = Controller_New TStateView_Mutable,
      factory_actionCodec = ActionParser g, factory_authCodec = AuthParser g,
      factory_outputCodec = OutputParser g, factory_options = defaults\<rparr>"

definition vm_New ::
  "'h vm_Option list \<Rightarrow> 'auth vm_globals \<Rightarrow> 'h vm_Option list \<Rightarrow> ('auth, 'h) vm_Factory result" where
  "vm_New defaults g options = Factory_New (NewFactory defaults g) options"

text \<open>The loop of \<^verbatim>\<open>VM.Initialize\<close> over the options, and the paths the node then serves.\<close>

fun apply_options ::
  "api_VM \<Rightarrow> (string \<Rightarrow> bytes) \<Rightarrow> 'h vm_Option list \<Rightarrow> 'h Options \<Rightarrow> 'h Options result" where
  "apply_options vm getRawConfig [] o0 = Inr o0"
| "apply_options vm getRawConfig (opt # opts) o0 =
     (case optionFunc opt vm (getRawConfig (option_Namespace opt)) of
        Inl err \<Rightarrow> Inl err
      | Inr f \<Rightarrow> apply_options vm getRawConfig opts (f o0))"

definition no_options :: "'h Options" where
  "no_options = \<lparr>opts_builder = False, opts_gossiper = False, vmAPIHandlerFactories = []\<rparr>"

definition served_paths :: "api_VM \<Rightarrow> 'h Options \<Rightarrow> string list" where
  "served_paths vm opts = map (\<lambda>f. handler_Path (fst (f vm))) (vmAPIHandlerFactories opts)"

section \<open>Registering\<close>

lemma Register_cases:
  obtains (full) "length (indexToDecoder p) = 256" "Register i f p = (Some (Sentinel ErrTooManyItems), p)"
  | (duplicate) "i \<in> fst ` set (indexToDecoder p)" "Register i f p = (Some (Sentinel ErrDuplicateItem), p)"
  | (registered) p' where "length (indexToDecoder p) \<noteq> 256" "i \<notin> fst ` set (indexToDecoder p)"
      "Register i f p = (None, p')" "indexToDecoder p' = (i, f) # indexToDecoder p"
      "registeredTypes p' = registeredTypes p @ [i]"
proof -
  consider "length (indexToDecoder p) = 256"
    | "length (indexToDecoder p) \<noteq> 256" "i \<in> fst ` set (indexToDecoder p)"
    | "length (indexToDecoder p) \<noteq> 256" "i \<notin> fst ` set (indexToDecoder p)"
    by blast
  then show thesis
  proof cases
    case 3
    show thesis
      by (rule registered [of "p\<lparr>indexToDecoder := (i, f) # indexToDecoder p,
            registeredTypes := registeredTypes p @ [i]\<rparr>"])
         (use 3 in \<open>simp_all add: Register_def map_of_eq_None_iff\<close>)
  qed (use full duplicate in \<open>simp_all add: Register_def map_of_eq_None_iff\<close>)
qed

definition wf_parser :: "'a TypeParser \<Rightarrow> bool" where
  "wf_parser p \<longleftrightarrow> distinct (map fst (indexToDecoder p)) \<and>
     registeredTypes p = rev (map fst (indexToDecoder p))"

lemma wf_NewTypeParser: "wf_parser NewTypeParser"
  by (simp add: wf_parser_def NewTypeParser_def)

lemma wf_Register: "wf_parser p \<Longrightarrow> wf_parser (snd (Register i f p))"
  by (cases i f p rule: Register_cases) (auto simp: wf_parser_def)

lemma vm_init_ok:
  "\<exists>g. vm_init fs us = Inr (g, NewTxTypeParser (ActionParser g) (AuthParser g)) \<and>
     indexToDecoder (ActionParser g) = [(BuyYesID, decode_BuyYes)] \<and>
     map fst (indexToDecoder (AuthParser g)) = [BLSID, SECP256R1ID, ED25519ID] \<and>
     map fst (vm_AuthProvider g) = [BLSKey, Secp256r1Key, ED25519Key]"
proof -
  obtain a b c d e f where "fs = (a, b, c)" "us = (d, e, f)" by (metis prod_cases3)
  then show ?thesis
    by (simp add: vm_init_def WithDefaultPrivateKeyFactories_def AuthProvider_Register_def
          ED25519Key_def Secp256r1Key_def BLSKey_def Register_def NewTypeParser_def ED25519ID_def
          SECP256R1ID_def BLSID_def BuyYes_GetTypeID_def)
qed

section \<open>Properties\<close>

definition no_type :: "bytes \<Rightarrow> go_error" where
  "no_type bs = Errorf ''typeID %d not found'' [FU8 (hd bs)]"

lemma ParseAction_vm:
  assumes "vm_init fs us = Inr (g, parser)" and "bs \<noteq> []"
  shows "ParseAction parser bs = (if hd bs = BuyYesID then decode_BuyYes bs else Inl (no_type bs))"
proof -
  have "parser = NewTxTypeParser (ActionParser g) (AuthParser g)"
    "indexToDecoder (ActionParser g) = [(BuyYesID, decode_BuyYes)]"
    using vm_init_ok [of fs us] assms(1) by auto
  with assms(2) show ?thesis
    by (cases bs)
       (simp_all add: ParseAction_def NewTxTypeParser_def TypeParser_Unmarshal_def lookupIndex_def no_type_def)
qed

lemma top_byte: "ucast (drop_bit 56 v) = (5 :: u8) \<longleftrightarrow> drop_bit 56 v = (5 :: u64)" for v :: u64
proof -
  have "unat (ucast (drop_bit 56 v) :: u8) = unat (drop_bit 56 v)"
  proof -
    have "unat (drop_bit 56 v) = unat v div 2 ^ 56"
      by (simp add: unat_drop_bit_eq drop_bit_eq_div unat_div_distrib)
    then have "unat (drop_bit 56 v) < 2 ^ 8"
      using unsigned_less [of v, where ?'a = nat] by (simp add: div_less_iff_less_mult)
    then show ?thesis by (simp add: unsigned_ucast_eq unsigned_take_bit_eq take_bit_eq_mod)
  qed
  then show ?thesis by (simp add: word_unat_eq_iff)
qed

text \<open>
  What a node makes of the bytes of the three actions. The bytes of the two buy actions carry no
  type identifier, so the highest byte of the market identifier is taken for it: both are refused
  unless it is 5, and then both, the purchase of NO shares too, are read as a purchase of YES
  shares. A market creation is never accepted.
\<close>

theorem node_action_parsing:
  assumes "vm_init fs us = Inr (g, parser)" and "cm_size cm \<le> MaxStringLen"
  shows "(let bs = BuyYes_Bytes b in
      ParseAction parser bs =
        (if drop_bit 56 (by_MarketID b) = 5 then Inr (ActBuyYes b) else Inl (no_type bs))) \<and>
    (let bs = BuyNo_Bytes n in
      ParseAction parser bs =
        (if drop_bit 56 (bn_MarketID n) = 5
         then Inr (ActBuyYes \<lparr>by_MarketID = bn_MarketID n, by_Amount = bn_Amount n, by_MaxPrice = bn_MaxPrice n\<rparr>)
         else Inl (no_type bs))) \<and>
    (case CreateMarket_Bytes cm of Inl _ \<Rightarrow> True | Inr bs \<Rightarrow> ParseAction parser bs = Inl (no_type bs))"
proof -
  have parse: "ParseAction parser bs = (if hd bs = BuyYesID then decode_BuyYes bs else Inl (no_type bs))"
    if "bs \<noteq> []" for bs
    using ParseAction_vm [OF assms(1) that] .
  have top: "ucast (drop_bit 56 v) = (5 :: u8) \<longleftrightarrow> drop_bit 56 v = (5 :: u64)" for v :: u64
    by (rule top_byte)
  have yes: "UnmarshalBuyYes (BuyYes_Bytes c) = Inr c" for c
    using UnmarshalBuyYes_Bytes [of c "[]"] by simp
  let ?c = "\<lparr>by_MarketID = bn_MarketID n, by_Amount = bn_Amount n, by_MaxPrice = bn_MaxPrice n\<rparr>"
  have no: "BuyNo_Bytes n = BuyYes_Bytes ?c" by (simp add: BuyNo_Bytes_eq BuyYes_Bytes_eq)
  have hd: "hd (BuyYes_Bytes c) = ucast (drop_bit 56 (by_MarketID c))" "BuyYes_Bytes c \<noteq> []" for c
    by (simp_all add: BuyYes_Bytes_eq PutUint64_def)
  have "ParseAction parser (BuyYes_Bytes c) =
      (if drop_bit 56 (by_MarketID c) = 5 then Inr (ActBuyYes c) else Inl (no_type (BuyYes_Bytes c)))" for c
    using parse [OF hd(2), of c] by (simp add: hd(1) top decode_BuyYes_def yes)
  from this [of b] this [of ?c] parse show ?thesis
    by (auto simp: no CreateMarket_Bytes_eq [OF assms(2)] Let_def)
qed

theorem node_action_parsing_witness:
  "\<exists>parser :: unit TxTypeParser.
    ParseAction parser (BuyYes_Bytes sample_buy) = Inl (no_type (BuyYes_Bytes sample_buy)) \<and>
    ParseAction parser (BuyNo_Bytes (sample_buy_no\<lparr>bn_MarketID := 0x0500000000000007\<rparr>)) =
      Inr (ActBuyYes \<lparr>by_MarketID = 0x0500000000000007, by_Amount = bn_Amount sample_buy_no,
                      by_MaxPrice = bn_MaxPrice sample_buy_no\<rparr>)"
proof -
  let ?f = "\<lparr>factory_Generate = (\<lambda>_. Inl (ErrNew [])), factory_Load = (\<lambda>_. Inl (ErrNew []))\<rparr>"
  let ?u = "\<lambda>_ :: bytes. Inr () :: unit result"
  obtain g where g: "vm_init (?f, ?f, ?f) (?u, ?u, ?u) = Inr (g, NewTxTypeParser (ActionParser g) (AuthParser g))"
    using vm_init_ok [of "(?f, ?f, ?f)" "(?u, ?u, ?u)"] by blast
  have size: "cm_size sample_create \<le> MaxStringLen"
    by (simp add: cm_size_def sample_create_def MaxStringLen_def bytes_of_string_def)
  show ?thesis
    using node_action_parsing [OF g size, of sample_buy "sample_buy_no\<lparr>bn_MarketID := 0x0500000000000007\<rparr>"]
    by (intro exI [of _ "NewTxTypeParser (ActionParser g) (AuthParser g)"])
       (simp add: sample_buy_def Let_def)
qed

lemma apply_options_append:
  "apply_options vm cfg (xs @ ys) o0 =
     (case apply_options vm cfg xs o0 of Inl e \<Rightarrow> Inl e | Inr o1 \<Rightarrow> apply_options vm cfg ys o1)"
  by (induction xs arbitrary: o0) (auto split: sum.splits)

lemma check_namespaces_None:
  "check_namespaces opts ns = None \<longleftrightarrow>
     distinct (map option_Namespace opts) \<and> set (map option_Namespace opts) \<inter> set ns = {}"
  by (induction opts arbitrary: ns) auto

text \<open>
  The endpoint of the program is served only by a node that is given the option for it. A node
  made without options, as the binary makes it, has exactly hypersdk's default options; with the
  option it serves the default endpoints and then \<^verbatim>\<open>/predictionapi\<close>, unless the configuration
  disables it.
\<close>

theorem endpoint_needs_option:
  assumes "distinct (map option_Namespace defaults)" and "Namespace \<notin> set (map option_Namespace defaults)"
    and "apply_options vm cfg defaults no_options = Inr o1" and "cfg Namespace = []"
  shows "(\<exists>f. vm_New defaults g [] = Inr f \<and> factory_options f = defaults) \<and>
    (\<exists>f o2. vm_New defaults g [vm_With json h] = Inr f \<and>
      apply_options vm cfg (factory_options f) no_options = Inr o2 \<and>
      served_paths vm o2 = served_paths vm o1 @ [JSONRPCEndpoint])"
proof -
  have ns: "option_Namespace (vm_With json h) = Namespace" by (simp add: vm_With_def NewOption_def)
  have run: "optionFunc (vm_With json h) vm [] = Inr (WithVMAPIs [jsonRPCServerFactory_New h])"
    by (simp add: vm_With_def NewOption_def NewDefaultConfig_def)
  have "check_namespaces defaults [] = None" "check_namespaces (defaults @ [vm_With json h]) [] = None"
    using assms(1,2) by (auto simp: check_namespaces_None ns)
  with assms(3,4) show ?thesis
    by (simp add: vm_New_def Factory_New_def NewFactory_def Let_def apply_options_append ns run
          WithVMAPIs_def served_paths_def jsonRPCServerFactory_New_def split: prod.splits)
qed

theorem endpoint_needs_option_witness:
  "\<exists>f o2. vm_New [] \<lparr>ActionParser = NewTypeParser, AuthParser = (NewTypeParser :: unit TypeParser),
        OutputParser = NewTypeParser, vm_AuthProvider = []\<rparr>
        [vm_With (\<lambda>_ _. Inl (ErrNew [])) (\<lambda>_ _. ((), None))] = Inr f \<and>
    apply_options \<lparr>vm_Genesis = IsDefaultGenesis (NewDefaultGenesis []), vm_ReadState = read_store NewInMemoryStore\<rparr>
      (\<lambda>_. []) (factory_options f) no_options = Inr o2 \<and>
    served_paths \<lparr>vm_Genesis = IsDefaultGenesis (NewDefaultGenesis []), vm_ReadState = read_store NewInMemoryStore\<rparr>
      o2 = [''/predictionapi'']"
  using endpoint_needs_option [where defaults = "[] :: unit vm_Option list" and cfg = "\<lambda>_. []"
      and ?o1.0 = no_options
      and g = "\<lparr>ActionParser = NewTypeParser, AuthParser = (NewTypeParser :: unit TypeParser),
        OutputParser = NewTypeParser, vm_AuthProvider = []\<rparr>"
      and vm = "\<lparr>vm_Genesis = IsDefaultGenesis (NewDefaultGenesis []), vm_ReadState = read_store NewInMemoryStore\<rparr>"
      and json = "\<lambda>_ _. Inl (ErrNew [])" and h = "\<lambda>_ _. ((), None)"]
  by (auto simp: served_paths_def no_options_def JSONRPCEndpoint_def)

end
