(* ===== verification/RpcClient.thy ===== *)
theory RpcClient
  imports VirtualMachine
begin

text \<open>
  The RPC client of the virtual machine (\<^verbatim>\<open>vm/client.go\<close>) with the polling loop of hypersdk
  that it waits in. The transport is a parameter over a world that every request and every pause may
  change, as are the state of the context and the passing of time. Shown: the answers that are
  cached are asked for once, the wait for a balance returns exactly when some round ends it, and
  against a server of this program it never sees a balance of the ledger.
\<close>

section \<open>client.go\<close>

text \<open>How a request is answered: by the reply object and an error, and a changed world.\<close>

record 'w transport =
  SendGenesis :: "string \<Rightarrow> GenesisReply \<Rightarrow> 'w \<Rightarrow> (go_error option \<times> GenesisReply) \<times> 'w"
  SendBalance :: "string \<Rightarrow> BalanceArgs \<Rightarrow> BalanceReply \<Rightarrow> 'w \<Rightarrow> (go_error option \<times> BalanceReply) \<times> 'w"

record JSONRPCClient =
  requester_uri :: string
  requester_base :: bytes
  client_g :: "DefaultGenesis option"
  client_ruleFactory :: "Rules option"

definition TrimSuffix :: "string \<Rightarrow> string \<Rightarrow> string" where
  "TrimSuffix s suffix =
     (if length suffix \<le> length s \<and> drop (length s - length suffix) s = suffix
      then take (length s - length suffix) s else s)"

definition NewJSONRPCClient :: "string \<Rightarrow> JSONRPCClient" where
  "NewJSONRPCClient uri0 =
     (let uri = TrimSuffix uri0 ''/'' @ JSONRPCEndpoint
      in \<lparr>requester_uri = uri, requester_base = Name, client_g = None, client_ruleFactory = None\<rparr>)"

text \<open>Pointers are options; \<^verbatim>\<open>new(GenesisReply)\<close> has a nil genesis.\<close>

definition client_Genesis ::
  "'w transport \<Rightarrow> JSONRPCClient \<Rightarrow> 'w \<Rightarrow> (DefaultGenesis option) result \<times> JSONRPCClient \<times> 'w" where
  "client_Genesis net cli w =
     (case client_g cli of
        Some g \<Rightarrow> (Inr (Some g), cli, w)
      | None \<Rightarrow>
         (case SendGenesis net (requester_uri cli) \<lparr>reply_Genesis = None\<rparr> w of
            ((Some err, resp), w') \<Rightarrow> (Inl err, cli, w')
          | ((None, resp), w') \<Rightarrow> (Inr (reply_Genesis resp), cli\<lparr>client_g := reply_Genesis resp\<rparr>, w')))"

definition client_Balance ::
  "'w transport \<Rightarrow> JSONRPCClient \<Rightarrow> Address \<Rightarrow> 'w \<Rightarrow> (u64 \<times> go_error option) \<times> 'w" where
  "client_Balance net cli addr w =
     (case SendBalance net (requester_uri cli) \<lparr>args_Address = addr\<rparr> \<lparr>reply_Amount = 0\<rparr> w of
        ((err, resp), w') \<Rightarrow> ((reply_Amount resp, err), w'))"

text \<open>
  \<^verbatim>\<open>jsonrpc.Wait\<close>. \<open>ctxErr\<close> reads \<^verbatim>\<open>ctx.Err()\<close> and \<open>sleep\<close> is the pause between two
  rounds; \<open>None\<close> is a loop that never returns.
\<close>

partial_function (option) Wait ::
  "('w \<Rightarrow> go_error option) \<Rightarrow> ('w \<Rightarrow> 'w) \<Rightarrow> ('w \<Rightarrow> bool result \<times> 'w) \<Rightarrow> 'w \<Rightarrow>
   (go_error option \<times> 'w) option" where
  "Wait ctxErr sleep check w =
     (case ctxErr w of
        Some e \<Rightarrow> Some (Some e, w)
      | None \<Rightarrow>
         (case check w of
            (Inl err, w') \<Rightarrow> Some (Some err, w')
          | (Inr exit, w') \<Rightarrow> if exit then Some (None, w') else Wait ctxErr sleep check (sleep w')))"

definition check_balance ::
  "'w transport \<Rightarrow> JSONRPCClient \<Rightarrow> Address \<Rightarrow> u64 \<Rightarrow> 'w \<Rightarrow> bool result \<times> 'w" where
  "check_balance net cli addr min_bal w =
     (case client_Balance net cli addr w of
        ((balance, Some err), w') \<Rightarrow> (Inl err, w')
      | ((balance, None), w') \<Rightarrow> (Inr (balance \<ge> min_bal), w'))"

definition WaitForBalance ::
  "'w transport \<Rightarrow> ('w \<Rightarrow> go_error option) \<Rightarrow> ('w \<Rightarrow> 'w) \<Rightarrow> JSONRPCClient \<Rightarrow> Address \<Rightarrow> u64 \<Rightarrow> 'w \<Rightarrow>
   (go_error option \<times> 'w) option" where
  "WaitForBalance net ctxErr sleep cli addr min_bal w = Wait ctxErr sleep (check_balance net cli addr min_bal) w"

definition client_GetParser :: "'auth vm_globals \<Rightarrow> 'auth TxTypeParser" where
  "client_GetParser g = NewTxTypeParser (ActionParser g) (AuthParser g)"

text \<open>A reply without a genesis is a nil pointer whose rules the code reads: a panic.\<close>

definition GetRuleFactory ::
  "'w transport \<Rightarrow> JSONRPCClient \<Rightarrow> 'w \<Rightarrow> Rules result \<times> JSONRPCClient \<times> 'w" where
  "GetRuleFactory net cli w =
     (case client_ruleFactory cli of
        Some r \<Rightarrow> (Inr r, cli, w)
      | None \<Rightarrow>
         (case client_Genesis net cli w of
            (Inl err, cli', w') \<Rightarrow> (Inl err, cli', w')
          | (Inr None, cli', w') \<Rightarrow> (Inl (ErrNew ''panic: nil pointer dereference''), cli', w')
          | (Inr (Some g), cli', w') \<Rightarrow>
              (Inr (dg_Rules g), cli'\<lparr>client_ruleFactory := Some (dg_Rules g)\<rparr>, w')))"

section \<open>The polling loop\<close>

definition wait_round :: "('w \<Rightarrow> 'w) \<Rightarrow> ('w \<Rightarrow> bool result \<times> 'w) \<Rightarrow> 'w \<Rightarrow> 'w" where
  "wait_round sleep check w = sleep (snd (check w))"

text \<open>How a round ends the loop, if it does.\<close>

definition wait_ends ::
  "('w \<Rightarrow> go_error option) \<Rightarrow> ('w \<Rightarrow> bool result \<times> 'w) \<Rightarrow> 'w \<Rightarrow> (go_error option \<times> 'w) option" where
  "wait_ends ctxErr check w =
     (case ctxErr w of
        Some e \<Rightarrow> Some (Some e, w)
      | None \<Rightarrow>
         (case check w of
            (Inl err, w') \<Rightarrow> Some (Some err, w')
          | (Inr exit, w') \<Rightarrow> if exit then Some (None, w') else None))"

lemma Wait_unfold:
  "Wait ctxErr sleep check w =
     (case wait_ends ctxErr check w of
        Some r \<Rightarrow> Some r
      | None \<Rightarrow> Wait ctxErr sleep check (wait_round sleep check w))"
  by (subst Wait.simps)
     (auto simp: wait_ends_def wait_round_def split: option.splits prod.splits sum.splits)

lemma Wait_at:
  assumes "\<forall>j < k. wait_ends ctxErr check ((wait_round sleep check ^^ j) w) = None"
    and "wait_ends ctxErr check ((wait_round sleep check ^^ k) w) = Some r"
  shows "Wait ctxErr sleep check w = Some r"
  using assms
proof (induction k arbitrary: w)
  case 0
  then show ?case by (subst Wait_unfold) simp
next
  case (Suc k)
  have "wait_ends ctxErr check w = None" using Suc.prems(1) by (metis funpow_0 zero_less_Suc)
  moreover have "Wait ctxErr sleep check (wait_round sleep check w) = Some r"
  proof (rule Suc.IH)
    show "\<forall>j < k. wait_ends ctxErr check ((wait_round sleep check ^^ j) (wait_round sleep check w)) = None"
      using Suc.prems(1) by (metis Suc_less_eq comp_apply funpow_Suc_right)
    show "wait_ends ctxErr check ((wait_round sleep check ^^ k) (wait_round sleep check w)) = Some r"
      using Suc.prems(2) by (metis comp_apply funpow_Suc_right)
  qed
  ultimately show ?case by (subst Wait_unfold) simp
qed

lemma Wait_returns_ends:
  assumes "Wait ctxErr sleep check w = Some r"
  shows "\<exists>k. wait_ends ctxErr check ((wait_round sleep check ^^ k) w) = Some r"
proof (rule Wait.raw_induct [where P = "\<lambda>ctxErr sleep check w r.
    \<exists>k. wait_ends ctxErr check ((wait_round sleep check ^^ k) w) = Some r", OF _ assms])
  fix f ctxErr and sleep :: "'w \<Rightarrow> 'w" and check w r
  assume IH: "\<And>ctxErr sleep check w r. f ctxErr sleep check w = Some r \<Longrightarrow>
      \<exists>k. wait_ends ctxErr check ((wait_round sleep check ^^ k) w) = Some r"
    and eq: "(case ctxErr w of
        None \<Rightarrow> (case check w of
            (Inl err, w') \<Rightarrow> Some (Some err, w')
          | (Inr exit, w') \<Rightarrow> if exit then Some (None, w') else f ctxErr sleep check (sleep w'))
      | Some e \<Rightarrow> Some (Some e, w)) = Some r"
  show "\<exists>k. wait_ends ctxErr check ((wait_round sleep check ^^ k) w) = Some r"
  proof (cases "wait_ends ctxErr check w")
    case None
    then have "f ctxErr sleep check (wait_round sleep check w) = Some r"
      using eq by (auto simp: wait_ends_def wait_round_def split: option.splits prod.splits sum.splits if_splits)
    from IH [OF this] obtain k where
      "wait_ends ctxErr check ((wait_round sleep check ^^ k) (wait_round sleep check w)) = Some r" ..
    then show ?thesis by (metis comp_apply funpow_Suc_right)
  next
    case (Some r')
    with eq have "r' = r"
      by (auto simp: wait_ends_def split: option.splits prod.splits sum.splits if_splits)
    with Some show ?thesis by (metis funpow_0)
  qed
qed

lemma Wait_total:
  assumes "wait_ends ctxErr check ((wait_round sleep check ^^ k) w) \<noteq> None"
  shows "\<exists>j \<le> k. Wait ctxErr sleep check w = wait_ends ctxErr check ((wait_round sleep check ^^ j) w) \<and>
    Wait ctxErr sleep check w \<noteq> None \<and>
    (\<forall>i < j. wait_ends ctxErr check ((wait_round sleep check ^^ i) w) = None)"
proof -
  let ?e = "\<lambda>i. wait_ends ctxErr check ((wait_round sleep check ^^ i) w)"
  define j where "j = (LEAST i. ?e i \<noteq> None)"
  have j: "j \<le> k" "?e j \<noteq> None"
    unfolding j_def using assms by (rule Least_le, rule LeastI)
  have before: "\<forall>i < j. ?e i = None"
    unfolding j_def using not_less_Least by blast
  from j(2) obtain r where r: "?e j = Some r" by blast
  with Wait_at [OF before] have "Wait ctxErr sleep check w = Some r" by blast
  then show ?thesis using j(1) before r by (intro exI [of _ j]) simp
qed

section \<open>A client and a server of the program\<close>

text \<open>
  Requests that reach the server of the machine \<open>vm w\<close>; only pauses change the world. A request is
  answered at once: that the context is cancelled while it is under way, which gives the error of the
  requester instead of the answer, is not modelled.
\<close>

definition server_transport :: "('w \<Rightarrow> api_VM) \<Rightarrow> 'w transport" where
  "server_transport vm =
     \<lparr>SendGenesis = (\<lambda>_ reply w.
        case server_Genesis (NewJSONRPCServer (vm w)) reply of
          Inl e \<Rightarrow> ((Some e, reply), w)
        | Inr reply' \<Rightarrow> ((None, reply'), w)),
      SendBalance = (\<lambda>_ args reply w. (server_Balance (NewJSONRPCServer (vm w)) args reply, w))\<rparr>"

lemma GetBalanceFromState_missing:
  assumes "Storage s (StateKeysBalance a) = None"
  shows "GetBalanceFromState (read_store s) a = (0, None)"
  using assms
  by (simp add: GetBalanceFromState_def read_store_def innerGetBalance_def InMemoryStore_GetValue_def)

lemma check_balance_missing:
  assumes "vm_ReadState (vm w) = read_store s" and "Storage s (StateKeysBalance a) = None" and "0 < m"
  shows "check_balance (server_transport vm) cli a m w = (Inr False, w)"
  using assms GetBalanceFromState_missing [OF assms(2)]
  by (simp add: check_balance_def client_Balance_def server_transport_def server_Balance_def
        NewJSONRPCServer_def not_le)

section \<open>Properties\<close>

text \<open>
  The wait for a balance returns exactly when some round ends it: the context is done, the query
  fails, or the balance has reached the minimum. Otherwise it polls forever.
\<close>

theorem wait_for_balance_terminates:
  "(\<exists>r. WaitForBalance net ctxErr sleep cli a m w = Some r) \<longleftrightarrow>
   (\<exists>k. wait_ends ctxErr (check_balance net cli a m)
      ((wait_round sleep (check_balance net cli a m) ^^ k) w) \<noteq> None)"
proof
  assume "\<exists>r. WaitForBalance net ctxErr sleep cli a m w = Some r"
  then obtain r where "Wait ctxErr sleep (check_balance net cli a m) w = Some r"
    by (auto simp: WaitForBalance_def)
  from Wait_returns_ends [OF this] show "\<exists>k. wait_ends ctxErr (check_balance net cli a m)
      ((wait_round sleep (check_balance net cli a m) ^^ k) w) \<noteq> None"
    by (metis option.distinct(1))
next
  assume "\<exists>k. wait_ends ctxErr (check_balance net cli a m)
      ((wait_round sleep (check_balance net cli a m) ^^ k) w) \<noteq> None"
  then obtain k where "wait_ends ctxErr (check_balance net cli a m)
      ((wait_round sleep (check_balance net cli a m) ^^ k) w) \<noteq> None" ..
  from Wait_total [OF this] show "\<exists>r. WaitForBalance net ctxErr sleep cli a m w = Some r"
    by (auto simp: WaitForBalance_def)
qed

text \<open>
  The wait is live: when the queries before it answer with less than the minimum and one query
  answers with at least the minimum, all before the context is done, the wait returns without an
  error after that query.
\<close>

theorem wait_for_balance_live:
  assumes "\<forall>j < k. let u = (wait_round sleep (check_balance net cli a m) ^^ j) w in
      ctxErr u = None \<and> (\<exists>b u'. client_Balance net cli a u = ((b, None), u') \<and> b < m)"
    and "ctxErr ((wait_round sleep (check_balance net cli a m) ^^ k) w) = None"
    and "client_Balance net cli a ((wait_round sleep (check_balance net cli a m) ^^ k) w) = ((b, None), w')"
    and "m \<le> b"
  shows "WaitForBalance net ctxErr sleep cli a m w = Some (None, w')"
  unfolding WaitForBalance_def
proof (rule Wait_at [of k])
  show "\<forall>j < k. wait_ends ctxErr (check_balance net cli a m)
      ((wait_round sleep (check_balance net cli a m) ^^ j) w) = None"
  proof (intro allI impI)
    fix j assume "j < k"
    with assms(1) obtain b u' where
      "client_Balance net cli a ((wait_round sleep (check_balance net cli a m) ^^ j) w) = ((b, None), u')"
      "b < m" "ctxErr ((wait_round sleep (check_balance net cli a m) ^^ j) w) = None"
      by (auto simp: Let_def)
    then show "wait_ends ctxErr (check_balance net cli a m)
        ((wait_round sleep (check_balance net cli a m) ^^ j) w) = None"
      by (simp add: wait_ends_def check_balance_def not_le)
  qed
  show "wait_ends ctxErr (check_balance net cli a m)
      ((wait_round sleep (check_balance net cli a m) ^^ k) w) = Some (None, w')"
    using assms(2-4) by (simp add: wait_ends_def check_balance_def)
qed

text \<open>The world of the example is a counter that a pause raises; the balance grows with it.\<close>

definition growing_transport :: "nat transport" where
  "growing_transport =
     \<lparr>SendGenesis = (\<lambda>_ reply w. ((None, reply), w)),
      SendBalance = (\<lambda>_ _ reply w. ((None, reply\<lparr>reply_Amount := word_of_nat w\<rparr>), w))\<rparr>"

theorem wait_for_balance_live_witness:
  "WaitForBalance growing_transport (\<lambda>_. None) Suc (NewJSONRPCClient ''localhost/'') sample_address 2 0 =
     Some (None, 2)"
proof (rule wait_for_balance_live [where k = 2 and b = 2])
  let ?r = "wait_round Suc (check_balance growing_transport (NewJSONRPCClient ''localhost/'') sample_address 2)"
  have r: "?r w = Suc w" for w
    by (simp add: wait_round_def check_balance_def client_Balance_def growing_transport_def)
  have n: "(?r ^^ j) 0 = j" for j by (induction j) (simp_all add: r)
  show "\<forall>j < 2. let u = (?r ^^ j) 0 in None = None \<and>
      (\<exists>b u'. client_Balance growing_transport (NewJSONRPCClient ''localhost/'') sample_address u =
        ((b, None), u') \<and> b < 2)"
    unfolding n by (auto simp: client_Balance_def growing_transport_def less_2_cases_iff)
  show "client_Balance growing_transport (NewJSONRPCClient ''localhost/'') sample_address ((?r ^^ 2) 0) =
      ((2, None), 2)"
    unfolding n by (simp add: client_Balance_def growing_transport_def)
qed simp_all

text \<open>
  C37: against a server of this program a client never sees the funds of an account arrive. As long as
  the state holds nothing under the key the query reads, whatever balance the ledger has under its own
  key, the wait for a positive balance never succeeds, and it ends with the context's error as soon
  as the context is done.
\<close>

theorem wait_never_sees_ledger:
  assumes "0 < m" and "\<And>k. vm_ReadState (vm ((sleep ^^ k) w)) = read_store (st k)"
    and "\<And>k. Storage (st k) (StateKeysBalance a) = None"
  shows "(\<forall>w'. WaitForBalance (server_transport vm) ctxErr sleep cli a m w \<noteq> Some (None, w')) \<and>
    (\<forall>n e. ctxErr ((sleep ^^ n) w) = Some e \<and> (\<forall>j < n. ctxErr ((sleep ^^ j) w) = None) \<longrightarrow>
       WaitForBalance (server_transport vm) ctxErr sleep cli a m w = Some (Some e, (sleep ^^ n) w))"
proof -
  let ?c = "check_balance (server_transport vm) cli a m"
  have c: "?c ((sleep ^^ k) w) = (Inr False, (sleep ^^ k) w)" for k
    by (rule check_balance_missing [where s = "st k"]) (simp_all add: assms)
  have r: "(wait_round sleep ?c ^^ k) w = (sleep ^^ k) w" for k
    by (induction k) (simp_all add: wait_round_def c [simplified])
  have e: "wait_ends ctxErr ?c ((sleep ^^ k) w) = map_option (\<lambda>e. (Some e, (sleep ^^ k) w)) (ctxErr ((sleep ^^ k) w))" for k
    by (simp add: wait_ends_def c split: option.splits)
  have "WaitForBalance (server_transport vm) ctxErr sleep cli a m w \<noteq> Some (None, w')" for w'
    using Wait_returns_ends [of ctxErr sleep ?c w "(None, w')"] by (auto simp: WaitForBalance_def r e)
  moreover have "WaitForBalance (server_transport vm) ctxErr sleep cli a m w = Some (Some e', (sleep ^^ n) w)"
    if "ctxErr ((sleep ^^ n) w) = Some e'" "\<forall>j < n. ctxErr ((sleep ^^ j) w) = None" for n e'
    unfolding WaitForBalance_def using that by (intro Wait_at [of n]) (simp_all add: r e)
  ultimately show ?thesis by blast
qed

theorem wait_never_sees_ledger_witness:
  "WaitForBalance (server_transport (\<lambda>_ :: nat. \<lparr>vm_Genesis = IsDefaultGenesis (NewDefaultGenesis []),
       vm_ReadState = read_store (one_account sample_address 50)\<rparr>))
     (\<lambda>n. if n = 3 then Some (Sentinel ErrCanceled) else None) Suc (NewJSONRPCClient ''localhost'')
     sample_address 10 0 = Some (Some (Sentinel ErrCanceled), 3)"
proof -
  have n: "(Suc ^^ k) 0 = k" for k by (induction k) simp_all
  have "Storage (one_account sample_address 50) (StateKeysBalance sample_address) = None"
    by (simp add: one_account_def BalanceKey_eq StateKeysBalance_eq wf_Address_def AddressLen_def
          sample_address_def)
  with wait_never_sees_ledger [of 10 "\<lambda>_ :: nat. \<lparr>vm_Genesis = IsDefaultGenesis (NewDefaultGenesis []),
       vm_ReadState = read_store (one_account sample_address 50)\<rparr>" Suc 0 "\<lambda>_. one_account sample_address 50"
      sample_address "\<lambda>n. if n = 3 then Some (Sentinel ErrCanceled) else None" "NewJSONRPCClient ''localhost''"]
  show ?thesis by (simp add: n)
qed

end
