(* ===== verification/CliStorage.thy ===== *)
theory CliStorage
  imports RpcClient "HOL-Library.List_Lexorder"
begin

text \<open>
  The state of the command line tool: hypersdk's \<^verbatim>\<open>cli\<close> package keeps keys, chains and their
  defaults in a key-value database. A command runs in a world that holds the database and answers
  prompts and requests; it returns a value, an error, or panics. The locale \<open>cli_shell\<close> says what
  the commands rely on; it is interpreted by a world with an ordered table, scripted prompts and
  a scripted network. The lemmas give each storage operation over the contents of the database.
\<close>

section \<open>Commands\<close>

text \<open>A result in a changed world; \<open>None\<close> is a panic.\<close>

type_synonym ('w, 'a) cmd = "'w \<Rightarrow> 'a result option \<times> 'w"

definition done_with :: "'a \<Rightarrow> ('w, 'a) cmd" where
  "done_with x = (\<lambda>w. (Some (Inr x), w))"

definition fail :: "go_error \<Rightarrow> ('w, 'a) cmd" where
  "fail e = (\<lambda>w. (Some (Inl e), w))"

definition panicked :: "('w, 'a) cmd" where
  "panicked = (\<lambda>w. (None, w))"

definition andthen :: "('w, 'a) cmd \<Rightarrow> ('a \<Rightarrow> ('w, 'b) cmd) \<Rightarrow> ('w, 'b) cmd" where
  "andthen m f = (\<lambda>w. case m w of
       (None, w') \<Rightarrow> (None, w')
     | (Some (Inl e), w') \<Rightarrow> (Some (Inl e), w')
     | (Some (Inr x), w') \<Rightarrow> f x w')"

definition of_result :: "'a result \<Rightarrow> ('w, 'a) cmd" where
  "of_result r = (\<lambda>w. (Some r, w))"

lemma cmd_simps [simp]:
  "done_with x w = (Some (Inr x), w)" "fail e w = (Some (Inl e), w)" "panicked w = (None, w)"
  "of_result r w = (Some r, w)"
  by (simp_all add: done_with_def fail_def panicked_def of_result_def)

lemma andthen_step:
  "m w = (Some (Inr x), w') \<Longrightarrow> andthen m f w = f x w'"
  "m w = (Some (Inl e), w') \<Longrightarrow> andthen m f w = (Some (Inl e), w')"
  "m w = (None, w') \<Longrightarrow> andthen m f w = (None, w')"
  by (simp_all add: andthen_def)

text \<open>\<^verbatim>\<open>fmt.Errorf("%w: ...", err)\<close> around the error of a step.\<close>

definition wrapping :: "string \<Rightarrow> ('w, 'a) cmd \<Rightarrow> ('w, 'a) cmd" where
  "wrapping f m = (\<lambda>w. case m w of
       (Some (Inl err), w') \<Rightarrow> (Some (Inl (Wrapf f [] err)), w')
     | r \<Rightarrow> r)"

text \<open>The outside of a command: the database, the prompts, the network and the hash.\<close>

record 'w cli_env =
  db_Has :: "bytes \<Rightarrow> ('w, bool) cmd"
  db_Get :: "bytes \<Rightarrow> ('w, bytes) cmd"
  db_Put :: "bytes \<Rightarrow> bytes \<Rightarrow> ('w, unit) cmd"
  db_Delete :: "bytes \<Rightarrow> ('w, unit) cmd"
  db_Iterate :: "bytes \<Rightarrow> ('w, (bytes \<times> bytes) list) cmd"
  prompt_Choice :: "string \<Rightarrow> nat \<Rightarrow> ('w, nat) cmd"
  prompt_String :: "string \<Rightarrow> ('w, string) cmd"
  rpc_Network :: "string \<Rightarrow> ('w, bytes) cmd"
  ReadClusterInfoFile :: "string \<Rightarrow> ('w, bytes \<times> (string \<times> string) list) cmd"
  rpc_net :: "'w transport"
  env_sha256 :: "bytes \<Rightarrow> bytes"

section \<open>storage.go\<close>

definition defaultPrefix :: byte where "defaultPrefix = 0x0"
definition keyPrefix :: byte where "keyPrefix = 0x1"
definition chainPrefix :: byte where "chainPrefix = 0x2"
definition defaultKeyKey :: string where "defaultKeyKey = ''key''"
definition defaultChainKey :: string where "defaultChainKey = ''chain''"

definition default_slot :: "string \<Rightarrow> bytes" where
  "default_slot key =
     copy_at 1 (bytes_of_string key) ((replicate (1 + length key) 0)[0 := defaultPrefix])"

definition key_slot :: "Address \<Rightarrow> bytes" where
  "key_slot addr = copy_at 1 addr ((replicate (1 + AddressLen) 0)[0 := keyPrefix])"

definition chain_slot :: "bytes \<Rightarrow> bytes" where
  "chain_slot chainID = copy_at 1 chainID ((replicate (1 + IDLen) 0)[0 := chainPrefix])"

definition rpc_slot :: "'w cli_env \<Rightarrow> bytes \<Rightarrow> string \<Rightarrow> bytes" where
  "rpc_slot E chainID rpc =
     copy_at (1 + IDLen) (env_sha256 E (bytes_of_string rpc))
       (copy_at 1 chainID ((replicate (1 + IDLen * 2) 0)[0 := chainPrefix]))"

text \<open>A missing entry reads as an empty slice.\<close>

definition or_empty :: "('w, bytes) cmd \<Rightarrow> ('w, bytes) cmd" where
  "or_empty m = (\<lambda>w. case m w of
       (Some (Inl e), w') \<Rightarrow> if errors_Is e ErrNotFound then (Some (Inr []), w') else (Some (Inl e), w')
     | r \<Rightarrow> r)"

text \<open>The conversion of a slice to an array panics when the slice is too short.\<close>

definition to_array :: "nat \<Rightarrow> bytes \<Rightarrow> ('w, bytes) cmd" where
  "to_array n v = (if length v < n then panicked else done_with (take n v))"

definition StoreDefault :: "'w cli_env \<Rightarrow> string \<Rightarrow> bytes \<Rightarrow> ('w, unit) cmd" where
  "StoreDefault E key v = db_Put E (default_slot key) v"

definition cli_GetDefault :: "'w cli_env \<Rightarrow> string \<Rightarrow> ('w, bytes) cmd" where
  "cli_GetDefault E key = or_empty (db_Get E (default_slot key))"

definition StoreDefaultChain :: "'w cli_env \<Rightarrow> bytes \<Rightarrow> ('w, unit) cmd" where
  "StoreDefaultChain E chainID = StoreDefault E defaultChainKey chainID"

text \<open>A stored endpoint is text; its bytes are read back as characters.\<close>

definition string_of_bytes :: "bytes \<Rightarrow> string" where
  "string_of_bytes bs = map (\<lambda>b. char_of (unat b)) bs"

definition GetChain :: "'w cli_env \<Rightarrow> bytes \<Rightarrow> ('w, string list) cmd" where
  "GetChain E chainID =
     andthen (db_Iterate E (chain_slot chainID)) (\<lambda>kvs. done_with (map (string_of_bytes \<circ> snd) kvs))"

definition GetDefaultChain :: "'w cli_env \<Rightarrow> ('w, bytes \<times> string list) cmd" where
  "GetDefaultChain E =
     andthen (cli_GetDefault E defaultChainKey) (\<lambda>v.
       if length v = 0 then fail (Sentinel ErrNoChains)
       else andthen (to_array IDLen v) (\<lambda>chainID.
            andthen (GetChain E chainID) (\<lambda>uris. done_with (chainID, uris))))"

definition StoreKey :: "'w cli_env \<Rightarrow> PrivateKey \<Rightarrow> ('w, unit) cmd" where
  "StoreKey E priv =
     andthen (db_Has E (key_slot (pk_Address priv))) (\<lambda>has.
       if has then fail (Sentinel ErrDuplicate)
       else db_Put E (key_slot (pk_Address priv)) (pk_Bytes priv))"

definition GetKey :: "'w cli_env \<Rightarrow> Address \<Rightarrow> ('w, bytes) cmd" where
  "GetKey E addr = or_empty (db_Get E (key_slot addr))"

fun keys_of :: "(bytes \<times> bytes) list \<Rightarrow> ('w, PrivateKey list) cmd" where
  "keys_of [] = done_with []"
| "keys_of ((k, v) # kvs) =
     andthen (to_array AddressLen (drop 1 k)) (\<lambda>addr.
     andthen (keys_of kvs) (\<lambda>ps. done_with (\<lparr>pk_Address = addr, pk_Bytes = v\<rparr> # ps)))"

definition GetKeys :: "'w cli_env \<Rightarrow> ('w, PrivateKey list) cmd" where
  "GetKeys E = andthen (db_Iterate E [keyPrefix]) keys_of"

definition StoreDefaultKey :: "'w cli_env \<Rightarrow> Address \<Rightarrow> ('w, unit) cmd" where
  "StoreDefaultKey E addr = StoreDefault E defaultKeyKey addr"

definition GetDefaultKey :: "'w cli_env \<Rightarrow> ('w, Address \<times> bytes) cmd" where
  "GetDefaultKey E =
     andthen (cli_GetDefault E defaultKeyKey) (\<lambda>raddr.
       if length raddr = 0 then fail (Sentinel ErrNoKeys)
       else andthen (to_array AddressLen raddr) (\<lambda>addr.
            andthen (GetKey E addr) (\<lambda>priv. done_with (addr, priv))))"

definition StoreChain :: "'w cli_env \<Rightarrow> bytes \<Rightarrow> string \<Rightarrow> ('w, unit) cmd" where
  "StoreChain E chainID rpc =
     andthen (db_Has E (rpc_slot E chainID rpc)) (\<lambda>has.
       if has then fail (Sentinel ErrDuplicate)
       else db_Put E (rpc_slot E chainID rpc) (bytes_of_string rpc))"

text \<open>
  \<^verbatim>\<open>GetChains\<close> groups the endpoints by chain in the order the database gives them; Go ranges
  over the resulting map in no fixed order, the model in the order of the first entries.
\<close>

definition add_rpc :: "(bytes \<times> string list) list \<Rightarrow> bytes \<Rightarrow> string \<Rightarrow> (bytes \<times> string list) list" where
  "add_rpc chainMap chainID rpc =
     AList.update chainID ((case map_of chainMap chainID of None \<Rightarrow> [] | Some rpcs \<Rightarrow> rpcs) @ [rpc]) chainMap"

fun chains_of ::
  "(bytes \<times> bytes) list \<Rightarrow> (bytes \<times> string list) list \<Rightarrow> ('w, (bytes \<times> string list) list) cmd" where
  "chains_of [] chainMap = done_with chainMap"
| "chains_of ((k, v) # kvs) chainMap =
     (if length k < 1 + IDLen then panicked
      else chains_of kvs (add_rpc chainMap (take IDLen (drop 1 k)) (string_of_bytes v)))"

definition GetChains :: "'w cli_env \<Rightarrow> ('w, (bytes \<times> string list) list) cmd" where
  "GetChains E = andthen (db_Iterate E [chainPrefix]) (\<lambda>kvs. chains_of kvs [])"

fun delete_rpcs :: "'w cli_env \<Rightarrow> bytes \<Rightarrow> string list \<Rightarrow> ('w, unit) cmd" where
  "delete_rpcs E chainID [] = done_with ()"
| "delete_rpcs E chainID (rpc # rpcs) =
     andthen (db_Delete E (rpc_slot E chainID rpc)) (\<lambda>_. delete_rpcs E chainID rpcs)"

fun delete_chains :: "'w cli_env \<Rightarrow> (bytes \<times> string list) list \<Rightarrow> ('w, bytes list) cmd" where
  "delete_chains E [] = done_with []"
| "delete_chains E ((chainID, rpcs) # chainMap) =
     andthen (delete_rpcs E chainID rpcs) (\<lambda>_.
     andthen (delete_chains E chainMap) (\<lambda>ids. done_with (chainID # ids)))"

definition DeleteChains :: "'w cli_env \<Rightarrow> ('w, bytes list) cmd" where
  "DeleteChains E = andthen (GetChains E) (delete_chains E)"

section \<open>key.go, chain.go and cluster\_info.go\<close>

definition SelectChain ::
  "'w cli_env \<Rightarrow> string \<Rightarrow> (bytes \<times> string list) list \<Rightarrow> ('w, bytes \<times> string list) cmd" where
  "SelectChain E label chainMap =
     andthen (prompt_Choice E label (length chainMap)) (\<lambda>i.
       if i < length chainMap then done_with (chainMap ! i) else panicked)"

definition ImportChain :: "'w cli_env \<Rightarrow> ('w, unit) cmd" where
  "ImportChain E =
     andthen (prompt_String E ''uri'') (\<lambda>uri.
     andthen (rpc_Network E uri) (\<lambda>chainID.
     andthen (StoreChain E chainID uri) (\<lambda>_. StoreDefaultChain E chainID)))"

definition SetDefaultChain :: "'w cli_env \<Rightarrow> ('w, unit) cmd" where
  "SetDefaultChain E =
     andthen (GetChains E) (\<lambda>chainMap.
     andthen (SelectChain E ''set default chain'' chainMap) (\<lambda>(chainID, _). StoreDefaultChain E chainID))"

fun store_nodes :: "'w cli_env \<Rightarrow> bytes \<Rightarrow> (string \<times> string) list \<Rightarrow> ('w, unit) cmd" where
  "store_nodes E chainID [] = done_with ()"
| "store_nodes E chainID ((name, uri) # nodes) =
     andthen (StoreChain E chainID name) (\<lambda>_. store_nodes E chainID nodes)"

definition ImportClusterInfo :: "'w cli_env \<Rightarrow> string \<Rightarrow> ('w, unit) cmd" where
  "ImportClusterInfo E cliPath =
     andthen (DeleteChains E) (\<lambda>oldChains.
     andthen (ReadClusterInfoFile E cliPath) (\<lambda>(chainID, nodes).
     andthen (store_nodes E chainID nodes) (\<lambda>_. StoreDefaultChain E chainID)))"

text \<open>\<^verbatim>\<open>LookupBalance\<close> is the controller's: a new client for the address.\<close>

definition LookupBalance :: "'w cli_env \<Rightarrow> Address \<Rightarrow> string \<Rightarrow> ('w, u64) cmd" where
  "LookupBalance E addr uri = (\<lambda>w.
     case client_Balance (rpc_net E) (NewJSONRPCClient uri) addr w of
       ((balance, Some err), w') \<Rightarrow> (Some (Inl err), w')
     | ((balance, None), w') \<Rightarrow> (Some (Inr balance), w'))"

fun lookup_all :: "'w cli_env \<Rightarrow> string \<Rightarrow> PrivateKey list \<Rightarrow> ('w, unit) cmd" where
  "lookup_all E uri [] = done_with ()"
| "lookup_all E uri (k # ks) =
     andthen (LookupBalance E (pk_Address k) uri) (\<lambda>_. lookup_all E uri ks)"

definition SetKey :: "'w cli_env \<Rightarrow> ('w, unit) cmd" where
  "SetKey E =
     andthen (GetKeys E) (\<lambda>ks.
       if length ks = 0 then done_with ()
       else andthen (GetDefaultChain E) (\<lambda>(_, uris).
         if length uris = 0 then done_with ()
         else andthen (lookup_all E (uris ! 0) ks) (\<lambda>_.
              andthen (prompt_Choice E ''set default key'' (length ks)) (\<lambda>keyIndex.
                if keyIndex < length ks then StoreDefaultKey E (pk_Address (ks ! keyIndex))
                else panicked))))"

text \<open>The slice \<^verbatim>\<open>uris[:maxURIs]\<close> panics beyond the end; every round asks the first endpoint.\<close>

definition cli_Balance :: "'w cli_env \<Rightarrow> bool \<Rightarrow> ('w, unit) cmd" where
  "cli_Balance E checkAllChains =
     andthen (GetDefaultKey E) (\<lambda>(addr, _).
     andthen (GetDefaultChain E) (\<lambda>(_, uris).
       let maxURIs = (if checkAllChains then length uris else 1) in
       if maxURIs > length uris then panicked
       else lookup_all E (uris ! 0) (replicate maxURIs \<lparr>pk_Address = addr, pk_Bytes = []\<rparr>)))"

section \<open>Well-formed contents\<close>

text \<open>What a private key of each type takes.\<close>

definition key_fits :: "Address \<Rightarrow> bytes \<Rightarrow> bool" where
  "key_fits a b \<longleftrightarrow>
     (a ! 0 = ED25519ID \<and> length b = 64) \<or> (a ! 0 = SECP256R1ID \<and> length b = 32) \<or>
     (a ! 0 = BLSID \<and> length b = 32)"

type_synonym contents = "bytes \<Rightarrow> bytes option"

text \<open>
  The default key has its private key, the default chain has an endpoint, and every key and endpoint
  is stored in a slot of the right size.
\<close>

definition wf_cli :: "contents \<Rightarrow> bool" where
  "wf_cli m \<longleftrightarrow>
     (\<forall>a v. m (keyPrefix # a) = Some v \<longrightarrow> wf_Address a \<and> key_fits a v) \<and>
     (\<forall>k v. m (chainPrefix # k) = Some v \<longrightarrow> length k = 2 * IDLen) \<and>
     (\<forall>a. m (default_slot defaultKeyKey) = Some a \<longrightarrow> wf_Address a \<and> m (key_slot a) \<noteq> None) \<and>
     (\<forall>c. m (default_slot defaultChainKey) = Some c \<longrightarrow>
        length c = IDLen \<and> (\<exists>k. m (chain_slot c @ k) \<noteq> None))"

lemma default_slot_eq:
  "default_slot defaultKeyKey = [0, 107, 101, 121]"
  "default_slot defaultChainKey = [0, 99, 104, 97, 105, 110]"
  by (simp_all add: default_slot_def defaultKeyKey_def defaultChainKey_def bytes_of_string_def
        copy_at_def defaultPrefix_def numeral_eq_Suc)

lemma key_slot_eq: "wf_Address a \<Longrightarrow> key_slot a = keyPrefix # a"
  by (simp add: key_slot_def wf_Address_def AddressLen_def copy_at_def numeral_eq_Suc)

lemma chain_slot_eq: "length c = IDLen \<Longrightarrow> chain_slot c = chainPrefix # c"
  by (simp add: chain_slot_def IDLen_def copy_at_def numeral_eq_Suc)

lemma rpc_slot_eq:
  "length c = IDLen \<Longrightarrow> length (env_sha256 E (bytes_of_string u)) = IDLen \<Longrightarrow>
   rpc_slot E c u = chain_slot c @ env_sha256 E (bytes_of_string u)"
  by (simp add: rpc_slot_def chain_slot_eq IDLen_def copy_at_def numeral_eq_Suc)

lemmas slot_simps = default_slot_eq key_slot_eq chain_slot_eq
lemmas prefix_defs = defaultPrefix_def keyPrefix_def chainPrefix_def

lemma wf_cli_empty: "wf_cli Map.empty"
  by (simp add: wf_cli_def)

lemma wf_cli_key:
  assumes "wf_cli m" and "wf_Address a" and "key_fits a v"
  shows "wf_cli (m(key_slot a \<mapsto> v))"
  using assms by (auto simp: wf_cli_def slot_simps prefix_defs; blast)

lemma wf_cli_rpc:
  assumes "wf_cli m" and "length c = IDLen" and "length h = IDLen"
  shows "wf_cli (m(chain_slot c @ h \<mapsto> v))"
  using assms by (fastforce simp: wf_cli_def slot_simps prefix_defs)

lemma wf_cli_default_key:
  assumes "wf_cli m" and "wf_Address a" and "m (key_slot a) \<noteq> None"
  shows "wf_cli (m(default_slot defaultKeyKey \<mapsto> a))"
  using assms by (auto simp: wf_cli_def slot_simps prefix_defs; blast)

lemma wf_cli_default_chain:
  assumes "wf_cli m" and "length c = IDLen" and "m (chain_slot c @ k) = Some v"
  shows "wf_cli (m(default_slot defaultChainKey \<mapsto> c))"
  using assms by (auto simp: wf_cli_def slot_simps prefix_defs; blast)

lemma wf_cli_default_keyD:
  assumes "wf_cli c" and "c (default_slot defaultKeyKey) = Some a"
  shows "wf_Address a \<and> (\<exists>b. c (key_slot a) = Some b \<and> key_fits a b)"
  using assms by (auto simp: wf_cli_def key_slot_eq)

text \<open>
  Contents that are well formed once the default chain is forgotten: what the import of a cluster works
  on between deleting the stored chains and choosing the new default.
\<close>

definition detached :: "contents \<Rightarrow> bool" where
  "detached m \<longleftrightarrow> wf_cli (m(default_slot defaultChainKey := None))"

lemma detached_wf_cli: "wf_cli m \<Longrightarrow> detached m"
  unfolding detached_def wf_cli_def by (auto simp: slot_simps prefix_defs)

lemma detached_delete:
  assumes "detached m" and "length c = IDLen" and "length h = IDLen"
  shows "detached (m(chain_slot c @ h := None))"
  using assms unfolding detached_def wf_cli_def by (auto simp: slot_simps prefix_defs)

lemma detached_rpc:
  assumes "detached m" and "length c = IDLen" and "length h = IDLen"
  shows "detached (m(chain_slot c @ h \<mapsto> v))"
proof -
  have "default_slot defaultChainKey \<noteq> chain_slot c @ h" using assms(2) by (simp add: slot_simps prefix_defs)
  with wf_cli_rpc [OF assms(1) [unfolded detached_def] assms(2,3), of v] show ?thesis
    unfolding detached_def by (simp add: fun_upd_twist)
qed

lemma detached_default_chain:
  assumes "detached m" and "length c = IDLen" and "m (chain_slot c @ k) = Some v"
  shows "wf_cli (m(default_slot defaultChainKey \<mapsto> c))"
proof -
  have "default_slot defaultChainKey \<noteq> chain_slot c @ k" using assms(2) by (simp add: slot_simps prefix_defs)
  with wf_cli_default_chain [OF assms(1) [unfolded detached_def] assms(2), of k v] assms(3) show ?thesis by simp
qed

section \<open>What commands keep\<close>

text \<open>
  \<open>runs contents P m Q\<close>: from well-formed contents that satisfy \<open>P\<close> the command \<open>m\<close> does not
  panic, leaves well-formed contents whatever its outcome, and satisfies \<open>Q\<close> when it succeeds.
\<close>

definition runs ::
  "('w \<Rightarrow> contents) \<Rightarrow> (contents \<Rightarrow> bool) \<Rightarrow> ('w, 'a) cmd \<Rightarrow> ('a \<Rightarrow> contents \<Rightarrow> bool) \<Rightarrow> bool" where
  "runs contents P m Q \<longleftrightarrow>
     (\<forall>w r w'. wf_cli (contents w) \<and> P (contents w) \<and> m w = (r, w') \<longrightarrow>
        wf_cli (contents w') \<and> (\<exists>y. r = Some y \<and> (\<forall>x. y = Inr x \<longrightarrow> Q x (contents w'))))"

lemma runs_done: "(\<And>m. wf_cli m \<Longrightarrow> P m \<Longrightarrow> Q x m) \<Longrightarrow> runs contents P (done_with x) Q"
  by (auto simp: runs_def)

lemma runs_fail: "runs contents P (fail e) Q"
  by (auto simp: runs_def)

lemma runs_of_result: "(\<And>m x. P m \<Longrightarrow> r = Inr x \<Longrightarrow> Q x m) \<Longrightarrow> runs contents P (of_result r) Q"
  by (auto simp: runs_def)

lemma runs_andthen:
  assumes "runs contents P m Q" and "\<And>x. runs contents (Q x) (f x) R"
  shows "runs contents P (andthen m f) R"
  unfolding runs_def
proof (intro allI impI, elim conjE)
  fix w r w' assume wf: "wf_cli (contents w)" "P (contents w)" and run: "andthen m f w = (r, w')"
  obtain y w1 where m: "m w = (Some y, w1)" and w1: "wf_cli (contents w1)"
    and Q: "\<And>x. y = Inr x \<Longrightarrow> Q x (contents w1)"
    using assms(1) wf unfolding runs_def by (metis surj_pair)
  show "wf_cli (contents w') \<and> (\<exists>y. r = Some y \<and> (\<forall>x. y = Inr x \<longrightarrow> R x (contents w')))"
  proof (cases y)
    case (Inl e)
    with m run w1 show ?thesis by (auto simp: andthen_def)
  next
    case (Inr x)
    with m run have "f x w1 = (r, w')" by (simp add: andthen_def)
    with assms(2) [of x] w1 Q [OF Inr] show ?thesis by (auto simp: runs_def)
  qed
qed

lemma runs_weaken:
  assumes "runs contents P m Q" and "\<And>c. wf_cli c \<Longrightarrow> P' c \<Longrightarrow> P c" and "\<And>x c. wf_cli c \<Longrightarrow> Q x c \<Longrightarrow> Q' x c"
  shows "runs contents P' m Q'"
  using assms unfolding runs_def by meson

lemma runs_pre: "(\<And>c. wf_cli c \<Longrightarrow> P c \<Longrightarrow> A) \<Longrightarrow> (A \<Longrightarrow> runs contents P m Q) \<Longrightarrow> runs contents P m Q"
  by (auto simp: runs_def)

lemma runs_case_prod:
  "runs contents P (f (fst p) (snd p)) Q \<Longrightarrow> runs contents P (case p of (x, y) \<Rightarrow> f x y) Q"
  by (simp add: case_prod_beta)

text \<open>A command that only asks: it keeps the contents and says nothing about them.\<close>

definition asks :: "('w \<Rightarrow> contents) \<Rightarrow> ('w, 'a) cmd \<Rightarrow> ('a \<Rightarrow> bool) \<Rightarrow> bool" where
  "asks contents m ans \<longleftrightarrow>
     (\<forall>w r w'. m w = (r, w') \<longrightarrow> contents w' = contents w \<and> (\<exists>y. r = Some y \<and> (\<forall>x. y = Inr x \<longrightarrow> ans x)))"

lemma runs_asks: "asks contents m ans \<Longrightarrow> runs contents P m (\<lambda>x c. P c \<and> ans x)"
  by (fastforce simp: runs_def asks_def)

lemma take_one_eq: "take (Suc 0) k = [p] \<longleftrightarrow> (\<exists>a. k = p # a)"
  by (cases k) auto

locale cli_shell =
  fixes E :: "'w cli_env" and contents :: "'w \<Rightarrow> bytes \<Rightarrow> bytes option"
    and put :: "bytes \<Rightarrow> bytes \<Rightarrow> 'w \<Rightarrow> 'w" and del :: "bytes \<Rightarrow> 'w \<Rightarrow> 'w"
    and entries :: "bytes \<Rightarrow> 'w \<Rightarrow> (bytes \<times> bytes) list"
  assumes has: "db_Has E k w = (Some (Inr (contents w k \<noteq> None)), w)"
    and get: "db_Get E k w =
      (Some (case contents w k of None \<Rightarrow> Inl (Sentinel ErrNotFound) | Some v \<Rightarrow> Inr v), w)"
    and put: "db_Put E k v w = (Some (Inr ()), put k v w)"
    and contents_put: "contents (put k v w) = (contents w)(k \<mapsto> v)"
    and delete: "db_Delete E k w = (Some (Inr ()), del k w)"
    and contents_del: "contents (del k w) = (contents w)(k := None)"
    and iterate: "db_Iterate E p w = (Some (Inr (entries p w)), w)"
    and set_entries: "set (entries p w) = {(k, v). contents w k = Some v \<and> take (length p) k = p}"
    and choice: "asks contents (prompt_Choice E label n) (\<lambda>i. i < n)"
    and text_prompt: "asks contents (prompt_String E label) (\<lambda>_. True)"
    and network: "asks contents (rpc_Network E uri) (\<lambda>c. length c = IDLen)"
    and cluster: "asks contents (ReadClusterInfoFile E path) (\<lambda>(c, _). length c = IDLen)"
    and balance_request: "contents (snd (SendBalance (rpc_net E) uri args reply w)) = contents w"
    and hash_length: "length (env_sha256 E bs) = IDLen"
begin

lemma runs_Has: "runs contents P (db_Has E k) (\<lambda>b c. P c \<and> b = (c k \<noteq> None))"
  by (auto simp: runs_def has)

lemma runs_Get: "runs contents P (or_empty (db_Get E k)) (\<lambda>v c. P c \<and> v = (case c k of None \<Rightarrow> [] | Some x \<Rightarrow> x))"
  by (auto simp: runs_def get or_empty_def split: option.splits)

lemma runs_Put:
  assumes "\<And>c. wf_cli c \<Longrightarrow> P c \<Longrightarrow> wf_cli (c(k \<mapsto> v)) \<and> Q () (c(k \<mapsto> v))"
  shows "runs contents P (db_Put E k v) Q"
  using assms by (auto simp: runs_def put contents_put)

lemma runs_Iterate:
  "runs contents P (db_Iterate E p) (\<lambda>kvs c. P c \<and> set kvs = {(k, v). c k = Some v \<and> take (length p) k = p})"
  by (auto simp: runs_def iterate set_entries)

lemma StoreKey_eq:
  "StoreKey E priv w =
     (if contents w (key_slot (pk_Address priv)) \<noteq> None then (Some (Inl (Sentinel ErrDuplicate)), w)
      else (Some (Inr ()), put (key_slot (pk_Address priv)) (pk_Bytes priv) w))"
  by (simp add: StoreKey_def andthen_def has put)

lemma StoreDefaultKey_eq: "StoreDefaultKey E a w = (Some (Inr ()), put (default_slot defaultKeyKey) a w)"
  by (simp add: StoreDefaultKey_def StoreDefault_def put)

lemma StoreDefaultChain_eq:
  "StoreDefaultChain E c w = (Some (Inr ()), put (default_slot defaultChainKey) c w)"
  by (simp add: StoreDefaultChain_def StoreDefault_def put)

lemma StoreChain_eq:
  "StoreChain E c u w =
     (if contents w (rpc_slot E c u) \<noteq> None then (Some (Inl (Sentinel ErrDuplicate)), w)
      else (Some (Inr ()), put (rpc_slot E c u) (bytes_of_string u) w))"
  by (simp add: StoreChain_def andthen_def has put)

lemma GetDefaultKey_eq:
  assumes "wf_cli (contents w)"
  shows "GetDefaultKey E w =
    (Some (case contents w (default_slot defaultKeyKey) of
       None \<Rightarrow> Inl (Sentinel ErrNoKeys)
     | Some a \<Rightarrow> Inr (a, the (contents w (key_slot a)))), w)"
proof (cases "contents w (default_slot defaultKeyKey)")
  case (Some a)
  with assms have "length a = AddressLen" "contents w (key_slot a) \<noteq> None"
    by (auto simp: wf_cli_def wf_Address_def)
  with Some show ?thesis
    by (auto simp: GetDefaultKey_def cli_GetDefault_def GetKey_def or_empty_def andthen_def get to_array_def
        AddressLen_def)
qed (simp add: GetDefaultKey_def cli_GetDefault_def or_empty_def andthen_def get)

lemma GetDefaultChain_eq:
  assumes "wf_cli (contents w)"
  shows "GetDefaultChain E w =
    (Some (case contents w (default_slot defaultChainKey) of
       None \<Rightarrow> Inl (Sentinel ErrNoChains)
     | Some c \<Rightarrow> Inr (c, map (string_of_bytes \<circ> snd) (entries (chain_slot c) w))), w)"
proof (cases "contents w (default_slot defaultChainKey)")
  case (Some c)
  with assms have "length c = IDLen" by (auto simp: wf_cli_def)
  with Some show ?thesis
    by (auto simp: GetDefaultChain_def cli_GetDefault_def GetChain_def or_empty_def andthen_def get iterate
        to_array_def IDLen_def)
qed (simp add: GetDefaultChain_def cli_GetDefault_def or_empty_def andthen_def get)

lemma default_chain_entries:
  assumes "wf_cli (contents w)" and "contents w (default_slot defaultChainKey) = Some c"
  shows "entries (chain_slot c) w \<noteq> []"
proof -
  obtain k v where "contents w (chain_slot c @ k) = Some v" using assms by (auto simp: wf_cli_def)
  then have "(chain_slot c @ k, v) \<in> set (entries (chain_slot c) w)" by (simp add: set_entries)
  then show ?thesis by auto
qed

lemma keys_of_eq:
  "\<forall>(k, v) \<in> set kvs. length k = 1 + AddressLen \<Longrightarrow>
   keys_of kvs w = (Some (Inr (map (\<lambda>(k, v). \<lparr>pk_Address = drop 1 k, pk_Bytes = v\<rparr>) kvs)), w)"
  by (induction kvs rule: keys_of.induct) (auto simp: andthen_def to_array_def)

lemma GetKeys_eq:
  assumes "wf_cli (contents w)"
  shows "GetKeys E w =
    (Some (Inr (map (\<lambda>(k, v). \<lparr>pk_Address = drop 1 k, pk_Bytes = v\<rparr>) (entries [keyPrefix] w))), w)"
proof -
  have "\<forall>(k, v) \<in> set (entries [keyPrefix] w). length k = 1 + AddressLen"
    using assms by (auto simp: set_entries take_one_eq wf_cli_def wf_Address_def)
  then show ?thesis by (simp add: GetKeys_def andthen_def iterate keys_of_eq)
qed

lemma runs_GetKeys:
  "runs contents P (GetKeys E) (\<lambda>ks c. P c \<and> (\<forall>p \<in> set ks. wf_Address (pk_Address p) \<and> c (key_slot (pk_Address p)) \<noteq> None))"
  unfolding runs_def
proof (intro allI impI, elim conjE)
  fix w r w' assume wf: "wf_cli (contents w)" "P (contents w)" and run: "GetKeys E w = (r, w')"
  have "\<forall>(k, v) \<in> set (entries [keyPrefix] w). wf_Address (drop 1 k) \<and> contents w (key_slot (drop 1 k)) \<noteq> None"
    using wf(1) by (auto simp: set_entries take_one_eq wf_cli_def key_slot_eq)
  with run wf show "wf_cli (contents w') \<and> (\<exists>y. r = Some y \<and> (\<forall>x. y = Inr x \<longrightarrow>
      P (contents w') \<and> (\<forall>p \<in> set x. wf_Address (pk_Address p) \<and> contents w' (key_slot (pk_Address p)) \<noteq> None)))"
    by (fastforce simp: GetKeys_eq [OF wf(1)])
qed

lemma runs_GetDefaultKey:
  "runs contents P (GetDefaultKey E) (\<lambda>(a, b) c. P c \<and> wf_Address a \<and> key_fits a b)"
  using wf_cli_default_keyD by (fastforce simp: runs_def GetDefaultKey_eq split: option.splits)

lemma runs_GetDefaultChain:
  "runs contents P (GetDefaultChain E) (\<lambda>(_, uris) c. P c \<and> uris \<noteq> [])"
  using default_chain_entries by (auto simp: runs_def GetDefaultChain_eq split: option.splits)

lemma runs_StoreDefaultKey:
  "runs contents (\<lambda>c. wf_Address a \<and> c (key_slot a) \<noteq> None) (StoreDefaultKey E a) (\<lambda>_ _. True)"
  by (auto simp: runs_def StoreDefaultKey_eq contents_put intro: wf_cli_default_key)

lemma asks_LookupBalance: "asks contents (LookupBalance E a u) (\<lambda>_. True)"
proof -
  have "contents w' = contents w" if "client_Balance (rpc_net E) cli a w = (r, w')" for cli w r w'
    using that balance_request [of "requester_uri cli" "\<lparr>args_Address = a\<rparr>" "\<lparr>reply_Amount = 0\<rparr>" w]
    by (auto simp: client_Balance_def split: prod.splits)
  then show ?thesis by (fastforce simp: asks_def LookupBalance_def split: prod.splits option.splits)
qed

lemma runs_lookup_all: "runs contents P (lookup_all E u ks) (\<lambda>_. P)"
proof (induction ks)
  case Nil
  show ?case unfolding lookup_all.simps by (rule runs_done)
next
  case (Cons k ks)
  have "runs contents P (LookupBalance E (pk_Address k) u) (\<lambda>_. P)"
    using runs_asks [OF asks_LookupBalance] by (rule runs_weaken) auto
  from runs_andthen [OF this Cons.IH] show ?case by simp
qed

text \<open>Choosing a default key and asking for balances never panics and keeps the contents well formed.\<close>

lemma runs_SetKey: "runs contents (\<lambda>_. True) (SetKey E) (\<lambda>_ _. True)"
  unfolding SetKey_def
proof (rule runs_andthen [OF runs_GetKeys])
  fix ks :: "PrivateKey list"
  let ?P = "\<lambda>c. True \<and> (\<forall>p \<in> set ks. wf_Address (pk_Address p) \<and> c (key_slot (pk_Address p)) \<noteq> None)"
  have choose: "runs contents (\<lambda>c. ?P c \<and> i < length ks)
      (if i < length ks then StoreDefaultKey E (pk_Address (ks ! i)) else panicked) (\<lambda>_ _. True)" for i
  proof (cases "i < length ks")
    case True
    have "runs contents (\<lambda>c. ?P c \<and> i < length ks) (StoreDefaultKey E (pk_Address (ks ! i))) (\<lambda>_ _. True)"
      by (rule runs_weaken [OF runs_StoreDefaultKey]) auto
    with True show ?thesis by simp
  qed (simp add: runs_def)
  have after: "runs contents (\<lambda>c. (case p of (_, uris) \<Rightarrow> \<lambda>c. ?P c \<and> uris \<noteq> []) c)
      (case p of (_, uris) \<Rightarrow> if length uris = 0 then done_with ()
         else andthen (lookup_all E (uris ! 0) ks) (\<lambda>_. andthen (prompt_Choice E ''set default key'' (length ks))
           (\<lambda>i. if i < length ks then StoreDefaultKey E (pk_Address (ks ! i)) else panicked)))
      (\<lambda>_ _. True)" for p :: "bytes \<times> string list"
    using runs_andthen [OF runs_lookup_all runs_andthen [OF runs_asks [OF choice] choose]]
    by (cases p) (auto simp: runs_done intro: runs_weaken)
  show "runs contents ?P (if length ks = 0 then done_with () else andthen (GetDefaultChain E)
      (\<lambda>(_, uris). if length uris = 0 then done_with ()
         else andthen (lookup_all E (uris ! 0) ks) (\<lambda>_. andthen (prompt_Choice E ''set default key'' (length ks))
           (\<lambda>i. if i < length ks then StoreDefaultKey E (pk_Address (ks ! i)) else panicked))))
      (\<lambda>_ _. True)"
    using runs_andthen [OF runs_GetDefaultChain after] by (auto intro: runs_done)
qed

lemma runs_cli_Balance: "runs contents (\<lambda>_. True) (cli_Balance E checkAll) (\<lambda>_ _. True)"
  unfolding cli_Balance_def
proof (rule runs_andthen [OF runs_GetDefaultKey])
  fix k :: "Address \<times> bytes"
  obtain a b where k: "k = (a, b)" by force
  have "runs contents (case p of (_, uris) \<Rightarrow> \<lambda>c. True \<and> uris \<noteq> [])
      (case p of (_, uris) \<Rightarrow>
         let maxURIs = if checkAll then length uris else 1
         in if length uris < maxURIs then panicked
            else lookup_all E (uris ! 0) (replicate maxURIs \<lparr>pk_Address = a, pk_Bytes = []\<rparr>))
      (\<lambda>_ _. True)" for p :: "bytes \<times> string list"
  proof (cases p)
    case (Pair x uris)
    define n where "n = (if checkAll then length uris else 1)"
    have "runs contents (\<lambda>_. True) (lookup_all E (uris ! 0) ks) (\<lambda>_ _. True)" for ks
      by (rule runs_lookup_all)
    moreover have "\<not> length uris < n" if "uris \<noteq> []"
      using that by (cases uris) (auto simp: n_def)
    ultimately show ?thesis
      unfolding Pair prod.case Let_def n_def [symmetric] by (cases "uris = []") (simp_all add: runs_def)
  qed
  from runs_andthen [OF runs_GetDefaultChain this]
  show "runs contents ((\<lambda>(a, b) c. True \<and> wf_Address a \<and> key_fits a b) k)
      (case k of (addr, _) \<Rightarrow> andthen (GetDefaultChain E) (\<lambda>(_, uris).
         let maxURIs = if checkAll then length uris else 1
         in if length uris < maxURIs then panicked
            else lookup_all E (uris ! 0) (replicate maxURIs \<lparr>pk_Address = addr, pk_Bytes = []\<rparr>)))
      (\<lambda>_ _. True)"
    unfolding k by (auto intro: runs_weaken)
qed

lemma runs_ImportChain: "runs contents (\<lambda>_. True) (ImportChain E) (\<lambda>_ _. True)"
  unfolding ImportChain_def
proof (intro runs_andthen [OF runs_asks [OF text_prompt]] runs_andthen [OF runs_asks [OF network]])
  fix uri c
  show "runs contents (\<lambda>c'. (True \<and> True) \<and> length c = IDLen)
      (andthen (StoreChain E c uri) (\<lambda>_. StoreDefaultChain E c)) (\<lambda>_ _. True)"
  proof (rule runs_andthen [where Q = "\<lambda>_ m. length c = IDLen \<and> m (rpc_slot E c uri) \<noteq> None"])
    show "runs contents (\<lambda>c'. (True \<and> True) \<and> length c = IDLen) (StoreChain E c uri)
        (\<lambda>_ m. length c = IDLen \<and> m (rpc_slot E c uri) \<noteq> None)"
      by (auto simp: runs_def StoreChain_eq contents_put rpc_slot_eq hash_length intro: wf_cli_rpc split: if_splits)
    show "runs contents (\<lambda>m. length c = IDLen \<and> m (rpc_slot E c uri) \<noteq> None) (StoreDefaultChain E c) (\<lambda>_ _. True)"
      by (auto simp: runs_def StoreDefaultChain_eq contents_put rpc_slot_eq hash_length
          intro: wf_cli_default_chain)
  qed
qed

text \<open>A listed chain has an identifier of the right size and an endpoint.\<close>

lemma runs_chains_of:
  assumes "\<forall>(k, v) \<in> set kvs. m k = Some v \<and> (\<exists>a. k = chainPrefix # a)" and "wf_cli m"
    and "\<forall>c \<in> fst ` set acc. length c = IDLen \<and> (\<exists>k. m (chain_slot c @ k) \<noteq> None)"
  shows "\<exists>cs. chains_of kvs acc w = (Some (Inr cs), w) \<and>
    (\<forall>c \<in> fst ` set cs. length c = IDLen \<and> (\<exists>k. m (chain_slot c @ k) \<noteq> None))"
  using assms
proof (induction kvs acc arbitrary: w rule: chains_of.induct)
  case (2 k v kvs acc)
  from 2(2) obtain a where k: "k = chainPrefix # a" "m k = Some v" by auto
  have a: "length a = 2 * IDLen" using 2(3) k unfolding wf_cli_def by blast
  then have len: "length (take IDLen a) = IDLen" by simp
  then have "m (chain_slot (take IDLen a) @ drop IDLen a) \<noteq> None" using k by (simp add: chain_slot_eq)
  with len have new: "\<forall>c \<in> fst ` set (add_rpc acc (take IDLen a) (string_of_bytes v)).
      length c = IDLen \<and> (\<exists>k. m (chain_slot c @ k) \<noteq> None)"
    using 2(4) by (auto simp: add_rpc_def dom_update)
  from 2(1) [OF _ _ 2(3)] new a k 2(2) show ?case by simp
qed simp

lemma runs_SetDefaultChain: "runs contents (\<lambda>_. True) (SetDefaultChain E) (\<lambda>_ _. True)"
  unfolding SetDefaultChain_def SelectChain_def
proof (rule runs_andthen [where Q = "\<lambda>cs m. \<forall>c \<in> fst ` set cs. length c = IDLen \<and> (\<exists>k. m (chain_slot c @ k) \<noteq> None)"])
  show "runs contents (\<lambda>_. True) (GetChains E)
      (\<lambda>cs m. \<forall>c \<in> fst ` set cs. length c = IDLen \<and> (\<exists>k. m (chain_slot c @ k) \<noteq> None))"
    unfolding runs_def
  proof (intro allI impI, elim conjE)
    fix w r w' assume wf: "wf_cli (contents w)" and run: "GetChains E w = (r, w')"
    have "\<forall>(k, v) \<in> set (entries [chainPrefix] w). contents w k = Some v \<and> (\<exists>a. k = chainPrefix # a)"
      by (auto simp: set_entries take_one_eq)
    from runs_chains_of [OF this wf, of "[]" w] obtain cs where
      "chains_of (entries [chainPrefix] w) [] w = (Some (Inr cs), w)"
      "\<forall>c \<in> fst ` set cs. length c = IDLen \<and> (\<exists>k. contents w (chain_slot c @ k) \<noteq> None)" by auto
    with run wf show "wf_cli (contents w') \<and> (\<exists>y. r = Some y \<and> (\<forall>cs. y = Inr cs \<longrightarrow>
        (\<forall>c \<in> fst ` set cs. length c = IDLen \<and> (\<exists>k. contents w' (chain_slot c @ k) \<noteq> None))))"
      by (auto simp: GetChains_def andthen_def iterate)
  qed
  fix cs :: "(bytes \<times> string list) list"
  let ?P = "\<lambda>m. \<forall>c \<in> fst ` set cs. length c = IDLen \<and> (\<exists>k. m (chain_slot c @ k) \<noteq> None)"
  have "runs contents ?P (andthen (prompt_Choice E ''set default chain'' (length cs))
      (\<lambda>i. if i < length cs then done_with (cs ! i) else panicked))
      (\<lambda>(c, _) m. length c = IDLen \<and> (\<exists>k. m (chain_slot c @ k) \<noteq> None))"
    by (rule runs_andthen [OF runs_asks [OF choice]]) (fastforce simp: runs_def dest: nth_mem)
  moreover have "runs contents (case p of (c, _) \<Rightarrow> \<lambda>m. length c = IDLen \<and> (\<exists>k. m (chain_slot c @ k) \<noteq> None))
      (case p of (c, _) \<Rightarrow> StoreDefaultChain E c) (\<lambda>_ _. True)" for p :: "bytes \<times> string list"
    by (cases p) (auto simp: runs_def StoreDefaultChain_eq contents_put intro: wf_cli_default_chain)
  ultimately show "runs contents ?P (andthen (andthen (prompt_Choice E ''set default chain'' (length cs))
      (\<lambda>i. if i < length cs then done_with (cs ! i) else panicked)) (\<lambda>(c, _). StoreDefaultChain E c)) (\<lambda>_ _. True)"
    by (rule runs_andthen)
qed

text \<open>
  The import of a cluster: the stored chains are deleted, which leaves the default chain detached; when
  the file has nodes and all of them are stored, the new default chain has an endpoint again.
\<close>

lemma delete_rpcs_detached:
  assumes "length c = IDLen"
  shows "detached (contents w) \<Longrightarrow> \<exists>w'. delete_rpcs E c us w = (Some (Inr ()), w') \<and> detached (contents w')"
proof (induction us arbitrary: w)
  case (Cons u us)
  have "detached (contents (del (rpc_slot E c u) w))"
    using detached_delete [OF Cons.prems assms] by (simp add: contents_del rpc_slot_eq assms hash_length)
  from Cons.IH [OF this] show ?case by (simp add: andthen_def delete)
qed simp

lemma delete_chains_detached:
  "(\<forall>x \<in> fst ` set cs. length x = IDLen) \<Longrightarrow> detached (contents w) \<Longrightarrow>
   \<exists>ids w'. delete_chains E cs w = (Some (Inr ids), w') \<and> detached (contents w')"
proof (induction cs arbitrary: w)
  case (Cons p cs)
  obtain c us where p: "p = (c, us)" by force
  obtain w1 where "delete_rpcs E c us w = (Some (Inr ()), w1)" "detached (contents w1)"
    using delete_rpcs_detached [of c w us] Cons.prems by (auto simp: p)
  with Cons.IH [of w1] Cons.prems(1) show ?case by (auto simp: p andthen_def)
qed simp

lemma store_nodes_detached:
  assumes "length c = IDLen"
  shows "detached (contents w) \<Longrightarrow> store_nodes E c nodes w = (Some (Inr ()), w') \<Longrightarrow>
    detached (contents w') \<and> dom (contents w) \<subseteq> dom (contents w') \<and>
    (\<forall>n \<in> fst ` set nodes. rpc_slot E c n \<in> dom (contents w'))"
proof (induction nodes arbitrary: w)
  case (Cons p nodes)
  obtain n u where p: "p = (n, u)" by force
  let ?w = "put (rpc_slot E c n) (bytes_of_string n) w"
  have run: "store_nodes E c nodes ?w = (Some (Inr ()), w')"
    using Cons.prems(2) by (simp add: p andthen_def StoreChain_eq split: if_splits)
  have "detached (contents ?w)"
    using detached_rpc [OF Cons.prems(1) assms] by (simp add: contents_put rpc_slot_eq assms hash_length)
  moreover have "dom (contents ?w) = insert (rpc_slot E c n) (dom (contents w))" by (simp add: contents_put)
  ultimately show ?case using Cons.IH [OF _ run] by (simp add: p)
qed simp

lemma ImportClusterInfo_wf:
  assumes wf: "wf_cli (contents w)" and run: "ImportClusterInfo E path w = (Some (Inr ()), w')"
    and nodes: "\<And>c w1 w2. ReadClusterInfoFile E path w1 \<noteq> (Some (Inr (c, [])), w2)"
  shows "wf_cli (contents w')"
proof -
  have "\<forall>(k, v) \<in> set (entries [chainPrefix] w). contents w k = Some v \<and> (\<exists>a. k = chainPrefix # a)"
    by (auto simp: set_entries take_one_eq)
  from runs_chains_of [OF this wf, of "[]" w] obtain cs where
    cs: "GetChains E w = (Some (Inr cs), w)" "\<forall>x \<in> fst ` set cs. length x = IDLen"
    by (auto simp: GetChains_def andthen_def iterate)
  obtain ids w1 where w1: "DeleteChains E w = (Some (Inr ids), w1)" "detached (contents w1)"
    using delete_chains_detached [OF cs(2) detached_wf_cli [OF wf]] cs(1) by (auto simp: DeleteChains_def andthen_def)
  obtain c ns w2 where w2: "ReadClusterInfoFile E path w1 = (Some (Inr (c, ns)), w2)"
      "andthen (store_nodes E c ns) (\<lambda>_. StoreDefaultChain E c) w2 = (Some (Inr ()), w')"
    using run w1(1) by (auto simp: ImportClusterInfo_def andthen_def split: prod.splits option.splits sum.splits)
  have c: "length c = IDLen" "contents w2 = contents w1" "ns \<noteq> []"
    using cluster [of path] w2(1) nodes unfolding asks_def by fastforce+
  obtain w3 where w3: "store_nodes E c ns w2 = (Some (Inr ()), w3)" "w' = put (default_slot defaultChainKey) c w3"
    using w2(2) by (auto simp: andthen_def StoreDefaultChain_eq split: prod.splits option.splits sum.splits)
  from store_nodes_detached [OF c(1) _ w3(1)] c(2) w1(2)
  have d: "detached (contents w3)" "\<forall>n \<in> fst ` set ns. rpc_slot E c n \<in> dom (contents w3)" by simp_all
  obtain n where "n \<in> fst ` set ns" using c(3) by (cases ns) auto
  then obtain v where "contents w3 (chain_slot c @ env_sha256 E (bytes_of_string n)) = Some v"
    using d(2) by (auto simp: rpc_slot_eq [OF c(1) hash_length])
  from detached_default_chain [OF d(1) c(1) this] show ?thesis by (simp add: w3(2) contents_put)
qed

end

section \<open>A terminal\<close>

text \<open>
  The world of a session: the table of the database, the numbers and texts the user will type. Keys
  are listed in their byte order, as the database iterates. The hash, the network, the files and the
  answers to balance requests are arbitrary functions; an identifier is an array of 32 bytes.
\<close>

record shell =
  table :: "(bytes \<times> bytes) list"
  picks :: "nat list"
  typed :: "string list"

definition shell_contents :: "shell \<Rightarrow> contents" where
  "shell_contents w = map_of (table w)"

definition shell_put :: "bytes \<Rightarrow> bytes \<Rightarrow> shell \<Rightarrow> shell" where
  "shell_put k v w = w\<lparr>table := AList.update k v (table w)\<rparr>"

definition shell_del :: "bytes \<Rightarrow> shell \<Rightarrow> shell" where
  "shell_del k w = w\<lparr>table := AList.delete k (table w)\<rparr>"

definition shell_entries :: "bytes \<Rightarrow> shell \<Rightarrow> (bytes \<times> bytes) list" where
  "shell_entries p w =
     map (\<lambda>k. (k, the (map_of (table w) k)))
       (sort (remdups (filter (\<lambda>k. take (length p) k = p) (map fst (table w)))))"

text \<open>A choice among one is made without asking; an answer out of range is asked for again.\<close>

fun next_pick :: "nat \<Rightarrow> nat list \<Rightarrow> (nat \<times> nat list) option" where
  "next_pick n [] = None"
| "next_pick n (i # is) = (if i < n then Some (i, is) else next_pick n is)"

definition shell_choice :: "string \<Rightarrow> nat \<Rightarrow> (shell, nat) cmd" where
  "shell_choice label n w =
     (if n = 1 then (Some (Inr 0), w)
      else case next_pick n (picks w) of
             None \<Rightarrow> (Some (Inl (ErrNew ''^C'')), w\<lparr>picks := []\<rparr>)
           | Some (i, is) \<Rightarrow> (Some (Inr i), w\<lparr>picks := is\<rparr>))"

definition shell_text :: "string \<Rightarrow> (shell, string) cmd" where
  "shell_text label w =
     (case typed w of
        [] \<Rightarrow> (Some (Inl (ErrNew ''^C'')), w)
      | t # ts \<Rightarrow> (Some (Inr t), w\<lparr>typed := ts\<rparr>))"

definition array32 :: "bytes \<Rightarrow> bytes" where
  "array32 bs = take IDLen (bs @ replicate IDLen 0)"

record outside =
  out_sha256 :: "bytes \<Rightarrow> bytes"
  out_Network :: "string \<Rightarrow> bytes result"
  out_Cluster :: "string \<Rightarrow> (bytes \<times> (string \<times> string) list) result"
  out_Balance :: "string \<Rightarrow> Address \<Rightarrow> u64 result"

definition shell_env :: "outside \<Rightarrow> shell cli_env" where
  "shell_env out =
     \<lparr>db_Has = (\<lambda>k w. (Some (Inr (shell_contents w k \<noteq> None)), w)),
      db_Get = (\<lambda>k w. (Some (case shell_contents w k of
        None \<Rightarrow> Inl (Sentinel ErrNotFound) | Some v \<Rightarrow> Inr v), w)),
      db_Put = (\<lambda>k v w. (Some (Inr ()), shell_put k v w)),
      db_Delete = (\<lambda>k w. (Some (Inr ()), shell_del k w)),
      db_Iterate = (\<lambda>p w. (Some (Inr (shell_entries p w)), w)),
      prompt_Choice = shell_choice, prompt_String = shell_text,
      rpc_Network = (\<lambda>uri. of_result (map_sum id array32 (out_Network out uri))),
      ReadClusterInfoFile = (\<lambda>path. of_result (map_sum id (map_prod array32 id) (out_Cluster out path))),
      rpc_net = \<lparr>SendGenesis = (\<lambda>_ reply w. ((Some (ErrNew ''no answer''), reply), w)),
        SendBalance = (\<lambda>uri args reply w.
          (case out_Balance out uri (args_Address args) of
             Inl e \<Rightarrow> (Some e, reply)
           | Inr b \<Rightarrow> (None, reply\<lparr>reply_Amount := b\<rparr>), w))\<rparr>,
      env_sha256 = array32 \<circ> out_sha256 out\<rparr>"

lemma length_array32 [simp]: "length (array32 bs) = IDLen"
  by (simp add: array32_def)

lemma next_pick_less: "next_pick n is = Some (i, js) \<Longrightarrow> i < n"
  by (induction n "is" rule: next_pick.induct) (auto split: if_splits)

lemma set_shell_entries:
  "set (shell_entries p w) = {(k, v). shell_contents w k = Some v \<and> take (length p) k = p}"
proof -
  let ?ks = "sort (remdups (filter (\<lambda>k. take (length p) k = p) (map fst (table w))))"
  have "set ?ks = {k. (\<exists>v. map_of (table w) k = Some v) \<and> take (length p) k = p}"
    by (auto dest: weak_map_of_SomeI) (metis map_of_SomeD fst_conv imageI)
  then show ?thesis
    unfolding shell_entries_def shell_contents_def set_map by (auto simp: image_iff)
qed

interpretation sh: cli_shell "shell_env out" shell_contents shell_put shell_del shell_entries
proof unfold_locales
  fix label n
  show "asks shell_contents (prompt_Choice (shell_env out) label n) (\<lambda>i. i < n)"
    by (auto simp: asks_def shell_env_def shell_choice_def shell_contents_def dest: next_pick_less
        split: if_splits option.splits)
  show "asks shell_contents (prompt_String (shell_env out) label) (\<lambda>_. True)"
    by (auto simp: asks_def shell_env_def shell_text_def shell_contents_def split: list.splits)
qed (auto simp: shell_env_def asks_def shell_put_def shell_del_def update_conv' delete_conv' shell_contents_def
    set_shell_entries [unfolded shell_contents_def] map_sum_def map_prod_def split: sum.splits)

end
