(* ===== verification/TxBuilder.thy ===== *)
theory TxBuilder
  imports Transactions
begin

text \<open>
  How a client builds a transaction: the wire format canoto generates for a transaction
  (\<^verbatim>\<open>chain/base.canoto.go\<close>, \<^verbatim>\<open>chain/transaction_codec.canoto.go\<close> and the varints of
  \<^verbatim>\<open>canoto.go\<close>), the estimate of its units, and \<^verbatim>\<open>GenerateTransaction\<close> of
  \<^verbatim>\<open>chain/transaction.go\<close>. The lemmas relate the cached sizes to the bytes that are written, and
  the estimated units to the units the transaction is charged for. A signature scheme and the hash
  are parameters.
\<close>

section \<open>canoto varints\<close>

text \<open>\<^verbatim>\<open>bits.Len64\<close> and \<^verbatim>\<open>binary.AppendUvarint\<close> of Go's library, on the value of the word.\<close>

fun Len64 :: "nat \<Rightarrow> nat" where
  "Len64 v = (if v = 0 then 0 else Suc (Len64 (v div 2)))"

declare Len64.simps [simp del]

fun uvarint :: "nat \<Rightarrow> bytes" where
  "uvarint v = (if v < 128 then [word_of_nat v] else word_of_nat (v mod 128 + 128) # uvarint (v div 128))"

declare uvarint.simps [simp del]

definition SizeUint :: "u64 \<Rightarrow> nat" where
  "SizeUint v = (if v = 0 then 1 else (Len64 (unat v) + 6) div 7)"

definition AppendUint :: "bytes \<Rightarrow> u64 \<Rightarrow> bytes" where
  "AppendUint w v = w @ uvarint (unat v)"

definition zigzag :: "i64 \<Rightarrow> u64" where
  "zigzag v = (if i64_le 0 v then push_bit 1 v else push_bit 1 (NOT v) OR 1)"

definition SizeInt :: "i64 \<Rightarrow> nat" where
  "SizeInt v = (if v = 0 then 1 else (Len64 (unat (zigzag v)) + 6) div 7)"

definition AppendInt :: "bytes \<Rightarrow> i64 \<Rightarrow> bytes" where
  "AppendInt w v = w @ uvarint (unat (zigzag v))"

definition SizeBytes :: "bytes \<Rightarrow> nat" where
  "SizeBytes v = SizeUint (word_of_nat (length v)) + length v"

definition AppendBytes :: "bytes \<Rightarrow> bytes \<Rightarrow> bytes" where
  "AppendBytes w v = AppendUint w (word_of_nat (length v)) @ v"

definition AppendFint64 :: "bytes \<Rightarrow> u64 \<Rightarrow> bytes" where
  "AppendFint64 w v = w @ rev (PutUint64 v)"

section \<open>base.canoto.go and transaction_codec.canoto.go\<close>

text \<open>
  The struct's size cache is the function that computes it: every marshalling recomputes it first.
\<close>

definition Base_CanotoSize :: "Base \<Rightarrow> nat" where
  "Base_CanotoSize c =
     (if base_Timestamp c \<noteq> 0 then 1 + SizeInt (base_Timestamp c) else 0) +
     (if base_ChainID c \<noteq> replicate IDLen 0 then 1 + SizeBytes (base_ChainID c) else 0) +
     (if base_MaxFee c \<noteq> 0 then 1 + 8 else 0)"

definition Base_MarshalCanotoInto :: "Base \<Rightarrow> bytes \<Rightarrow> bytes" where
  "Base_MarshalCanotoInto c w0 =
     (let w1 = (if base_Timestamp c \<noteq> 0 then AppendInt (w0 @ [0x08]) (base_Timestamp c) else w0);
          w2 = (if base_ChainID c \<noteq> replicate IDLen 0
                then AppendBytes (w1 @ [0x12]) (base_ChainID c) else w1)
      in if base_MaxFee c \<noteq> 0 then AppendFint64 (w2 @ [0x19]) (base_MaxFee c) else w2)"

record SerializeTx =
  st_Base :: Base
  st_Actions :: "bytes list"
  st_Auth :: bytes

definition SerializeTx_MarshalCanoto :: "SerializeTx \<Rightarrow> bytes" where
  "SerializeTx_MarshalCanoto c =
     (let fieldSize = Base_CanotoSize (st_Base c);
          w1 = (if fieldSize \<noteq> 0
                then Base_MarshalCanotoInto (st_Base c) (AppendUint [0x0a] (word_of_nat fieldSize))
                else []);
          w2 = fold (\<lambda>v w. AppendBytes (w @ [0x12]) v) (st_Actions c) w1
      in if length (st_Auth c) \<noteq> 0 then AppendBytes (w2 @ [0x1a]) (st_Auth c) else w2)"

section \<open>transaction.go\<close>

text \<open>
  A signature scheme gives an \<^verbatim>\<open>Auth\<close> with its bytes. The transaction keeps what execution asks
  of it; its bytes and identifier are the fields the constructor fills.
\<close>

record SignedAuth = Auth +
  auth_Bytes :: bytes

record AuthFactory =
  factory_Sign :: "bytes \<Rightarrow> SignedAuth result"
  factory_MaxUnits :: "u64 \<times> u64"
  factory_Address :: Address

record TransactionData =
  td_Base :: Base
  td_Actions :: "Action list"
  unsignedBytes :: bytes

record SignedTransaction = Transaction +
  tx_unsignedBytes :: bytes
  tx_bytes :: bytes
  tx_id :: bytes

text \<open>
  \<^verbatim>\<open>action.Bytes()\<close>; \<open>None\<close> is the panic of an action that cannot be written. Everything that
  calls it panics too.
\<close>

fun Action_Bytes :: "Action \<Rightarrow> bytes option" where
  "Action_Bytes (ActCreateMarket cm) = (case CreateMarket_Bytes cm of Inl _ \<Rightarrow> None | Inr bs \<Rightarrow> Some bs)"
| "Action_Bytes (ActBuyYes b) = Some (BuyYes_Bytes b)"
| "Action_Bytes (ActBuyNo b) = Some (BuyNo_Bytes b)"

definition NewTxData :: "Base \<Rightarrow> Action list \<Rightarrow> TransactionData option" where
  "NewTxData b as =
     (case those (map Action_Bytes as) of
        None \<Rightarrow> None
      | Some actionBytes \<Rightarrow>
          Some \<lparr>td_Base = b, td_Actions = as,
            unsignedBytes = SerializeTx_MarshalCanoto
              \<lparr>st_Base = b, st_Actions = actionBytes, st_Auth = []\<rparr>\<rparr>)"

definition NewTransaction ::
  "(bytes \<Rightarrow> bytes) \<Rightarrow> Base \<Rightarrow> Action list \<Rightarrow> SignedAuth \<Rightarrow> SignedTransaction option" where
  "NewTransaction sha256 b as au =
     (case NewTxData b as of
        None \<Rightarrow> None
      | Some txData \<Rightarrow>
       (case those (map Action_Bytes as) of
          None \<Rightarrow> None
        | Some actionBytes \<Rightarrow>
           (let signedTxBytes = SerializeTx_MarshalCanoto
                  \<lparr>st_Base = b, st_Actions = actionBytes, st_Auth = auth_Bytes au\<rparr>
            in Some \<lparr>tx_Base = td_Base txData, tx_Actions = td_Actions txData,
                 tx_Auth = Auth.truncate au, tx_Size = word_of_nat (length signedTxBytes),
                 tx_unsignedBytes = unsignedBytes txData, tx_bytes = signedTxBytes,
                 tx_id = sha256 signedTxBytes\<rparr>)))"

definition Sign ::
  "(bytes \<Rightarrow> bytes) \<Rightarrow> TransactionData \<Rightarrow> AuthFactory \<Rightarrow> SignedTransaction result option" where
  "Sign sha256 t factory =
     (case factory_Sign factory (unsignedBytes t) of
        Inl err \<Rightarrow> Some (Inl err)
      | Inr au \<Rightarrow> map_option Inr (NewTransaction sha256 (td_Base t) (td_Actions t) au))"

definition MaxBaseSize :: u64 where
  "MaxBaseSize = 10 + 8 + 32 + 10 + 3 * 10"

fun estimate_actions ::
  "Address \<Rightarrow> Action list \<Rightarrow> u64 \<Rightarrow> u16 list \<Rightarrow> Uint64Operator \<Rightarrow>
   (u64 \<times> u16 list \<times> Uint64Operator) result option" where
  "estimate_actions actor [] bandwidth chunks computeOp = Some (Inr (bandwidth, chunks, computeOp))"
| "estimate_actions actor (a # as) bandwidth chunks computeOp =
     (case Action_Bytes a of
        None \<Rightarrow> None
      | Some actionBytes \<Rightarrow>
         (case Keys_ChunkSizes (Action_StateKeys a actor) of
            None \<Rightarrow> Some (Inl (Sentinel ErrInvalidKeyValue))
          | Some actionChunks \<Rightarrow>
              estimate_actions actor as (bandwidth + word_of_nat (length actionBytes))
                (chunks @ actionChunks) (uop_Add (Action_ComputeUnits a) computeOp)))"

text \<open>The storage loop runs over the chunk sizes; each key costs as in \<^verbatim>\<open>Units\<close>.\<close>

definition chunk_units :: "u64 \<Rightarrow> u64 \<Rightarrow> u16 list \<Rightarrow> u64 result" where
  "chunk_units keyUnits valueUnits chunks =
     uop_Value (fold (key_units keyUnits valueUnits) chunks (NewUint64Operator 0))"

definition EstimateUnits :: "Rules \<Rightarrow> Action list \<Rightarrow> AuthFactory \<Rightarrow> Dimensions result option" where
  "EstimateUnits r as factory =
     (case estimate_actions (factory_Address factory) as (MaxBaseSize + 1) []
             (NewUint64Operator (GetBaseComputeUnits r)) of
        None \<Rightarrow> None
      | Some (Inl err) \<Rightarrow> Some (Inl err)
      | Some (Inr (bandwidth0, chunks0, computeOp)) \<Rightarrow>
         (let (authBandwidth, authCompute) = factory_MaxUnits factory;
              bandwidth = bandwidth0 + authBandwidth;
              chunks = chunks0 @ GetSponsorStateKeysMaxChunks r
          in Some (case uop_Value (uop_Add authCompute computeOp) of
               Inl err \<Rightarrow> Inl err
             | Inr computeUnits \<Rightarrow>
              (case chunk_units (GetStorageKeyReadUnits r) (GetStorageValueReadUnits r) chunks of
                 Inl err \<Rightarrow> Inl err
               | Inr readUnits \<Rightarrow>
                (case chunk_units (GetStorageKeyAllocateUnits r) (GetStorageValueAllocateUnits r) chunks of
                   Inl err \<Rightarrow> Inl err
                 | Inr allocateUnits \<Rightarrow>
                  (case chunk_units (GetStorageKeyWriteUnits r) (GetStorageValueWriteUnits r) chunks of
                     Inl err \<Rightarrow> Inl err
                   | Inr writeUnits \<Rightarrow>
                       Inr [bandwidth, computeUnits, readUnits, allocateUnits, writeUnits]))))))"

text \<open>\<open>clock\<close> is the time in milliseconds that \<^verbatim>\<open>time.Now\<close> gives when the argument is negative.\<close>

definition UnixRMilli :: "i64 \<Rightarrow> i64 \<Rightarrow> i64 \<Rightarrow> i64" where
  "UnixRMilli clock now add =
     (let t = (if i64_less now 0 then clock else now) + add
      in t - word_of_int (sint t smod 1000))"

definition GenerateTransactionManual ::
  "(bytes \<Rightarrow> bytes) \<Rightarrow> i64 \<Rightarrow> Rules \<Rightarrow> i64 \<Rightarrow> Action list \<Rightarrow> AuthFactory \<Rightarrow> u64 \<Rightarrow>
   SignedTransaction result option" where
  "GenerateTransactionManual sha256 clock r timestamp as factory maxFee =
     (case NewTxData
             \<lparr>base_Timestamp = UnixRMilli clock timestamp (GetValidityWindow r),
              base_ChainID = GetChainID r, base_MaxFee = maxFee\<rparr> as of
        None \<Rightarrow> None
      | Some unsignedTx \<Rightarrow>
         (case Sign sha256 unsignedTx factory of
            None \<Rightarrow> None
          | Some (Inl err) \<Rightarrow> Some (Inl (Wrapf ''%w: failed to sign transaction'' [] err))
          | Some (Inr tx) \<Rightarrow> Some (Inr tx)))"

definition GenerateTransaction ::
  "(bytes \<Rightarrow> bytes) \<Rightarrow> i64 \<Rightarrow> (i64 \<Rightarrow> Rules) \<Rightarrow> Dimensions \<Rightarrow> i64 \<Rightarrow> Action list \<Rightarrow> AuthFactory \<Rightarrow>
   SignedTransaction result option" where
  "GenerateTransaction sha256 clock getRules unitPrices timestamp as factory =
     (let r = getRules timestamp in
      case EstimateUnits r as factory of
        None \<Rightarrow> None
      | Some (Inl err) \<Rightarrow> Some (Inl err)
      | Some (Inr units) \<Rightarrow>
         (case MulSum unitPrices units of
            Inl err \<Rightarrow> Some (Inl err)
          | Inr maxFee \<Rightarrow> GenerateTransactionManual sha256 clock r timestamp as factory maxFee))"

section \<open>Sizes on the wire\<close>

lemma Len64_0 [simp]: "Len64 0 = 0"
  by (simp add: Len64.simps)

lemma Len64_double: "0 < v \<Longrightarrow> Len64 v = Suc (Len64 (v div 2))"
  by (simp add: Len64.simps)

lemma Len64_div_128:
  assumes "128 \<le> v"
  shows "Len64 v = 7 + Len64 (v div 128)"
proof -
  have "Len64 v = 7 + Len64 (v div 2 div 2 div 2 div 2 div 2 div 2 div 2)"
    using assms by (simp add: Len64_double div_greater_zero_iff div_mult2_eq [symmetric])
  then show ?thesis by (simp add: div_mult2_eq [symmetric])
qed

lemma Len64_le: "v < 2 ^ n \<Longrightarrow> Len64 v \<le> n"
proof (induction n arbitrary: v)
  case (Suc n)
  then show ?case by (cases "v = 0") (auto simp: Len64_double less_mult_imp_div_less)
qed simp

lemma Len64_small: "0 < v \<Longrightarrow> v < 128 \<Longrightarrow> 0 < Len64 v \<and> Len64 v \<le> 7"
  using Len64_le [of v 7] by (simp add: Len64_double)

lemma length_uvarint: "length (uvarint v) = (if v = 0 then 1 else (Len64 v + 6) div 7)"
proof (induction v rule: uvarint.induct)
  case (1 v)
  show ?case
  proof (cases "v < 128")
    case True
    then show ?thesis
      using Len64_small [of v] by (cases "v = 0") (auto simp: uvarint.simps intro!: div_nat_eqI [symmetric])
  next
    case False
    then have "v div 128 \<noteq> 0" by simp
    with 1 False show ?thesis
      by (simp add: uvarint.simps [of v] Len64_div_128)
  qed
qed

lemma length_AppendUint [simp]: "length (AppendUint w v) = length w + SizeUint v"
  by (simp add: AppendUint_def SizeUint_def length_uvarint unat_eq_zero)

lemma zigzag_0 [simp]: "zigzag v = 0 \<longleftrightarrow> v = 0"
proof (cases "i64_le 0 v")
  case True
  have "v = 0" if "push_bit 1 v = 0"
  proof (rule ccontr)
    assume "v \<noteq> 0"
    then obtain n where n: "n < 64" "bit v n" by (auto simp: bit_eq_iff)
    moreover have "\<not> bit v 63" using True bit_last_iff [of v] by (simp add: i64_le_def)
    ultimately have "Suc n < 64" by (cases "n = 63") auto
    then have "bit (push_bit 1 v) (Suc n)" using n by (simp only: bit_push_bit_iff) simp
    with that show False by simp
  qed
  then show ?thesis using True by (auto simp: zigzag_def simp del: push_bit_Suc)
next
  case False
  have "bit (push_bit 1 (NOT v) OR 1) 0" by (simp add: bit_simps)
  then have "push_bit 1 (NOT v) OR 1 \<noteq> 0" by (metis bit_0_eq bot_apply bot_bool_def)
  then show ?thesis using False by (auto simp: zigzag_def i64_le_def)
qed

lemma length_AppendInt [simp]: "length (AppendInt w v) = length w + SizeInt v"
  by (simp add: AppendInt_def SizeInt_def length_uvarint unat_eq_zero)

lemma length_AppendBytes [simp]: "length (AppendBytes w v) = length w + SizeBytes v"
  by (simp add: AppendBytes_def SizeBytes_def)

lemma length_AppendFint64 [simp]: "length (AppendFint64 w v) = length w + 8"
  by (simp add: AppendFint64_def)

text \<open>The cached size of a base is the number of bytes its fields take.\<close>

lemma length_Base_MarshalCanotoInto [simp]:
  "length (Base_MarshalCanotoInto c w) = length w + Base_CanotoSize c"
  by (simp add: Base_MarshalCanotoInto_def Base_CanotoSize_def Let_def)

lemma length_fold_AppendBytes:
  "length (fold (\<lambda>v w. AppendBytes (w @ [t]) v) vs w) =
     length w + sum_list (map (\<lambda>v. 1 + SizeBytes v) vs)"
  by (induction vs arbitrary: w) auto

lemma length_SerializeTx:
  "length (SerializeTx_MarshalCanoto c) =
     (if Base_CanotoSize (st_Base c) = 0 then 0
      else 1 + SizeUint (word_of_nat (Base_CanotoSize (st_Base c))) + Base_CanotoSize (st_Base c)) +
     sum_list (map (\<lambda>v. 1 + SizeBytes v) (st_Actions c)) +
     (if st_Auth c = [] then 0 else 1 + SizeBytes (st_Auth c))"
  by (simp add: SerializeTx_MarshalCanoto_def Let_def length_fold_AppendBytes)

lemma SizeUint_le: "unat v < 2 ^ (7 * n) \<Longrightarrow> 0 < n \<Longrightarrow> SizeUint v \<le> n"
  using Len64_le [of "unat v" "7 * n"] by (auto simp: SizeUint_def)

lemma SizeUint_small: "n < 2 ^ 14 \<Longrightarrow> SizeUint (word_of_nat n) \<le> 2"
  using SizeUint_le [of "word_of_nat n" 2] by (simp add: unat_of_nat)

lemma SizeInt_le: "SizeInt v \<le> 10"
  using Len64_le [of "unat (zigzag v)" 64] unsigned_less [of "zigzag v", where ?'a = nat]
  by (auto simp: SizeInt_def)

lemma Base_CanotoSize_le:
  assumes "length (base_ChainID c) = IDLen"
  shows "Base_CanotoSize c \<le> 54"
proof -
  have "SizeBytes (base_ChainID c) = 33"
    using assms by (simp add: SizeBytes_def IDLen_def SizeUint_def Len64.simps)
  then show ?thesis
    using SizeInt_le [of "base_Timestamp c"] by (simp add: Base_CanotoSize_def)
qed

text \<open>
  A signed transaction takes at most 56 bytes for its base and, for each action and the signature,
  its bytes and a tag and length of at most three bytes.
\<close>

lemma length_signed_le:
  assumes "length (base_ChainID b) = IDLen" and "length au < 2 ^ 14"
  shows "length (SerializeTx_MarshalCanoto \<lparr>st_Base = b, st_Actions = vs, st_Auth = au\<rparr>) \<le>
    59 + sum_list (map (\<lambda>v. 1 + SizeBytes v) vs) + length au"
proof -
  have "SizeUint (word_of_nat (Base_CanotoSize b)) \<le> 1"
    using Base_CanotoSize_le [OF assms(1)] SizeUint_le [of "word_of_nat (Base_CanotoSize b)" 1]
    by (simp add: unat_of_nat)
  moreover have "SizeBytes au \<le> 2 + length au"
    using SizeUint_small [OF assms(2)] by (simp add: SizeBytes_def)
  ultimately show ?thesis
    using Base_CanotoSize_le [OF assms(1)] by (simp add: length_SerializeTx)
qed

section \<open>The estimate and the units\<close>

definition key_cost :: "u64 \<Rightarrow> u64 \<Rightarrow> u16 \<Rightarrow> nat" where
  "key_cost keyUnits valueUnits c = unat keyUnits + unat c * unat valueUnits"

definition suffix_chunks :: "bytes \<Rightarrow> u16" where
  "suffix_chunks key = Uint16 (drop (length key - 2) key)"

lemma unat_ucast_chunks [simp]: "unat (ucast (c :: u16) :: u64) = unat c"
proof -
  have "unat c < 2 ^ 64" using unsigned_less [of c, where ?'a = nat] by simp
  then show ?thesis by (simp add: unsigned_ucast_eq take_bit_nat_eq_self)
qed

lemma counts_key_units:
  "counts oper n \<Longrightarrow> counts (key_units u v c oper) (n + key_cost u v c)"
  using counts_MulAdd [OF counts_Add, of oper n "ucast c" v u]
  by (simp add: key_units_def key_cost_def add.assoc)

lemma counts_fold_key_units:
  "counts oper n \<Longrightarrow>
   counts (fold (key_units u v) cs oper) (n + sum_list (map (key_cost u v) cs))"
proof (induction cs arbitrary: oper n)
  case (Cons c cs)
  from Cons.IH [OF counts_key_units [OF Cons.prems]] show ?case by (simp add: add.assoc)
qed simp

text \<open>A count that fits 64 bits is the value; otherwise there is an overflow error.\<close>

definition exactly :: "nat \<Rightarrow> u64 result" where
  "exactly n = (if n < 2 ^ 64 then Inr (word_of_nat n) else Inl (Sentinel ErrOverflow))"

lemma exactly_le:
  assumes "exactly n = Inr x" and "m \<le> n"
  shows "exactly m = Inr (word_of_nat m)" and "unat (word_of_nat m :: u64) \<le> unat x"
  using assms by (auto simp: exactly_def unat_of_nat split: if_splits)

lemma chunk_units_exact:
  "chunk_units u v cs = exactly (sum_list (map (key_cost u v) cs))"
  using counts_Value [OF counts_fold_key_units [OF counts_New [of 0], of u v cs]]
  by (simp add: chunk_units_def exactly_def)

lemma storage_units_folds:
  "\<forall>k \<in> set ks. keys_Valid k \<Longrightarrow>
   storage_units r ks (x, y, z) =
     Some (fold (key_units (GetStorageKeyReadUnits r) (GetStorageValueReadUnits r)) (map suffix_chunks ks) x,
           fold (key_units (GetStorageKeyAllocateUnits r) (GetStorageValueAllocateUnits r))
             (map suffix_chunks ks) y,
           fold (key_units (GetStorageKeyWriteUnits r) (GetStorageValueWriteUnits r))
             (map suffix_chunks ks) z)"
  by (induction ks arbitrary: x y z)
     (auto simp: MaxChunks_def keys_Valid_def suffix_chunks_def)

definition compute_units :: "Action list \<Rightarrow> nat" where
  "compute_units as = sum_list (map (\<lambda>a. unat (Action_ComputeUnits a)) as)"

lemma counts_actions:
  "counts oper n \<Longrightarrow>
   counts (fold (\<lambda>a. uop_Add (Action_ComputeUnits a)) as oper) (n + compute_units as)"
proof (induction as arbitrary: oper n)
  case (Cons a as)
  from Cons.IH [OF counts_Add [OF Cons.prems]] show ?case by (simp add: compute_units_def add.assoc)
qed (simp add: compute_units_def)

lemma add_keys_fst:
  "add_keys kvs ks = Some ks' \<Longrightarrow>
   fst ` set ks' = fst ` set ks \<union> fst ` set kvs \<and> (distinct (map fst ks) \<longrightarrow> distinct (map fst ks'))"
proof (induction kvs arbitrary: ks)
  case (Cons kv kvs)
  obtain k v where kv: "kv = (k, v)" by force
  from Cons.prems have "add_keys kvs (AList.update k (Keys_lookup ks k OR v) ks) = Some ks'"
    by (auto simp: kv Keys_Add_def split: if_splits)
  from Cons.IH [OF this] show ?case by (auto simp: kv dom_update distinct_update)
qed simp

text \<open>The units of a transaction over exact sums.\<close>

lemma Transaction_Units_exact:
  assumes "Transaction_StateKeys bh t = Inr ks"
  shows "Transaction_Units bh r t =
    (case exactly (unat (GetBaseComputeUnits r) + compute_units (tx_Actions t) +
        unat (auth_ComputeUnits (tx_Auth t))) of
       Inl err \<Rightarrow> Inl err
     | Inr c \<Rightarrow>
      (case chunk_units (GetStorageKeyReadUnits r) (GetStorageValueReadUnits r)
          (map (suffix_chunks \<circ> fst) ks) of
         Inl err \<Rightarrow> Inl err
       | Inr rd \<Rightarrow>
        (case chunk_units (GetStorageKeyAllocateUnits r) (GetStorageValueAllocateUnits r)
            (map (suffix_chunks \<circ> fst) ks) of
           Inl err \<Rightarrow> Inl err
         | Inr al \<Rightarrow>
          (case chunk_units (GetStorageKeyWriteUnits r) (GetStorageValueWriteUnits r)
              (map (suffix_chunks \<circ> fst) ks) of
             Inl err \<Rightarrow> Inl err
           | Inr wr \<Rightarrow> Inr [tx_Size t, c, rd, al, wr]))))"
proof -
  have decl: "add_keys (tx_declared bh t) [] = Some ks"
    using assms by (simp add: Transaction_StateKeys_eq split: option.splits)
  then have "\<forall>(k, v) \<in> set (tx_declared bh t). keys_Valid k"
    using add_keys_valid [of "tx_declared bh t" "[]"] by simp
  then have "\<forall>k \<in> set (map fst ks). keys_Valid k"
    using add_keys_fst [OF decl] by fastforce
  note storage = storage_units_folds [OF this]
  have "counts (uop_Add (auth_ComputeUnits (tx_Auth t))
      (fold (\<lambda>a. uop_Add (Action_ComputeUnits a)) (tx_Actions t) (NewUint64Operator (GetBaseComputeUnits r))))
    (unat (GetBaseComputeUnits r) + compute_units (tx_Actions t) + unat (auth_ComputeUnits (tx_Auth t)))"
    by (intro counts_Add counts_actions counts_New)
  from counts_Value [OF this] show ?thesis
    unfolding Transaction_Units_def Let_def exactly_def [symmetric]
    by (simp add: assms storage chunk_units_def cong: sum.case_cong)
qed

lemma Keys_ChunkSizes_eq:
  "Keys_ChunkSizes ks = Some cs \<longleftrightarrow> (\<forall>k \<in> fst ` set ks. keys_Valid k) \<and> cs = map (suffix_chunks \<circ> fst) ks"
  by (induction ks arbitrary: cs rule: Keys_ChunkSizes.induct)
     (auto simp: DecodeChunks_def keys_Valid_def suffix_chunks_def)

lemma estimate_actions_ok:
  assumes "estimate_actions actor as bw cs oper = Some (Inr (bw', cs', oper'))"
  shows "\<exists>bss. those (map Action_Bytes as) = Some bss \<and> bw' = bw + word_of_nat (sum_list (map length bss)) \<and>
    (\<forall>k \<in> fst ` set (concat (map (\<lambda>a. Action_StateKeys a actor) as)). keys_Valid k) \<and>
    cs' = cs @ map (suffix_chunks \<circ> fst) (concat (map (\<lambda>a. Action_StateKeys a actor) as)) \<and>
    oper' = fold (\<lambda>a. uop_Add (Action_ComputeUnits a)) as oper"
  using assms
proof (induction as arbitrary: bw cs oper)
  case (Cons a as)
  from Cons.prems obtain bs cs1 where bs: "Action_Bytes a = Some bs"
    and cs1: "Keys_ChunkSizes (Action_StateKeys a actor) = Some cs1"
    and rec: "estimate_actions actor as (bw + word_of_nat (length bs)) (cs @ cs1)
      (uop_Add (Action_ComputeUnits a) oper) = Some (Inr (bw', cs', oper'))"
    by (auto split: option.splits)
  from Cons.IH [OF rec] bs cs1 [unfolded Keys_ChunkSizes_eq] show ?case
    by (fastforce simp: add.assoc)
qed simp

text \<open>The chunk sizes the estimate pays for.\<close>

definition estimated_chunks :: "Rules \<Rightarrow> Action list \<Rightarrow> Address \<Rightarrow> u16 list" where
  "estimated_chunks r as actor =
     map (suffix_chunks \<circ> fst) (concat (map (\<lambda>a. Action_StateKeys a actor) as)) @
     GetSponsorStateKeysMaxChunks r"

lemma EstimateUnits_ok:
  assumes "EstimateUnits r as f = Some (Inr est)"
  obtains bss c rd al wr where "those (map Action_Bytes as) = Some bss"
    "\<forall>k \<in> fst ` set (concat (map (\<lambda>a. Action_StateKeys a (factory_Address f)) as)). keys_Valid k"
    "est = [MaxBaseSize + 1 + word_of_nat (sum_list (map length bss)) + fst (factory_MaxUnits f), c, rd, al, wr]"
    "exactly (unat (GetBaseComputeUnits r) + compute_units as + unat (snd (factory_MaxUnits f))) = Inr c"
    "chunk_units (GetStorageKeyReadUnits r) (GetStorageValueReadUnits r)
       (estimated_chunks r as (factory_Address f)) = Inr rd"
    "chunk_units (GetStorageKeyAllocateUnits r) (GetStorageValueAllocateUnits r)
       (estimated_chunks r as (factory_Address f)) = Inr al"
    "chunk_units (GetStorageKeyWriteUnits r) (GetStorageValueWriteUnits r)
       (estimated_chunks r as (factory_Address f)) = Inr wr"
proof -
  obtain ab ac where ab: "factory_MaxUnits f = (ab, ac)" by force
  from assms obtain bw cs oper where e: "estimate_actions (factory_Address f) as (MaxBaseSize + 1) []
      (NewUint64Operator (GetBaseComputeUnits r)) = Some (Inr (bw, cs, oper))"
    by (auto simp: EstimateUnits_def split: option.splits sum.splits)
  from estimate_actions_ok [OF e] obtain bss where bss: "those (map Action_Bytes as) = Some bss"
    "\<forall>k \<in> fst ` set (concat (map (\<lambda>a. Action_StateKeys a (factory_Address f)) as)). keys_Valid k"
    and bw: "bw = MaxBaseSize + 1 + word_of_nat (sum_list (map length bss))"
    and cs: "cs @ GetSponsorStateKeysMaxChunks r = estimated_chunks r as (factory_Address f)"
    and oper: "oper = fold (\<lambda>a. uop_Add (Action_ComputeUnits a)) as (NewUint64Operator (GetBaseComputeUnits r))"
    by (auto simp: estimated_chunks_def)
  have "counts (uop_Add ac oper) (unat (GetBaseComputeUnits r) + compute_units as + unat ac)"
    unfolding oper by (intro counts_Add counts_actions counts_New)
  note op = counts_Value [OF this, folded exactly_def]
  show thesis
    using assms by (simp add: EstimateUnits_def e ab op cs Let_def split: sum.splits)
      (rule that [OF bss]; simp add: ab bw)
qed

lemma sum_list_distinct_le:
  fixes f :: "'a \<Rightarrow> nat"
  assumes "distinct xs" and "set xs \<subseteq> set ys"
  shows "sum_list (map f xs) \<le> sum_list (map f ys)"
proof -
  have "sum_list (map f xs) = sum f (set xs)" using assms(1) by (simp add: sum_list_distinct_conv_sum_set)
  also have "\<dots> \<le> sum f (set (remdups ys))" using assms(2) by (intro sum_mono2) auto
  also have "\<dots> = sum_list (map f (remdups ys))" by (simp add: sum_list_distinct_conv_sum_set)
  also have "\<dots> \<le> sum_list (map f ys)" by (induction ys) auto
  finally show ?thesis .
qed

text \<open>
  The keys a transaction is charged for are among those the estimate pays for, as long as the
  sponsor's key asks for no more chunks than some entry the rules reserve for sponsors.
\<close>

lemma charged_keys_le:
  assumes "Transaction_StateKeys view_handler t = Inr ks"
    and "Actor (tx_Auth t) = addr" and "Sponsor (tx_Auth t) = addr"
    and "c \<in> set (GetSponsorStateKeysMaxChunks r)" and "suffix_chunks (StateKeysBalance addr) \<le> c"
  shows "sum_list (map (key_cost u v) (map (suffix_chunks \<circ> fst) ks)) \<le>
    sum_list (map (key_cost u v) (estimated_chunks r (tx_Actions t) addr))"
proof -
  let ?g = "\<lambda>k. key_cost u v (suffix_chunks k)"
  let ?acts = "concat (map (\<lambda>a. Action_StateKeys a addr) (tx_Actions t))"
  have decl: "tx_declared view_handler t = ?acts @ [(StateKeysBalance addr, PermRead)]"
    using assms(2,3) by (simp add: tx_declared_def Controller_New_def SponsorStateKeys_def)
  have "add_keys (tx_declared view_handler t) [] = Some ks"
    using assms(1) by (simp add: Transaction_StateKeys_eq split: option.splits)
  from add_keys_fst [OF this]
  have "sum_list (map ?g (map fst ks)) \<le> sum_list (map ?g (map fst (tx_declared view_handler t)))"
    by (intro sum_list_distinct_le) auto
  also have "\<dots> = sum_list (map ?g (map fst ?acts)) + ?g (StateKeysBalance addr)"
    by (simp add: decl)
  also have "?g (StateKeysBalance addr) \<le> key_cost u v c"
    using assms(5) by (simp add: key_cost_def word_le_nat_alt)
  also have "key_cost u v c \<le> sum_list (map (key_cost u v) (GetSponsorStateKeysMaxChunks r))"
    using assms(4) by (intro member_le_sum_list) simp_all
  finally show ?thesis by (simp add: estimated_chunks_def comp_def)
qed

lemma GenerateTransaction_ok:
  assumes "GenerateTransaction sha256 clock getRules prices ts as f = Some (Inr tx)"
  obtains est bss au where "EstimateUnits (getRules ts) as f = Some (Inr est)"
    "MulSum prices est = Inr (base_MaxFee (tx_Base tx))" "those (map Action_Bytes as) = Some bss"
    "factory_Sign f (tx_unsignedBytes tx) = Inr au" "tx_Auth tx = Auth.truncate au" "tx_Actions tx = as"
    "base_ChainID (tx_Base tx) = GetChainID (getRules ts)"
    "tx_bytes tx = SerializeTx_MarshalCanoto \<lparr>st_Base = tx_Base tx, st_Actions = bss, st_Auth = auth_Bytes au\<rparr>"
    "tx_Size tx = word_of_nat (length (tx_bytes tx))"
  using assms
  by (auto simp: GenerateTransaction_def GenerateTransactionManual_def Sign_def NewTransaction_def
        NewTxData_def Let_def split: option.splits sum.splits)

text \<open>A signature scheme whose signatures stay within what it announces.\<close>

definition announces :: "AuthFactory \<Rightarrow> bool" where
  "announces f \<longleftrightarrow>
     (\<forall>m au. factory_Sign f m = Inr au \<longrightarrow>
        Actor au = factory_Address f \<and> Sponsor au = factory_Address f \<and>
        auth_ComputeUnits au \<le> snd (factory_MaxUnits f) \<and>
        length (auth_Bytes au) \<le> unat (fst (factory_MaxUnits f)))"

text \<open>The tags and lengths in front of the actions of a transaction.\<close>

definition framing :: "Action list \<Rightarrow> nat" where
  "framing as = sum_list (map (\<lambda>a. case Action_Bytes a of None \<Rightarrow> 0
     | Some bs \<Rightarrow> 1 + SizeUint (word_of_nat (length bs))) as)"

lemma framing_those:
  "those (map Action_Bytes as) = Some bss \<Longrightarrow>
   sum_list (map (\<lambda>v. 1 + SizeBytes v) bss) = framing as + sum_list (map length bss)"
  by (induction as arbitrary: bss) (auto simp: framing_def SizeBytes_def split: option.splits)

text \<open>
  Only purchases can be estimated, since the key of \<^verbatim>\<open>CreateMarket\<close> is invalid: 24 bytes each, with a
  tag and a length of one byte.
\<close>

lemma estimated_purchases:
  assumes "\<forall>k \<in> fst ` set (concat (map (\<lambda>a. Action_StateKeys a addr) as)). keys_Valid k"
    and "those (map Action_Bytes as) = Some bss"
  shows "framing as = 2 * length as" and "sum_list (map length bss) = 24 * length as"
proof -
  have "framing as = 2 * length as \<and> sum_list (map length bss) = 24 * length as"
    using assms
  proof (induction as arbitrary: bss)
    case (Cons a as)
    have "\<not> keys_Valid [MarketPrefix]" by (simp add: keys_Valid_def)
    then have "a \<noteq> ActCreateMarket cm" for cm using Cons.prems(1) by (auto simp: CreateMarket_StateKeys_def)
    then have "\<exists>bs. Action_Bytes a = Some bs \<and> length bs = 24"
      by (cases a) (auto simp: BuyYes_Bytes_eq BuyNo_Bytes_eq)
    then obtain bs where bs: "Action_Bytes a = Some bs" "length bs = 24" by blast
    moreover have "SizeUint 24 = 1" by (simp add: SizeUint_def Len64.simps)
    ultimately show ?case using Cons by (auto simp: framing_def split: option.splits)
  qed (simp add: framing_def)
  then show "framing as = 2 * length as" "sum_list (map length bss) = 24 * length as" by simp_all
qed

lemma dot_mono:
  "list_all2 (\<lambda>x y. unat x \<le> unat y) xs ys \<Longrightarrow> dot ps xs \<le> dot ps ys"
proof (induction xs ys arbitrary: ps rule: list_all2_induct)
  case (Cons x xs y ys)
  then show ?case by (cases ps) (auto intro: add_mono mult_le_mono2)
qed simp

lemma truncated_tx [simp]:
  "tx_Base (Transaction.truncate t) = tx_Base t" "tx_Actions (Transaction.truncate t) = tx_Actions t"
  "tx_Auth (Transaction.truncate t) = tx_Auth t" "tx_Size (Transaction.truncate t) = tx_Size t"
  by (simp_all add: Transaction.truncate_def)

lemma truncated_auth [simp]:
  "Actor (Auth.truncate a) = Actor a" "Sponsor (Auth.truncate a) = Sponsor a"
  "auth_ComputeUnits (Auth.truncate a) = auth_ComputeUnits a"
  "auth_ValidRange (Auth.truncate a) = auth_ValidRange a"
  by (simp_all add: Auth.truncate_def)

text \<open>The bandwidth a signed transaction is charged for is within the estimate.\<close>

lemma bandwidth_le:
  assumes "length (base_ChainID b) = IDLen" and "those (map Action_Bytes as) = Some bss"
    and "framing as \<le> 32" and "length au \<le> unat ab" and "unat ab < 2 ^ 14"
    and "sum_list (map length bss) < 2 ^ 32"
  shows "unat (word_of_nat (length (SerializeTx_MarshalCanoto
        \<lparr>st_Base = b, st_Actions = bss, st_Auth = au\<rparr>)) :: u64) \<le>
    unat (MaxBaseSize + 1 + word_of_nat (sum_list (map length bss)) + ab)"
proof -
  let ?S = "sum_list (map length bss)" and ?n = "length (SerializeTx_MarshalCanoto
        \<lparr>st_Base = b, st_Actions = bss, st_Auth = au\<rparr>)"
  have n: "?n \<le> 91 + ?S + unat ab"
    using length_signed_le [OF assms(1), of au bss] framing_those [OF assms(2)] assms(3-5) by linarith
  have "unat (MaxBaseSize + 1 + word_of_nat ?S + ab) = 91 + ?S + unat ab"
    using assms(5,6) by (simp add: MaxBaseSize_def unat_word_ariths unat_of_nat)
  then show ?thesis using n assms(5,6) by (simp add: unat_of_nat)
qed

text \<open>Lower counts give lower units, and no overflow where there was none.\<close>

lemma chunk_units_le:
  assumes "chunk_units u v cs = Inr x"
    and "sum_list (map (key_cost u v) cs') \<le> sum_list (map (key_cost u v) cs)"
  shows "\<exists>y. chunk_units u v cs' = Inr y \<and> unat y \<le> unat x"
  using exactly_le [OF assms [unfolded chunk_units_exact]] by (simp add: chunk_units_exact)

lemma Transaction_Units_le:
  assumes "Transaction_StateKeys bh t = Inr ks"
    and "\<And>u v. sum_list (map (key_cost u v) (map (suffix_chunks \<circ> fst) ks)) \<le> sum_list (map (key_cost u v) cs)"
    and "exactly n = Inr ec"
    and "unat (GetBaseComputeUnits r) + compute_units (tx_Actions t) + unat (auth_ComputeUnits (tx_Auth t)) \<le> n"
    and "chunk_units (GetStorageKeyReadUnits r) (GetStorageValueReadUnits r) cs = Inr er"
    and "chunk_units (GetStorageKeyAllocateUnits r) (GetStorageValueAllocateUnits r) cs = Inr ea"
    and "chunk_units (GetStorageKeyWriteUnits r) (GetStorageValueWriteUnits r) cs = Inr ew"
    and "unat (tx_Size t) \<le> unat eb"
  shows "\<exists>units. Transaction_Units bh r t = Inr units \<and>
    list_all2 (\<lambda>x y. unat x \<le> unat y) units [eb, ec, er, ea, ew]"
  using exactly_le [OF assms(3,4)] chunk_units_le [OF assms(5) assms(2)]
    chunk_units_le [OF assms(6) assms(2)] chunk_units_le [OF assms(7) assms(2)] assms(8)
  by (auto simp: Transaction_Units_exact [OF assms(1)])

lemma MulSum_mono:
  assumes "MulSum ps ys = Inr y" and "length ps = length ys" and "list_all2 (\<lambda>x y. unat x \<le> unat y) xs ys"
  shows "\<exists>x. MulSum ps xs = Inr x \<and> x \<le> y"
proof -
  have n: "dot ps ys < 2 ^ 64" "y = word_of_nat (dot ps ys)"
    using assms(1,2) by (auto simp: MulSum_exact split: if_splits)
  have "length ps = length xs" using assms(2,3) by (simp add: list_all2_lengthD)
  then show ?thesis
    using n dot_mono [OF assms(3), of ps]
    by (simp add: MulSum_exact word_le_nat_alt unat_of_nat)
qed

lemma unat_Uint16: "unat (Uint16 [x, y]) = 256 * unat x + unat y"
proof -
  have x: "unat x < 256" and y: "unat y < 256"
    using unsigned_less [of x, where ?'a = nat] unsigned_less [of y, where ?'a = nat] by simp_all
  have "Uint16 [x, y] = ucast y + push_bit 8 (ucast x)"
    by (simp, rule disjunctive_add_eq_or [symmetric]) (auto simp: bit_eq_iff bit_simps dest: bit_imp_le_length)
  moreover have "unat (ucast z :: u16) = unat z" if "unat z < 256" for z :: byte
    using that by (simp add: unsigned_ucast_eq take_bit_nat_eq_self)
  ultimately show ?thesis
    using x y by (simp add: push_bit_eq_mult unat_word_ariths)
qed

lemma suffix_chunks_balance:
  assumes "wf_Address a"
  shows "unat (suffix_chunks (StateKeysBalance a)) = 256 * unat (a ! 31) + unat (a ! 32)"
proof -
  have "drop 31 a = [a ! 31, a ! 32]"
    using assms by (intro nth_equalityI) (auto simp: wf_Address_def AddressLen_def less_2_cases_iff)
  then have "suffix_chunks (StateKeysBalance a) = Uint16 [a ! 31, a ! 32]"
    using assms by (simp add: suffix_chunks_def StateKeysBalance_eq wf_Address_def AddressLen_def
        del: Uint16.simps)
  then show ?thesis by (simp only: unat_Uint16)
qed

text \<open>A transaction without actions declares the sponsor's key only.\<close>

lemma no_action_keys:
  assumes "tx_Actions t = []" and "wf_Address (Sponsor (tx_Auth t))"
  shows "Transaction_StateKeys view_handler t = Inr [(StateKeysBalance (Sponsor (tx_Auth t)), PermRead)]"
  using assms
  by (simp add: Transaction_StateKeys_def Controller_New_def SponsorStateKeys_def Keys_Add_def keys_Valid_def
        StateKeysBalance_eq wf_Address_def AddressLen_def Keys_lookup_def PermNone_def)

section \<open>Properties\<close>

text \<open>
  C32: the fee a generated transaction allows is enough. When it has at most 16 actions (the limit of
  the default rules), the signature scheme stays within what it announces, and the rules reserve as many
  chunks for a sponsor as the sponsor's key asks for, then the units the chain charges for exist and
  cost, at the unit prices of the estimate, no more than the fee limit written into the transaction.
  The limit on the actions is needed: the estimate does not count their tags and lengths on the wire,
  and its slack covers those of 16 purchases.
\<close>

theorem estimate_covers_fee:
  assumes "GenerateTransaction sha256 clock getRules prices ts as f = Some (Inr tx)"
    and "wf_Dimensions prices" and "announces f" and "wf_Address (factory_Address f)"
    and "length (GetChainID (getRules ts)) = IDLen" and "unat (fst (factory_MaxUnits f)) < 2 ^ 14"
    and "length as \<le> 16"
    and "c \<in> set (GetSponsorStateKeysMaxChunks (getRules ts))"
    and "suffix_chunks (StateKeysBalance (factory_Address f)) \<le> c"
  shows "\<exists>units fee. Transaction_Units view_handler (getRules ts) (Transaction.truncate tx) = Inr units \<and>
    MulSum prices units = Inr fee \<and> fee \<le> base_MaxFee (tx_Base tx)"
proof -
  let ?r = "getRules ts" and ?t = "Transaction.truncate tx" and ?a = "factory_Address f"
  obtain est bss au where g: "EstimateUnits ?r as f = Some (Inr est)"
    "MulSum prices est = Inr (base_MaxFee (tx_Base tx))" "those (map Action_Bytes as) = Some bss"
    "factory_Sign f (tx_unsignedBytes tx) = Inr au" "tx_Auth tx = Auth.truncate au" "tx_Actions tx = as"
    "base_ChainID (tx_Base tx) = GetChainID ?r"
    "tx_bytes tx = SerializeTx_MarshalCanoto \<lparr>st_Base = tx_Base tx, st_Actions = bss, st_Auth = auth_Bytes au\<rparr>"
    "tx_Size tx = word_of_nat (length (tx_bytes tx))"
    by (rule GenerateTransaction_ok [OF assms(1)])
  have au: "Actor (tx_Auth ?t) = ?a" "Sponsor (tx_Auth ?t) = ?a"
    "auth_ComputeUnits (tx_Auth ?t) \<le> snd (factory_MaxUnits f)"
    "length (auth_Bytes au) \<le> unat (fst (factory_MaxUnits f))"
    using assms(3) g(4,5) by (simp_all add: announces_def)
  from g(1) obtain bss' ec er ea ew where e: "those (map Action_Bytes as) = Some bss'"
    "\<forall>k \<in> fst ` set (concat (map (\<lambda>a. Action_StateKeys a ?a) as)). keys_Valid k"
    "est = [MaxBaseSize + 1 + word_of_nat (sum_list (map length bss')) + fst (factory_MaxUnits f), ec, er, ea, ew]"
    "exactly (unat (GetBaseComputeUnits ?r) + compute_units as + unat (snd (factory_MaxUnits f))) = Inr ec"
    "chunk_units (GetStorageKeyReadUnits ?r) (GetStorageValueReadUnits ?r) (estimated_chunks ?r as ?a) = Inr er"
    "chunk_units (GetStorageKeyAllocateUnits ?r) (GetStorageValueAllocateUnits ?r) (estimated_chunks ?r as ?a) = Inr ea"
    "chunk_units (GetStorageKeyWriteUnits ?r) (GetStorageValueWriteUnits ?r) (estimated_chunks ?r as ?a) = Inr ew"
    by (rule EstimateUnits_ok)
  have "\<forall>(k, v) \<in> set (tx_declared view_handler ?t). keys_Valid k"
    using e(2) au(1,2) assms(4) g(6)
    by (fastforce simp: tx_declared_def Controller_New_def SponsorStateKeys_def keys_Valid_def
          StateKeysBalance_eq wf_Address_def AddressLen_def)
  then obtain ks where ks: "Transaction_StateKeys view_handler ?t = Inr ks"
    by (auto simp: Transaction_StateKeys_ok [symmetric])
  note keys = charged_keys_le [OF ks au(1,2) assms(8,9)]
  have "unat (tx_Size ?t) \<le> unat (MaxBaseSize + 1 + word_of_nat (sum_list (map length bss)) + fst (factory_MaxUnits f))"
    using bandwidth_le [OF _ g(3) _ au(4) assms(6)] g(7-9) assms(5,7) estimated_purchases [OF e(2) g(3)] by simp
  then have "\<exists>units. Transaction_Units view_handler ?r ?t = Inr units \<and>
      list_all2 (\<lambda>x y. unat x \<le> unat y) units est"
    unfolding e(3)
    using e(1) g(3,6) au(3) keys
    by (intro Transaction_Units_le [OF ks _ e(4) _ e(5-7)]) (simp_all add: word_le_nat_alt)
  then show ?thesis
    using MulSum_mono [OF g(2)] assms(2) e(3) by (auto simp: wf_Dimensions_def FeeDimensions_def)
qed

text \<open>
  Most accounts can never get a transaction into a block. The sponsor's key is a prefix and the
  address with no chunk suffix, so the last two bytes of the address are read as the number of chunks
  to pay for. Under the default rules an address whose last two bytes are above 396 makes every
  transaction it pays for exceed the block limit, whatever the block has consumed before.
\<close>

theorem sponsor_suffix_excludes:
  assumes "Transaction_Units view_handler NewDefaultRules t = Inr units" and "wf_Address (Sponsor (tx_Auth t))"
    and "396 < 256 * unat (Sponsor (tx_Auth t) ! 31) + unat (Sponsor (tx_Auth t) ! 32)" and "wf_Manager fm"
  shows "\<exists>i. Consume units (GetMaxBlockUnits NewDefaultRules) fm = ((False, i), fm)"
proof -
  let ?a = "Sponsor (tx_Auth t)" and ?r = NewDefaultRules
  obtain ks where ks: "Transaction_StateKeys view_handler t = Inr ks"
    using assms(1) by (auto simp: Transaction_Units_def Let_def split: sum.splits)
  then have "fst ` set ks = fst ` set (tx_declared view_handler t)"
    using add_keys_fst [of "tx_declared view_handler t" "[]" ks]
    by (auto simp: Transaction_StateKeys_eq split: option.splits)
  then have "StateKeysBalance ?a \<in> fst ` set ks"
    by (simp add: tx_declared_def Controller_New_def SponsorStateKeys_def)
  then obtain kv where kv: "kv \<in> set ks" "fst kv = StateKeysBalance ?a" by auto
  let ?n = "sum_list (map (key_cost 20 5) (map (suffix_chunks \<circ> fst) ks))"
  have "key_cost 20 5 (suffix_chunks (StateKeysBalance ?a)) \<le> ?n"
    using kv by (intro member_le_sum_list) (force simp: image_iff)+
  then have n: "2000 < ?n"
    using suffix_chunks_balance [OF assms(2)] assms(3) by (simp add: key_cost_def)
  have "units ! 3 = word_of_nat ?n" "?n < 2 ^ 64" "length units = 5"
    using assms(1) unfolding Transaction_Units_exact [OF ks] chunk_units_exact
    by (auto simp: exactly_def NewDefaultRules_def split: sum.splits if_splits)
  then have "\<not> consumable fm units (GetMaxBlockUnits ?r) 3"
    using n by (simp add: consumable_def NewDefaultRules_def unat_of_nat)
  with assms(4) show ?thesis
    by (cases rule: Consume_cases [where d = units and l = "GetMaxBlockUnits ?r"])
       (auto simp: FeeDimensions_def)
qed

text \<open>A scheme that always signs with 97 bytes, for an account whose address ends in 0 and 1.\<close>

definition sample_factory :: "Address \<Rightarrow> AuthFactory" where
  "sample_factory a =
     \<lparr>factory_Sign = (\<lambda>_. Inr \<lparr>Actor = a, Sponsor = a, auth_ComputeUnits = 5, auth_ValidRange = (- 1, - 1),
        auth_Bytes = replicate 97 0\<rparr>),
      factory_MaxUnits = (97, 5), factory_Address = a\<rparr>"

lemma sample_estimate:
  "EstimateUnits NewDefaultRules [] (sample_factory a) = Some (Inr [188, 6, 7, 25, 13])"
  by (simp add: EstimateUnits_def sample_factory_def NewDefaultRules_def chunk_units_def MaxBaseSize_def
        NewUint64Operator_def key_units_def uop_Add_def uop_MulAdd_def uop_Value_def safe_Add_def
        safe_Mul_def MaxUint64_def)

lemma sample_fields:
  assumes "GenerateTransaction sha256 clock getRules prices now as (sample_factory a) = Some (Inr tx)"
  shows "tx_Actions tx = as" "Sponsor (tx_Auth tx) = a" "auth_ComputeUnits (tx_Auth tx) = 5"
proof -
  obtain au where "factory_Sign (sample_factory a) (tx_unsignedBytes tx) = Inr au"
    and t: "tx_Auth tx = Auth.truncate au" "tx_Actions tx = as"
    by (rule GenerateTransaction_ok [OF assms])
  then have "Sponsor au = a" "auth_ComputeUnits au = 5" by (auto simp: sample_factory_def)
  with t show "tx_Actions tx = as" "Sponsor (tx_Auth tx) = a" "auth_ComputeUnits (tx_Auth tx) = 5"
    by simp_all
qed

lemma sample_generate:
  "\<exists>tx. GenerateTransaction sha256 clock (\<lambda>_. NewDefaultRules) [100, 100, 100, 100, 100] now [] (sample_factory a) =
     Some (Inr tx) \<and> base_MaxFee (tx_Base tx) = 23900 \<and> length (tx_bytes tx) < 2 ^ 32"
proof -
  have fee: "MulSum [100, 100, 100, 100, 100] [188, 6, 7, 25, 13] = Inr 23900"
    by (simp add: MulSum_exact)
  obtain au where au: "factory_Sign (sample_factory a) m = Inr au" "auth_Bytes au = replicate 97 0" for m
    by (simp add: sample_factory_def)
  let ?b = "\<lparr>base_Timestamp = UnixRMilli clock now 60000, base_ChainID = replicate IDLen 0, base_MaxFee = 23900\<rparr>"
  have "length (SerializeTx_MarshalCanoto \<lparr>st_Base = ?b, st_Actions = [], st_Auth = replicate 97 0\<rparr>) < 2 ^ 32"
    using length_signed_le [of ?b "replicate 97 0" "[]"] by simp
  then show ?thesis
    by (simp add: GenerateTransaction_def sample_estimate fee GenerateTransactionManual_def NewTxData_def
        Sign_def NewTransaction_def Let_def au) (simp add: NewDefaultRules_def)
qed

lemma sample_buy_generate:
  "\<exists>tx. GenerateTransaction sha256 clock (\<lambda>_. NewDefaultRules) [100, 100, 100, 100, 100] now [ActBuyYes sample_buy]
     (sample_factory (replicate 32 0 @ [1])) = Some (Inr tx)"
proof -
  let ?a = "replicate 32 0 @ [1] :: Address"
  have a: "wf_Address ?a" by (simp add: wf_Address_def AddressLen_def)
  have k: "Keys_ChunkSizes (BuyYes_StateKeys sample_buy ?a) = Some [1, 7, 256]"
  proof -
    have "PutUint64 7 = [0, 0, 0, 0, 0, 0, 0, 7]" by (simp add: PutUint64_def)
    then have "suffix_chunks (MarketKey 7) = 7" by (simp add: MarketKey_eq suffix_chunks_def)
    moreover have "suffix_chunks (BalanceKey ?a) = 1" "suffix_chunks (ShareBalanceKey 7 ?a YesShareType) = 256"
      using a by (simp_all add: ShareBalanceKey_eq BalanceKey_eq) (simp_all add: suffix_chunks_def YesShareType_def AddressLen_def)
    ultimately show ?thesis
      using a unfolding Keys_ChunkSizes_eq
      by (simp add: BuyYes_StateKeys_def sample_buy_def keys_Valid_Market keys_Valid_Share keys_Valid_BalanceKey)
  qed
  have "\<exists>u. EstimateUnits NewDefaultRules [ActBuyYes sample_buy] (sample_factory ?a) = Some (Inr u) \<and>
      (\<exists>fee. MulSum [100, 100, 100, 100, 100] u = Inr fee)"
    by (simp add: EstimateUnits_def sample_factory_def NewDefaultRules_def chunk_units_def MaxBaseSize_def k BuyYes_Bytes_eq
        BuyYes_ComputeUnits_def NewUint64Operator_def key_units_def uop_Add_def uop_MulAdd_def uop_Value_def safe_Add_def
        safe_Mul_def MaxUint64_def MulSum_exact)
  then show ?thesis
    by (auto simp: GenerateTransaction_def GenerateTransactionManual_def NewTxData_def Sign_def NewTransaction_def Let_def
        sample_factory_def)
qed

theorem estimate_covers_fee_witness:
  "\<exists>tx units fee. GenerateTransaction (\<lambda>_. []) 0 (\<lambda>_. NewDefaultRules) [100, 100, 100, 100, 100] 5000 [ActBuyYes sample_buy]
      (sample_factory (replicate 32 0 @ [1])) = Some (Inr tx) \<and>
    Transaction_Units view_handler NewDefaultRules (Transaction.truncate tx) = Inr units \<and>
    MulSum [100, 100, 100, 100, 100] units = Inr fee \<and> fee \<le> base_MaxFee (tx_Base tx)"
proof -
  let ?a = "replicate 32 0 @ [1] :: Address"
  obtain tx where tx: "GenerateTransaction (\<lambda>_. []) 0 (\<lambda>_. NewDefaultRules) [100, 100, 100, 100, 100] 5000 [ActBuyYes sample_buy]
      (sample_factory ?a) = Some (Inr tx)"
    using sample_buy_generate by blast
  have "suffix_chunks (StateKeysBalance ?a) \<le> 1"
    by (simp add: StateKeysBalance_eq wf_Address_def AddressLen_def suffix_chunks_def)
  from estimate_covers_fee [OF tx, of 1] tx this show ?thesis
    by (simp add: wf_Dimensions_def FeeDimensions_def announces_def sample_factory_def wf_Address_def AddressLen_def
        NewDefaultRules_def)
qed

theorem sponsor_suffix_excludes_witness:
  "\<exists>tx units i. GenerateTransaction (\<lambda>_. []) 0 (\<lambda>_. NewDefaultRules) [100, 100, 100, 100, 100] 5000 []
      (sample_factory (replicate 33 2)) = Some (Inr tx) \<and>
    Transaction_Units view_handler NewDefaultRules (Transaction.truncate tx) = Inr units \<and>
    Consume units (GetMaxBlockUnits NewDefaultRules) (NewManager []) = ((False, i), NewManager [])"
proof -
  let ?a = "replicate 33 2 :: Address"
  obtain tx where tx: "GenerateTransaction (\<lambda>_. []) 0 (\<lambda>_. NewDefaultRules) [100, 100, 100, 100, 100] 5000 []
      (sample_factory ?a) = Some (Inr tx)"
    using sample_generate by blast
  note t = sample_fields [OF this]
  have a: "wf_Address ?a" by (simp add: wf_Address_def AddressLen_def)
  have "Transaction_StateKeys view_handler (Transaction.truncate tx) = Inr [(StateKeysBalance ?a, PermRead)]"
    using no_action_keys [of "Transaction.truncate tx"] t a by simp
  from Transaction_Units_exact [OF this, of NewDefaultRules]
  obtain units where units: "Transaction_Units view_handler NewDefaultRules (Transaction.truncate tx) = Inr units"
    using suffix_chunks_balance [OF a] t
    by (simp add: exactly_def compute_units_def chunk_units_exact key_cost_def NewDefaultRules_def)
  have m: "wf_Manager (NewManager [])" by (simp add: wf_Manager_def NewManager_def)
  have "\<exists>i. Consume units (GetMaxBlockUnits NewDefaultRules) (NewManager []) = ((False, i), NewManager [])"
    by (rule sponsor_suffix_excludes [OF units _ _ m]) (use t a in simp_all)
  with tx units show ?thesis by blast
qed

end
