(* ===== verification/LoadIssuer.thy ===== *)
theory LoadIssuer
  imports TxBuilder
begin

text \<open>
  The load generator of \<^verbatim>\<open>load/issuer.go\<close>: it builds transactions without actions while its budget
  lasts, registers them with a node and tells a tracker. The websocket client and the tracker act on
  a world of the caller's choice; the clock is read by the caller. The lemmas show that the budget is
  exactly what the generated transactions may cost, and what a node does with such a transaction.
\<close>

section \<open>issuer.go\<close>

record 'w Issuer =
  authFactory :: AuthFactory
  currBalance :: u64
  ruleFactory :: "i64 \<Rightarrow> Rules"
  unitPrices :: Dimensions
  client_RegisterTx :: "SignedTransaction \<Rightarrow> 'w \<Rightarrow> go_error option \<times> 'w"
  tracker_Issue :: "bytes \<Rightarrow> 'w \<Rightarrow> 'w"

definition NewIssuer ::
  "AuthFactory \<Rightarrow> (i64 \<Rightarrow> Rules) \<Rightarrow> u64 \<Rightarrow> Dimensions \<Rightarrow>
   (SignedTransaction \<Rightarrow> 'w \<Rightarrow> go_error option \<times> 'w) \<Rightarrow> (bytes \<Rightarrow> 'w \<Rightarrow> 'w) \<Rightarrow> 'w Issuer" where
  "NewIssuer af rf bal prices cli tr =
     \<lparr>authFactory = af, currBalance = bal, ruleFactory = rf, unitPrices = prices,
      client_RegisterTx = cli, tracker_Issue = tr\<rparr>"

text \<open>\<open>now\<close> is the issuer's reading of the clock, \<open>clock\<close> a later one; \<open>None\<close> would be a panic.\<close>

definition GenerateTx ::
  "(bytes \<Rightarrow> bytes) \<Rightarrow> i64 \<Rightarrow> i64 \<Rightarrow> 'w Issuer \<Rightarrow> (SignedTransaction result \<times> 'w Issuer) option" where
  "GenerateTx sha256 clock now i =
     (case GenerateTransaction sha256 clock (ruleFactory i) (unitPrices i) now [] (authFactory i) of
        None \<Rightarrow> None
      | Some (Inl err) \<Rightarrow> Some (Inl err, i)
      | Some (Inr tx) \<Rightarrow>
          if base_MaxFee (tx_Base tx) > currBalance i
          then Some (Inl (Sentinel ErrTxGeneratorFundsExhausted), i)
          else Some (Inr tx, i\<lparr>currBalance := currBalance i - base_MaxFee (tx_Base tx)\<rparr>))"

definition IssueTx :: "'w Issuer \<Rightarrow> SignedTransaction \<Rightarrow> 'w \<Rightarrow> go_error option \<times> 'w" where
  "IssueTx i tx w =
     (case client_RegisterTx i tx w of
        (Some err, w') \<Rightarrow> (Some err, w')
      | (None, w') \<Rightarrow> (None, tracker_Issue i (tx_id tx) w'))"

text \<open>
  \<^verbatim>\<open>Listen\<close> blocks until the context is done: it looks at the context, and while it is not done
  the world goes on by \<open>tick\<close>.
\<close>

partial_function (option) Listen ::
  "('w \<Rightarrow> go_error option) \<Rightarrow> ('w \<Rightarrow> 'w) \<Rightarrow> 'w Issuer \<Rightarrow> 'w \<Rightarrow> (go_error option \<times> 'w) option" where
  "Listen ctxErr tick i w =
     (case ctxErr w of
        Some err \<Rightarrow> Some (Some err, w)
      | None \<Rightarrow> Listen ctxErr tick i (tick w))"

text \<open>\<^verbatim>\<open>Stop\<close> prints and does nothing else.\<close>

definition Stop :: "'w Issuer \<Rightarrow> 'w Issuer" where
  "Stop i = i"

section \<open>Runs of an issuer\<close>

text \<open>The transactions of a sequence of calls, one for each reading of the clock.\<close>

fun generate_all ::
  "(bytes \<Rightarrow> bytes) \<Rightarrow> (i64 \<times> i64) list \<Rightarrow> 'w Issuer \<Rightarrow> (SignedTransaction list \<times> 'w Issuer) option" where
  "generate_all sha256 [] i = Some ([], i)"
| "generate_all sha256 ((clock, now) # ts) i =
     (case GenerateTx sha256 clock now i of
        None \<Rightarrow> None
      | Some (Inl _, i') \<Rightarrow> generate_all sha256 ts i'
      | Some (Inr tx, i') \<Rightarrow> map_option (apfst (Cons tx)) (generate_all sha256 ts i'))"

definition max_cost :: "SignedTransaction list \<Rightarrow> nat" where
  "max_cost txs = sum_list (map (\<lambda>tx. unat (base_MaxFee (tx_Base tx))) txs)"

lemma GenerateTransaction_no_panic:
  "GenerateTransaction sha256 clock getRules prices now [] f \<noteq> None"
proof -
  have "EstimateUnits r [] f \<noteq> None" for r by (simp add: EstimateUnits_def Let_def split: prod.split)
  then show ?thesis
    by (simp add: GenerateTransaction_def GenerateTransactionManual_def NewTxData_def Sign_def
        NewTransaction_def Let_def split: option.split sum.split)
qed

lemma GenerateTx_cases:
  obtains (failed) e where "GenerateTx sha256 clock now i = Some (Inl e, i)"
  | (generated) tx where
      "GenerateTransaction sha256 clock (ruleFactory i) (unitPrices i) now [] (authFactory i) = Some (Inr tx)"
      "base_MaxFee (tx_Base tx) \<le> currBalance i"
      "GenerateTx sha256 clock now i =
         Some (Inr tx, i\<lparr>currBalance := currBalance i - base_MaxFee (tx_Base tx)\<rparr>)"
proof -
  obtain res where res: "GenerateTransaction sha256 clock (ruleFactory i) (unitPrices i) now [] (authFactory i) = Some res"
    using GenerateTransaction_no_panic by blast
  show thesis
  proof (cases res)
    case (Inl e)
    with res show thesis by (intro failed) (simp add: GenerateTx_def)
  next
    case (Inr tx)
    with res show thesis
      by (cases "currBalance i < base_MaxFee (tx_Base tx)")
         (auto simp: GenerateTx_def not_less intro: failed generated)
  qed
qed

text \<open>Without permission for the balance key no fee can be taken.\<close>

lemma Deduct_out_of_scope:
  assumes "wf_view v" and "\<not> checkScope v (BalanceKey a) PermRead"
  shows "fst (bh_Deduct view_handler a v fee) \<noteq> None"
proof
  assume "fst (bh_Deduct view_handler a v fee) = None"
  then obtain v1 where "bh_Deduct view_handler a v fee = (None, v1)" by (metis prod.collapse)
  from Deduct_view [OF assms(1) this] assms(2) show False
    by (auto simp: GetBalance_def TStateView_Mutable_def TStateView_GetValue_def)
qed

lemma balance_keys_differ: "wf_Address a \<Longrightarrow> StateKeysBalance a \<noteq> BalanceKey a"
  by (simp add: StateKeysBalance_eq BalanceKey_eq)

lemma Listen_returns:
  assumes "ctxErr ((tick ^^ n) w) = Some e"
  shows "\<exists>k \<le> n. \<exists>e'. ctxErr ((tick ^^ k) w) = Some e' \<and>
    Listen ctxErr tick i w = Some (Some e', (tick ^^ k) w)"
  using assms
proof (induction n arbitrary: w)
  case 0
  then show ?case by (simp add: Listen.simps [of ctxErr tick i w])
next
  case (Suc n)
  show ?case
  proof (cases "ctxErr w")
    case None
    from Suc.prems have "ctxErr ((tick ^^ n) (tick w)) = Some e" by (simp add: funpow_swap1)
    from Suc.IH [OF this] None show ?thesis
      by (auto simp: Listen.simps [of ctxErr tick i w] funpow_swap1 intro: exI [of _ "Suc _"])
  next
    case (Some e')
    then show ?thesis by (intro exI [of _ 0]) (simp add: Listen.simps [of ctxErr tick i w])
  qed
qed

section \<open>Properties\<close>

text \<open>
  C33: a load issuer never promises more than its budget. Whatever the clock, the rules and the
  signature scheme do, no call panics, the largest fees of the generated transactions and the balance
  that is left add up to the balance it started with, without wrap-around, and nothing else of the
  issuer changes.
\<close>

theorem issuer_stays_in_budget:
  "\<exists>txs b. generate_all sha256 ts i = Some (txs, i\<lparr>currBalance := b\<rparr>) \<and>
     max_cost txs + unat b = unat (currBalance i)"
proof (induction ts arbitrary: i)
  case Nil
  show ?case by (intro exI [of _ "[]"] exI [of _ "currBalance i"]) (simp add: max_cost_def)
next
  case (Cons t ts)
  obtain clock now where t: "t = (clock, now)" by force
  show ?case
  proof (cases rule: GenerateTx_cases [of sha256 clock now i])
    case (failed e)
    then show ?thesis using Cons.IH [of i] by (simp add: t)
  next
    case (generated tx)
    let ?fee = "base_MaxFee (tx_Base tx)"
    obtain txs b where "generate_all sha256 ts (i\<lparr>currBalance := currBalance i - ?fee\<rparr>) =
        Some (txs, i\<lparr>currBalance := b\<rparr>)" "max_cost txs + unat b = unat (currBalance i - ?fee)"
      using Cons.IH [of "i\<lparr>currBalance := currBalance i - ?fee\<rparr>"] by auto
    moreover have "unat (currBalance i - ?fee) + unat ?fee = unat (currBalance i)"
      using generated(2) by (simp add: unat_sub word_le_nat_alt)
    ultimately show ?thesis
      using generated(3) by (intro exI [of _ "tx # txs"] exI [of _ b]) (simp add: t max_cost_def)
  qed
qed

text \<open>
  C34: no transaction of a load issuer is ever executed. It has no actions, so the only key it
  declares is the sponsor's key, which is not the key balances are stored under; in a view with the
  declared keys the fee can therefore not be taken, and executing the transaction returns an error and
  leaves the view as it was.
\<close>

theorem issuer_tx_refused:
  assumes "GenerateTx sha256 clock now i = Some (Inr tx, i')" and "wf_Address (Sponsor (tx_Auth tx))"
    and "wf_view v" and "Transaction_StateKeys view_handler (Transaction.truncate tx) = Inr ks"
    and "view_scope v = ScopeKeys ks"
  shows "\<exists>e. Transaction_Execute sha256 rnd fm view_handler r (Transaction.truncate tx) v ts = (Inl e, v)"
proof -
  let ?t = "Transaction.truncate tx" and ?a = "Sponsor (tx_Auth tx)"
  have "tx_Actions tx = []"
    using assms(1) by (cases rule: GenerateTx_cases [of sha256 clock now i])
      (auto elim: GenerateTransaction_ok)
  then have "ks = [(StateKeysBalance ?a, PermRead)]"
    using no_action_keys [of ?t] assms(2,4) by simp
  then have "\<not> checkScope v (BalanceKey ?a) PermRead"
    using assms(5) balance_keys_differ [OF assms(2)]
    by (simp add: checkScope_def Keys_Has_def Keys_lookup_def Perm_Has_consts)
  from Deduct_out_of_scope [OF assms(3) this]
  have no: "bh_Deduct view_handler (Sponsor (tx_Auth ?t)) v fee \<noteq> (None, v1)" for fee v1
    by (metis fst_conv truncated_tx(3))
  obtain res v' where ex: "Transaction_Execute sha256 rnd fm view_handler r ?t v ts = (res, v')" by force
  from ex show ?thesis
    by (cases rule: Transaction_Execute_cases) (use no Deduct_view_fail [OF assms(3)] ex in auto)
qed

definition sample_issuer :: "unit Issuer" where
  "sample_issuer = NewIssuer (sample_factory (replicate 32 0 @ [1])) (\<lambda>_. NewDefaultRules) 100000
     [100, 100, 100, 100, 100] (\<lambda>_ w. (None, w)) (\<lambda>_ w. w)"

theorem issuer_tx_refused_witness:
  "\<exists>tx i' ks e. GenerateTx (\<lambda>_. []) 0 5000 sample_issuer = Some (Inr tx, i') \<and>
     Transaction_StateKeys view_handler (Transaction.truncate tx) = Inr ks \<and>
     Transaction_Execute (\<lambda>_. []) (\<lambda>_. Inr []) (NewManager []) view_handler NewDefaultRules
       (Transaction.truncate tx) (bare_view sample_contents ks) 5000 = (Inl e, bare_view sample_contents ks)"
proof -
  let ?a = "replicate 32 0 @ [1] :: Address"
  obtain tx where g: "GenerateTransaction (\<lambda>_. []) 0 (\<lambda>_. NewDefaultRules) [100, 100, 100, 100, 100] 5000 []
      (sample_factory ?a) = Some (Inr tx)" "base_MaxFee (tx_Base tx) = 23900"
    using sample_generate by blast
  note t = sample_fields [OF g(1)]
  have a: "wf_Address ?a" by (simp add: wf_Address_def AddressLen_def)
  have tx: "GenerateTx (\<lambda>_. []) 0 5000 sample_issuer = Some (Inr tx, sample_issuer\<lparr>currBalance := 76100\<rparr>)"
    using g by (simp add: GenerateTx_def sample_issuer_def NewIssuer_def)
  have ks: "Transaction_StateKeys view_handler (Transaction.truncate tx) = Inr [(StateKeysBalance ?a, PermRead)]"
    using no_action_keys [of "Transaction.truncate tx"] t a by simp
  from issuer_tx_refused [OF tx _ wf_bare_view(1) ks wf_bare_view(2)] t a tx ks show ?thesis by metis
qed

end
