(* ===== verification/CommandLine.thy ===== *)
theory CommandLine
  imports CliStorage LoadIssuer
begin

text \<open>
  The command line tool \<^verbatim>\<open>cmd/prediction-cli\<close>: its key, chain and genesis commands, the default
  actor, sending a transaction and waiting for its result, the flags and the command tree with
  cobra's dispatch. The random source, the files, the signature schemes and the websocket are
  parameters. The lemmas show what a session of commands keeps of the database and what each command
  does on every branch.
\<close>

section \<open>auth: making and loading private keys\<close>

text \<open>The signature libraries: random generation, public keys, and the check of a BLS scalar.\<close>

record crypto =
  ed_Generate :: "bytes \<Rightarrow> bytes result"
  ed_PublicKey :: "bytes \<Rightarrow> bytes"
  secp_Generate :: "bytes \<Rightarrow> bytes result"
  secp_PublicKey :: "bytes \<Rightarrow> bytes"
  bls_Generate :: "bytes \<Rightarrow> bytes result"
  bls_PrivateKeyFromBytes :: "bytes \<Rightarrow> bytes result"
  bls_PublicKey :: "bytes \<Rightarrow> bytes"
  crypto_sha256 :: "bytes \<Rightarrow> bytes"

text \<open>A Go array of \<open>n\<close> bytes.\<close>

definition array_of :: "nat \<Rightarrow> bytes \<Rightarrow> bytes" where
  "array_of n bs = take n (bs @ replicate n 0)"

definition key_address :: "crypto \<Rightarrow> u8 \<Rightarrow> bytes \<Rightarrow> Address" where
  "key_address c typeID pk = CreateAddress typeID (array_of IDLen (crypto_sha256 c pk))"

definition ED25519PrivateKeyFactory :: "crypto \<Rightarrow> PrivateKeyFactory" where
  "ED25519PrivateKeyFactory c =
     \<lparr>factory_Generate = (\<lambda>random. case ed_Generate c random of
        Inl err \<Rightarrow> Inl err
      | Inr p0 \<Rightarrow> (let p = array_of 64 p0 in
          Inr \<lparr>pk_Address = key_address c ED25519ID (ed_PublicKey c p), pk_Bytes = p\<rparr>)),
      factory_Load = (\<lambda>p. if length p \<noteq> 64 then Inl (ErrNew ''invalid private key size'')
        else Inr \<lparr>pk_Address = key_address c ED25519ID (ed_PublicKey c p), pk_Bytes = p\<rparr>)\<rparr>"

definition SECP256R1PrivateKeyFactory :: "crypto \<Rightarrow> PrivateKeyFactory" where
  "SECP256R1PrivateKeyFactory c =
     \<lparr>factory_Generate = (\<lambda>random. case secp_Generate c random of
        Inl err \<Rightarrow> Inl err
      | Inr p0 \<Rightarrow> (let p = array_of 32 p0 in
          Inr \<lparr>pk_Address = key_address c SECP256R1ID (secp_PublicKey c p), pk_Bytes = p\<rparr>)),
      factory_Load = (\<lambda>p. if length p \<noteq> 32 then Inl (ErrNew ''invalid private key size'')
        else Inr \<lparr>pk_Address = key_address c SECP256R1ID (secp_PublicKey c p), pk_Bytes = p\<rparr>)\<rparr>"

definition BLSPrivateKeyFactory :: "crypto \<Rightarrow> PrivateKeyFactory" where
  "BLSPrivateKeyFactory c =
     \<lparr>factory_Generate = (\<lambda>random. case bls_Generate c random of
        Inl err \<Rightarrow> Inl err
      | Inr p0 \<Rightarrow> (let p = array_of 32 p0 in
          Inr \<lparr>pk_Address = key_address c BLSID (bls_PublicKey c p), pk_Bytes = p\<rparr>)),
      factory_Load = (\<lambda>p. if length p \<noteq> 32 then Inl (ErrNew ''invalid private key size'')
        else case bls_PrivateKeyFromBytes c p of
          Inl err \<Rightarrow> Inl err
        | Inr privKey \<Rightarrow> Inr \<lparr>pk_Address = key_address c BLSID (bls_PublicKey c privKey), pk_Bytes = p\<rparr>)\<rparr>"

definition default_provider :: "crypto \<Rightarrow> AuthProvider" where
  "default_provider c =
     snd (WithDefaultPrivateKeyFactories (ED25519PrivateKeyFactory c) (SECP256R1PrivateKeyFactory c)
       (BLSPrivateKeyFactory c) [])"

section \<open>key.go\<close>

definition keyCmd_RunE :: "string list \<Rightarrow> ('w, unit) cmd" where
  "keyCmd_RunE args = fail (Sentinel ErrMissingSubcommand)"

definition genKeyCmd_PreRunE :: "AuthProvider \<Rightarrow> string list \<Rightarrow> ('w, unit) cmd" where
  "genKeyCmd_PreRunE p args =
     (if length args \<noteq> 1 then fail (Sentinel ErrInvalidArgs)
      else case CheckType p (args ! 0) of Some err \<Rightarrow> fail err | None \<Rightarrow> done_with ())"

definition genKeyCmd_RunE :: "'w cli_env \<Rightarrow> AuthProvider \<Rightarrow> bytes \<Rightarrow> string list \<Rightarrow> ('w, unit) cmd" where
  "genKeyCmd_RunE E p random args =
     andthen (of_result (GeneratePrivateKey p random (args ! 0))) (\<lambda>priv.
     andthen (StoreKey E priv) (\<lambda>_. StoreDefaultKey E (pk_Address priv)))"

definition importKeyCmd_PreRunE :: "AuthProvider \<Rightarrow> string list \<Rightarrow> ('w, unit) cmd" where
  "importKeyCmd_PreRunE p args =
     (if length args \<noteq> 2 then fail (Sentinel ErrInvalidArgs)
      else case CheckType p (args ! 0) of Some err \<Rightarrow> fail err | None \<Rightarrow> done_with ())"

definition importKeyCmd_RunE ::
  "'w cli_env \<Rightarrow> AuthProvider \<Rightarrow> (string \<Rightarrow> bytes result) \<Rightarrow> string list \<Rightarrow> ('w, unit) cmd" where
  "importKeyCmd_RunE E p os_ReadFile args =
     andthen (of_result (LoadPrivateKey p os_ReadFile (args ! 0) (args ! 1))) (\<lambda>priv.
     andthen (StoreKey E priv) (\<lambda>_. StoreDefaultKey E (pk_Address priv)))"

definition setKeyCmd_RunE :: "'w cli_env \<Rightarrow> string list \<Rightarrow> ('w, unit) cmd" where
  "setKeyCmd_RunE E args = SetKey E"

definition balanceKeyCmd_RunE :: "'w cli_env \<Rightarrow> bool \<Rightarrow> string list \<Rightarrow> ('w, unit) cmd" where
  "balanceKeyCmd_RunE E checkAllChains args = cli_Balance E checkAllChains"

section \<open>chain.go\<close>

definition chainCmd_RunE :: "string list \<Rightarrow> ('w, unit) cmd" where
  "chainCmd_RunE args = fail (Sentinel ErrMissingSubcommand)"

definition importChainCmd_RunE :: "'w cli_env \<Rightarrow> string list \<Rightarrow> ('w, unit) cmd" where
  "importChainCmd_RunE E args = ImportChain E"

definition setChainCmd_RunE :: "'w cli_env \<Rightarrow> string list \<Rightarrow> ('w, unit) cmd" where
  "setChainCmd_RunE E args = SetDefaultChain E"

definition importAvalancheCliChainCmd_PreRunE :: "string list \<Rightarrow> ('w, unit) cmd" where
  "importAvalancheCliChainCmd_PreRunE args =
     (if length args \<noteq> 1 then fail (Sentinel ErrInvalidArgs) else done_with ())"

definition importAvalancheCliChainCmd_RunE :: "'w cli_env \<Rightarrow> string list \<Rightarrow> ('w, unit) cmd" where
  "importAvalancheCliChainCmd_RunE E args = ImportClusterInfo E (args ! 0)"

definition PrintChainInfo :: "'w cli_env \<Rightarrow> ('w, unit) cmd" where
  "PrintChainInfo E =
     andthen (GetChains E) (\<lambda>chainMap.
     andthen (SelectChain E ''select chainID'' chainMap) (\<lambda>(_, uris).
       if length uris = 0 then panicked
       else andthen (rpc_Network E (uris ! 0)) (\<lambda>_. done_with ())))"

definition chainInfoCmd_RunE :: "'w cli_env \<Rightarrow> string list \<Rightarrow> ('w, unit) cmd" where
  "chainInfoCmd_RunE E args = PrintChainInfo E"

text \<open>\<^verbatim>\<open>WatchChain\<close> prints blocks from a websocket for as long as it runs; it is a parameter.\<close>

definition watchChainCmd_RunE :: "(bool \<Rightarrow> ('w, unit) cmd) \<Rightarrow> bool \<Rightarrow> string list \<Rightarrow> ('w, unit) cmd" where
  "watchChainCmd_RunE watchChain hideTxs args = watchChain hideTxs"

section \<open>genesis.go\<close>

definition genesisCmd_RunE :: "string list \<Rightarrow> ('w, unit) cmd" where
  "genesisCmd_RunE args = fail (Sentinel ErrMissingSubcommand)"

text \<open>\<^verbatim>\<open>strconv.ParseUint(s, 10, 64)\<close> and \<^verbatim>\<open>fees.ParseDimensions\<close>.\<close>

fun parse_digits :: "nat \<Rightarrow> string \<Rightarrow> u64 result" where
  "parse_digits n [] = Inr (word_of_nat n)"
| "parse_digits n (c # cs) =
     (let d = of_char c :: nat in
      if d < 48 \<or> 57 < d then Inl (Sentinel ErrSyntax)
      else let n' = n * 10 + (d - 48) in
        if n' \<ge> 2 ^ 64 then Inl (Sentinel ErrRange) else parse_digits n' cs)"

definition ParseUint :: "string \<Rightarrow> u64 result" where
  "ParseUint s =
     (case (if s = [] then Inl (Sentinel ErrSyntax) else parse_digits 0 s) of
        Inl err \<Rightarrow> Inl (Wrapf ''strconv.ParseUint: parsing %q: %w'' [FStr s] err)
      | Inr v \<Rightarrow> Inr v)"

fun parse_dims :: "string list \<Rightarrow> Dimensions result" where
  "parse_dims [] = Inr []"
| "parse_dims (s # ss) =
     (case ParseUint s of
        Inl err \<Rightarrow> Inl err
      | Inr v \<Rightarrow> (case parse_dims ss of Inl err \<Rightarrow> Inl err | Inr d \<Rightarrow> Inr (v # d)))"

definition ParseDimensions :: "string list \<Rightarrow> Dimensions result" where
  "ParseDimensions raw =
     (if length raw \<noteq> FeeDimensions then Inl (Sentinel ErrWrongDimensionSize) else parse_dims raw)"

section \<open>root.go: the flags\<close>

record cli_flags =
  dbPath :: string
  genesisFile :: string
  minUnitPrice :: "string list"
  maxBlockUnits :: "string list"
  windowTargetUnits :: "string list"
  minBlockGap :: i64
  validityWindow :: i64
  hideTxs :: bool
  checkAllChains :: bool
  prometheusBaseURI :: string
  prometheusOpenBrowser :: bool
  prometheusFile :: string
  prometheusData :: string
  startPrometheus :: bool

text \<open>
  Declaring a flag stores its default in the variable. The flags are declared in groups: those of
  \<^verbatim>\<open>genesis generate\<close>, those of \<^verbatim>\<open>prometheus generate\<close>, where \<open>now\<close> is the Unix time at which
  the tool starts, and one each of \<^verbatim>\<open>key balance\<close>, \<^verbatim>\<open>chain watch\<close> and the root.
\<close>

definition genesis_flag_defaults :: "cli_flags \<Rightarrow> cli_flags" where
  "genesis_flag_defaults fl =
     fl\<lparr>genesisFile := ''genesis.json'', minUnitPrice := [], maxBlockUnits := [], windowTargetUnits := [],
        minBlockGap := - 1, validityWindow := - 1\<rparr>"

definition key_flag_defaults :: "cli_flags \<Rightarrow> cli_flags" where
  "key_flag_defaults fl = fl\<lparr>checkAllChains := False\<rparr>"

definition chain_flag_defaults :: "cli_flags \<Rightarrow> cli_flags" where
  "chain_flag_defaults fl = fl\<lparr>hideTxs := False\<rparr>"

definition prometheus_flag_defaults :: "nat \<Rightarrow> cli_flags \<Rightarrow> cli_flags" where
  "prometheus_flag_defaults now fl =
     fl\<lparr>prometheusBaseURI := ''http://localhost:9090'', prometheusOpenBrowser := True,
        prometheusFile := ''/tmp/prometheus.yaml'', prometheusData := ''/tmp/prometheus-'' @ decimal now,
        startPrometheus := True\<rparr>"

definition zero_flags :: cli_flags where
  "zero_flags =
     \<lparr>dbPath = [], genesisFile = [], minUnitPrice = [], maxBlockUnits = [], windowTargetUnits = [],
      minBlockGap = 0, validityWindow = 0, hideTxs = False, checkAllChains = False, prometheusBaseURI = [],
      prometheusOpenBrowser = False, prometheusFile = [], prometheusData = [], startPrometheus = False\<rparr>"

definition default_flags :: "nat \<Rightarrow> cli_flags" where
  "default_flags now =
     (let f1 = zero_flags\<lparr>dbPath := ''.prediction-cli''\<rparr>;
          f2 = genesis_flag_defaults f1;
          f3 = key_flag_defaults f2;
          f4 = chain_flag_defaults f3
      in prometheus_flag_defaults now f4)"

lemmas default_flags_defs =
  default_flags_def zero_flags_def genesis_flag_defaults_def key_flag_defaults_def chain_flag_defaults_def
  prometheus_flag_defaults_def Let_def

section \<open>genesis.go: generating a genesis\<close>

definition genGenesisCmd_PreRunE :: "string list \<Rightarrow> ('w, unit) cmd" where
  "genGenesisCmd_PreRunE args =
     (if length args \<noteq> 1 then fail (Sentinel ErrInvalidArgs) else done_with ())"

text \<open>One optional list of dimensions: when the flag was given, it must parse.\<close>

definition with_dims :: "string list \<Rightarrow> (Dimensions \<Rightarrow> Rules \<Rightarrow> Rules) \<Rightarrow> Rules \<Rightarrow> Rules result" where
  "with_dims raw upd r =
     (if length raw > 0
      then case ParseDimensions raw of Inl err \<Rightarrow> Inl err | Inr d \<Rightarrow> Inr (upd d r)
      else Inr r)"

definition flagged_rules :: "cli_flags \<Rightarrow> Rules \<Rightarrow> Rules result" where
  "flagged_rules fl r0 =
     (case with_dims (minUnitPrice fl) (\<lambda>d r. r\<lparr>GetMinUnitPrice := d\<rparr>) r0 of
        Inl err \<Rightarrow> Inl err
      | Inr r1 \<Rightarrow>
       (case with_dims (maxBlockUnits fl) (\<lambda>d r. r\<lparr>GetMaxBlockUnits := d\<rparr>) r1 of
          Inl err \<Rightarrow> Inl err
        | Inr r2 \<Rightarrow>
         (case with_dims (windowTargetUnits fl) (\<lambda>d r. r\<lparr>GetWindowTargetUnits := d\<rparr>) r2 of
            Inl err \<Rightarrow> Inl err
          | Inr r3 \<Rightarrow>
             (let r4 = (if i64_le 0 (minBlockGap fl) then r3\<lparr>GetMinBlockGap := minBlockGap fl\<rparr> else r3);
                  r5 = (if i64_le 0 (validityWindow fl) then r4\<lparr>GetValidityWindow := validityWindow fl\<rparr> else r4)
              in Inr r5))))"

text \<open>Files and JSON: reading, decoding the allocations, encoding the genesis, writing with mode 0600.\<close>

record 'w genesis_io =
  io_ReadFile :: "string \<Rightarrow> ('w, bytes) cmd"
  io_Unmarshal :: "bytes \<Rightarrow> CustomAllocation list result"
  io_Marshal :: "DefaultGenesis \<Rightarrow> bytes result"
  io_WriteFile :: "string \<Rightarrow> bytes \<Rightarrow> nat \<Rightarrow> ('w, unit) cmd"

definition fsModeWrite :: nat where
  "fsModeWrite = 6 * 8 * 8"

definition genGenesisCmd_RunE :: "'w genesis_io \<Rightarrow> cli_flags \<Rightarrow> string list \<Rightarrow> ('w, unit) cmd" where
  "genGenesisCmd_RunE io fl args =
     andthen (io_ReadFile io (args ! 0)) (\<lambda>a.
     andthen (of_result (io_Unmarshal io a)) (\<lambda>allocs.
     andthen (of_result (flagged_rules fl (dg_Rules (NewDefaultGenesis allocs)))) (\<lambda>r.
     andthen (of_result (io_Marshal io ((NewDefaultGenesis allocs)\<lparr>dg_Rules := r\<rparr>))) (\<lambda>b.
       io_WriteFile io (genesisFile fl) b fsModeWrite))))"

section \<open>handler.go\<close>

text \<open>
  Which signature scheme the default actor signs with, and the private key it was made from. The
  conversion of a slice to the array type of a scheme panics when the slice is too short.
\<close>

datatype actor_factory = ED25519Factory bytes | SECP256R1Factory bytes | BLSFactory bytes

record actor =
  actor_chainID :: bytes
  actor_key :: PrivateKey
  actor_factory :: actor_factory
  actor_jcli :: string
  actor_bcli :: JSONRPCClient

text \<open>\<open>connect\<close> opens the websocket to an address.\<close>

definition DefaultActor :: "'w cli_env \<Rightarrow> crypto \<Rightarrow> (string \<Rightarrow> ('w, unit) cmd) \<Rightarrow> ('w, actor) cmd" where
  "DefaultActor E c connect =
     andthen (GetDefaultKey E) (\<lambda>(addr, priv).
     andthen
       (if addr ! 0 = ED25519ID then andthen (to_array 64 priv) (\<lambda>p. done_with (ED25519Factory p))
        else if addr ! 0 = SECP256R1ID then andthen (to_array 32 priv) (\<lambda>p. done_with (SECP256R1Factory p))
        else if addr ! 0 = BLSID
        then andthen (of_result (bls_PrivateKeyFromBytes c priv)) (\<lambda>p. done_with (BLSFactory p))
        else fail (Sentinel ErrCliInvalidAddress)) (\<lambda>factory.
     andthen (GetDefaultChain E) (\<lambda>(chainID, uris).
       if length uris = 0 then panicked
       else andthen (connect (uris ! 0)) (\<lambda>_.
         done_with \<lparr>actor_chainID = chainID, actor_key = \<lparr>pk_Address = addr, pk_Bytes = priv\<rparr>,
           actor_factory = factory, actor_jcli = uris ! 0, actor_bcli = NewJSONRPCClient (uris ! 0)\<rparr>))))"

definition handler_GetBalance :: "'w transport \<Rightarrow> JSONRPCClient \<Rightarrow> Address \<Rightarrow> ('w, u64) cmd" where
  "handler_GetBalance net cli addr = (\<lambda>w.
     case client_Balance net cli addr w of
       ((balance, Some err), w') \<Rightarrow> (Some (Inl err), w')
     | ((balance, None), w') \<Rightarrow> if balance = 0 then (Some (Inr 0), w') else (Some (Inr balance), w'))"

definition cli_GetParser :: "'auth vm_globals \<times> 'auth TxTypeParser \<Rightarrow> 'auth TxTypeParser" where
  "cli_GetParser g = snd g"

section \<open>resolutions.go\<close>

text \<open>
  The loop over the messages of the websocket. The variable \<open>seen\<close> is the code's \<open>result\<close>, which
  is nil until the own transaction was seen; \<open>None\<close> as the value is a loop that never returns.
\<close>

partial_function (option) await_tx ::
  "('w, bytes \<times> Result option) cmd \<Rightarrow> bytes \<Rightarrow> Result option \<Rightarrow> 'w \<Rightarrow>
   ((Result option) result option \<times> 'w) option" where
  "await_tx listenTx own seen w =
     (case listenTx w of
        (None, w') \<Rightarrow> Some (None, w')
      | (Some (Inl err), w') \<Rightarrow> Some (Some (Inl err), w')
      | (Some (Inr (txID, txResult)), w') \<Rightarrow>
          if txID = own then Some (Some (Inr txResult), w')
          else if seen = None then Some (Some (Inl (Errorf ''tx %s expired'' [FBytes txID])), w')
          else await_tx listenTx own seen w')"

record 'w tx_client =
  tc_RuleFactory :: "('w, i64 \<Rightarrow> Rules) cmd"
  tc_UnitPrices :: "('w, Dimensions) cmd"
  tc_RegisterTx :: "SignedTransaction \<Rightarrow> ('w, unit) cmd"
  tc_ListenTx :: "('w, bytes \<times> Result option) cmd"

text \<open>Reading \<^verbatim>\<open>result.Success\<close> of a nil result panics.\<close>

definition prepare_tx ::
  "(bytes \<Rightarrow> bytes) \<Rightarrow> i64 \<Rightarrow> i64 \<Rightarrow> 'w tx_client \<Rightarrow> Action list \<Rightarrow> AuthFactory \<Rightarrow>
   ('w, SignedTransaction) cmd" where
  "prepare_tx sha256 clock now c actions factory =
     andthen (tc_RuleFactory c) (\<lambda>ruleFactory.
     andthen (tc_UnitPrices c) (\<lambda>unitPrices.
     andthen (\<lambda>w. (GenerateTransaction sha256 clock ruleFactory unitPrices now actions factory, w)) (\<lambda>tx.
     andthen (tc_RegisterTx c tx) (\<lambda>_. done_with tx))))"

definition sendAndWait ::
  "(bytes \<Rightarrow> bytes) \<Rightarrow> i64 \<Rightarrow> i64 \<Rightarrow> 'w tx_client \<Rightarrow> Action list \<Rightarrow> AuthFactory \<Rightarrow> 'w \<Rightarrow>
   ((bool \<times> bytes) result option \<times> 'w) option" where
  "sendAndWait sha256 clock now c actions factory w =
     (case prepare_tx sha256 clock now c actions factory w of
        (None, w') \<Rightarrow> Some (None, w')
      | (Some (Inl err), w') \<Rightarrow> Some (Some (Inl err), w')
      | (Some (Inr tx), w') \<Rightarrow>
          map_option (\<lambda>(r, w2). (case r of
              None \<Rightarrow> None
            | Some (Inl err) \<Rightarrow> Some (Inl err)
            | Some (Inr None) \<Rightarrow> None
            | Some (Inr (Some res)) \<Rightarrow> Some (Inr (Success res, tx_id tx)), w2))
            (await_tx (tc_ListenTx c) (tx_id tx) None w'))"

text \<open>What \<^verbatim>\<open>handleTx\<close> prints: one line for a failed transaction, one for each action otherwise.\<close>

fun action_type :: "Action \<Rightarrow> string" where
  "action_type (ActCreateMarket _) = ''*actions.CreateMarket''"
| "action_type (ActBuyYes _) = ''*actions.BuyYes''"
| "action_type (ActBuyNo _) = ''*actions.BuyNo''"

datatype tx_line =
    FailedLine bytes Address "go_error option" u64 u64 Dimensions
  | ActionLine bytes Address string u64 u64 Dimensions

definition handleTx :: "SignedTransaction \<Rightarrow> Result \<Rightarrow> tx_line list" where
  "handleTx tx res =
     (let actor = Actor (tx_Auth tx) in
      if \<not> Success res
      then [FailedLine (tx_id tx) actor (result_Error res) (result_Fee res) (base_MaxFee (tx_Base tx)) (result_Units res)]
      else map (\<lambda>a. ActionLine (tx_id tx) actor (action_type a) (result_Fee res) (base_MaxFee (tx_Base tx))
             (result_Units res)) (tx_Actions tx))"

section \<open>action.go and prometheus.go\<close>

definition actionCmd_RunE :: "string list \<Rightarrow> ('w, unit) cmd" where
  "actionCmd_RunE args = fail (Sentinel ErrMissingSubcommand)"

definition prometheusCmd_RunE :: "string list \<Rightarrow> ('w, unit) cmd" where
  "prometheusCmd_RunE args = fail (Sentinel ErrMissingSubcommand)"

text \<open>\<open>generate\<close> writes the configuration file for the endpoints of a chain; it is a parameter.\<close>

type_synonym 'w prometheus =
  "string list \<Rightarrow> string \<Rightarrow> bytes \<Rightarrow> bool \<Rightarrow> bool \<Rightarrow> string \<Rightarrow> string \<Rightarrow> ('w, unit) cmd"

definition GeneratePrometheus ::
  "'w cli_env \<Rightarrow> 'w prometheus \<Rightarrow> string \<Rightarrow> bool \<Rightarrow> bool \<Rightarrow> string \<Rightarrow> string \<Rightarrow> ('w, unit) cmd" where
  "GeneratePrometheus E generate baseURI openBrowser start file data =
     andthen (GetChains E) (\<lambda>chainMap.
     andthen (SelectChain E ''select chainID'' chainMap) (\<lambda>(chainID, uris).
       generate uris baseURI chainID openBrowser start file data))"

definition generatePrometheusCmd_RunE ::
  "'w cli_env \<Rightarrow> 'w prometheus \<Rightarrow> cli_flags \<Rightarrow> string list \<Rightarrow> ('w, unit) cmd" where
  "generatePrometheusCmd_RunE E generate fl args =
     GeneratePrometheus E generate (prometheusBaseURI fl) (prometheusOpenBrowser fl) (startPrometheus fl)
       (prometheusFile fl) (prometheusData fl)"

section \<open>cobra: finding and running a command\<close>

datatype 'w command = Command (Use: string)
  (PreRunE: "(string list \<Rightarrow> ('w, unit) cmd) option") (RunE: "(string list \<Rightarrow> ('w, unit) cmd) option")
  (commands: "'w command list")

definition command_Name :: "'w command \<Rightarrow> string" where
  "command_Name c = takeWhile (\<lambda>x. x \<noteq> CHR '' '') (Use c)"

text \<open>The first command with the name, or else the only one whose name starts with it.\<close>

definition findNext :: "'w command list \<Rightarrow> string \<Rightarrow> 'w command option" where
  "findNext cs next =
     (case find (\<lambda>c. command_Name c = next) cs of
        Some c \<Rightarrow> Some c
      | None \<Rightarrow>
         (case filter (\<lambda>c. take (length next) (command_Name c) = next) cs of
            [c] \<Rightarrow> Some c
          | _ \<Rightarrow> None))"

text \<open>Arguments are those that are left when the flags are taken out.\<close>

fun innerfind :: "'w command \<Rightarrow> string list \<Rightarrow> 'w command \<times> string list" where
  "innerfind c [] = (c, [])"
| "innerfind c (a # as) =
     (case findNext (commands c) a of Some c' \<Rightarrow> innerfind c' as | None \<Rightarrow> (c, a # as))"

text \<open>Leftover arguments of a root with subcommands are an unknown command; no command restricts its arguments.\<close>

definition legacyArgs :: "bool \<Rightarrow> 'w command \<Rightarrow> string list \<Rightarrow> go_error option" where
  "legacyArgs hasParent cmd args =
     (if commands cmd = [] then None
      else if \<not> hasParent \<and> length args > 0
      then Some (Errorf ''unknown command %q for %q'' [FStr (args ! 0), FStr (command_Name cmd)])
      else None)"

text \<open>The found command is the root exactly when no argument was used up.\<close>

definition cobra_Find :: "'w command \<Rightarrow> string list \<Rightarrow> 'w command \<times> string list \<times> go_error option" where
  "cobra_Find root args =
     (let (commandFound, a) = innerfind root args
      in (commandFound, a, legacyArgs (length a < length args) commandFound a))"

text \<open>
  The hooks around a runnable command: the root's persistent hooks surround it, and an error skips what
  comes after it. What the first hook leaves in a variable is passed to the second. The flags are
  parsed before, into the record of flags; the program's commands have no required flags, no flag groups
  and none of the other hooks (\<^verbatim>\<open>Run\<close>, \<^verbatim>\<open>PostRun\<close> and their variants).
\<close>

definition command_execute ::
  "('w, 'h) cmd \<Rightarrow> ('h \<Rightarrow> ('w, unit) cmd) \<Rightarrow> 'w command \<Rightarrow> (string list \<Rightarrow> ('w, unit) cmd) \<Rightarrow> string list \<Rightarrow>
   ('w, unit) cmd" where
  "command_execute preRun postRun c run a =
     andthen preRun (\<lambda>h.
     andthen (case PreRunE c of None \<Rightarrow> done_with () | Some pre \<Rightarrow> pre a) (\<lambda>_.
     andthen (run a) (\<lambda>_. postRun h)))"

text \<open>A command that cannot be run asks for help, which is printed and is not an error.\<close>

definition cobra_Execute ::
  "('w, 'h) cmd \<Rightarrow> ('h \<Rightarrow> ('w, unit) cmd) \<Rightarrow> 'w command \<Rightarrow> string list \<Rightarrow> ('w, unit) cmd" where
  "cobra_Execute preRun postRun root args =
     (case cobra_Find root args of
        (cmd, flags, Some err) \<Rightarrow> fail err
      | (cmd, flags, None) \<Rightarrow>
         (case RunE cmd of
            None \<Rightarrow> done_with ()
          | Some run \<Rightarrow> command_execute preRun postRun cmd run flags))"

section \<open>root.go: the command tree\<close>

text \<open>Everything outside the tool that its commands use.\<close>

record 'w tool =
  tool_env :: "'w cli_env"
  tool_provider :: AuthProvider
  tool_random :: bytes
  tool_ReadFile :: "string \<Rightarrow> bytes result"
  tool_io :: "'w genesis_io"
  tool_watch :: "bool \<Rightarrow> ('w, unit) cmd"
  tool_prometheus :: "'w prometheus"
  tool_open :: "string \<Rightarrow> ('w, unit) cmd"
  tool_close :: "('w, unit) cmd"
  tool_builtins :: "'w command list"

definition key_commands :: "'w tool \<Rightarrow> cli_flags \<Rightarrow> 'w command list" where
  "key_commands t fl =
     [Command ''generate [ed25519/secp256r1/bls]'' (Some (genKeyCmd_PreRunE (tool_provider t)))
        (Some (genKeyCmd_RunE (tool_env t) (tool_provider t) (tool_random t))) [],
      Command ''import [type] [path]'' (Some (importKeyCmd_PreRunE (tool_provider t)))
        (Some (importKeyCmd_RunE (tool_env t) (tool_provider t) (tool_ReadFile t))) [],
      Command ''set'' None (Some (setKeyCmd_RunE (tool_env t))) [],
      Command ''balance'' None (Some (balanceKeyCmd_RunE (tool_env t) (checkAllChains fl))) []]"

definition chain_commands :: "'w tool \<Rightarrow> cli_flags \<Rightarrow> 'w command list" where
  "chain_commands t fl =
     [Command ''import'' None (Some (importChainCmd_RunE (tool_env t))) [],
      Command ''set'' None (Some (setChainCmd_RunE (tool_env t))) [],
      Command ''info'' None (Some (chainInfoCmd_RunE (tool_env t))) [],
      Command ''import-cli [path]'' (Some importAvalancheCliChainCmd_PreRunE)
        (Some (importAvalancheCliChainCmd_RunE (tool_env t))) [],
      Command ''watch'' None (Some (watchChainCmd_RunE (tool_watch t) (hideTxs fl))) []]"

definition rootCmd :: "'w tool \<Rightarrow> cli_flags \<Rightarrow> 'w command" where
  "rootCmd t fl =
     Command ''prediction-cli'' None None
       ([Command ''genesis'' None (Some genesisCmd_RunE)
           [Command ''generate [custom allocates file] [options]'' (Some genGenesisCmd_PreRunE)
              (Some (genGenesisCmd_RunE (tool_io t) fl)) []],
         Command ''key'' None (Some keyCmd_RunE) (key_commands t fl),
         Command ''chain'' None (Some chainCmd_RunE) (chain_commands t fl),
         Command ''action'' None (Some actionCmd_RunE) [],
         Command ''prometheus'' None (Some prometheusCmd_RunE)
           [Command ''generate'' None
              (Some (generatePrometheusCmd_RunE (tool_env t) (tool_prometheus t) fl)) []]] @
        tool_builtins t)"

text \<open>
  The hooks of the root command open the database and close it. The handler of the tool wraps the one
  of the library, which holds the controller; the open database is part of the world.
\<close>

record Controller =
  databasePath :: string

record cli_Handler =
  handler_c :: Controller

record Handler =
  handler_h :: cli_Handler

definition NewController :: "string \<Rightarrow> Controller" where
  "NewController path = \<lparr>databasePath = path\<rparr>"

definition DatabasePath :: "Controller \<Rightarrow> string" where
  "DatabasePath c = databasePath c"

definition Controller_Symbol :: "Controller \<Rightarrow> string" where
  "Controller_Symbol c = consts_Symbol"

definition Controller_HandleTx :: "Controller \<Rightarrow> SignedTransaction \<Rightarrow> Result \<Rightarrow> tx_line list" where
  "Controller_HandleTx c tx res = handleTx tx res"

definition cli_New :: "(string \<Rightarrow> ('w, unit) cmd) \<Rightarrow> Controller \<Rightarrow> ('w, cli_Handler) cmd" where
  "cli_New pebble_New c = andthen (pebble_New (DatabasePath c)) (\<lambda>_. done_with \<lparr>handler_c = c\<rparr>)"

definition NewHandler :: "cli_Handler \<Rightarrow> Handler" where
  "NewHandler h = \<lparr>handler_h = h\<rparr>"

definition Handler_Root :: "Handler \<Rightarrow> cli_Handler" where
  "Handler_Root h = handler_h h"

definition CloseDatabase :: "('w, unit) cmd \<Rightarrow> cli_Handler \<Rightarrow> ('w, unit) cmd" where
  "CloseDatabase db_Close h = wrapping ''unable to close database: %w'' db_Close"

definition PersistentPreRunE :: "'w tool \<Rightarrow> cli_flags \<Rightarrow> ('w, Handler) cmd" where
  "PersistentPreRunE t fl =
     andthen (cli_New (tool_open t) (NewController (dbPath fl))) (\<lambda>root. done_with (NewHandler root))"

definition PersistentPostRunE :: "'w tool \<Rightarrow> Handler \<Rightarrow> ('w, unit) cmd" where
  "PersistentPostRunE t handler = CloseDatabase (tool_close t) (Handler_Root handler)"

definition cli_Execute :: "'w tool \<Rightarrow> cli_flags \<Rightarrow> string list \<Rightarrow> ('w, unit) cmd" where
  "cli_Execute t fl args = cobra_Execute (PersistentPreRunE t fl) (PersistentPostRunE t) (rootCmd t fl) args"

text \<open>The exit status of \<^verbatim>\<open>main\<close>; a panic ends the process with status 2.\<close>

definition cli_main :: "'w tool \<Rightarrow> cli_flags \<Rightarrow> string list \<Rightarrow> 'w \<Rightarrow> nat \<times> 'w" where
  "cli_main t fl args w =
     (case cli_Execute t fl args w of
        (None, w') \<Rightarrow> (2, w')
      | (Some (Inl err), w') \<Rightarrow> (1, w')
      | (Some (Inr _), w') \<Rightarrow> (0, w'))"

section \<open>Keys the providers make\<close>

lemma length_array_of [simp]: "length (array_of n bs) = n"
  by (simp add: array_of_def)

lemma wf_key_address: "wf_Address (key_address c t pk)" "key_address c t pk ! 0 = t"
  unfolding key_address_def by (rule wf_CreateAddress, simp) (simp add: CreateAddress_eq)

lemma default_provider_eq:
  "default_provider c =
     [(''bls'', BLSPrivateKeyFactory c), (''secp256r1'', SECP256R1PrivateKeyFactory c),
      (''ed25519'', ED25519PrivateKeyFactory c)]"
  by (simp add: default_provider_def WithDefaultPrivateKeyFactories_def AuthProvider_Register_def Let_def
      ED25519Key_def Secp256r1Key_def BLSKey_def)

lemma default_provider_lookup:
  "map_of (default_provider c) name = Some f \<Longrightarrow>
   f = ED25519PrivateKeyFactory c \<or> f = SECP256R1PrivateKeyFactory c \<or> f = BLSPrivateKeyFactory c"
  by (auto simp: default_provider_eq split: if_splits)

lemma factory_keys_fit:
  assumes "map_of (default_provider c) name = Some f"
    and "factory_Generate f r = Inr priv \<or> factory_Load f r = Inr priv"
  shows "wf_Address (pk_Address priv) \<and> key_fits (pk_Address priv) (pk_Bytes priv)"
  using default_provider_lookup [OF assms(1)] assms(2)
  by (auto simp: ED25519PrivateKeyFactory_def SECP256R1PrivateKeyFactory_def BLSPrivateKeyFactory_def Let_def
      wf_key_address key_fits_def split: sum.splits if_splits)

lemma GeneratePrivateKey_fits:
  "GeneratePrivateKey (default_provider c) r name = Inr priv \<Longrightarrow>
   wf_Address (pk_Address priv) \<and> key_fits (pk_Address priv) (pk_Bytes priv)"
  using factory_keys_fit by (fastforce simp: GeneratePrivateKey_def split: option.splits)

lemma LoadPrivateKey_fits:
  "LoadPrivateKey (default_provider c) rd name path = Inr priv \<Longrightarrow>
   wf_Address (pk_Address priv) \<and> key_fits (pk_Address priv) (pk_Bytes priv)"
  using factory_keys_fit by (fastforce simp: LoadPrivateKey_def split: option.splits sum.splits)

section \<open>What the commands keep\<close>

context cli_shell
begin

lemma runs_add_key:
  assumes "\<And>priv. r = Inr priv \<Longrightarrow> wf_Address (pk_Address priv) \<and> key_fits (pk_Address priv) (pk_Bytes priv)"
  shows "runs contents (\<lambda>_. True)
    (andthen (of_result r) (\<lambda>priv. andthen (StoreKey E priv) (\<lambda>_. StoreDefaultKey E (pk_Address priv))))
    (\<lambda>_ _. True)"
proof (cases r)
  case (Inr priv)
  with assms have fit: "wf_Address (pk_Address priv)" "key_fits (pk_Address priv) (pk_Bytes priv)" by auto
  have "runs contents (\<lambda>_. True) (StoreKey E priv) (\<lambda>_ c. wf_Address (pk_Address priv) \<and> c (key_slot (pk_Address priv)) \<noteq> None)"
    using fit by (auto simp: runs_def StoreKey_eq contents_put intro: wf_cli_key split: if_splits)
  from runs_andthen [OF this runs_StoreDefaultKey] show ?thesis
    by (simp add: Inr andthen_def of_result_def)
qed (auto simp: runs_def andthen_def)

lemma runs_genKeyCmd:
  "runs contents (\<lambda>_. True) (genKeyCmd_RunE E (default_provider c) random args) (\<lambda>_ _. True)"
  unfolding genKeyCmd_RunE_def by (rule runs_add_key) (rule GeneratePrivateKey_fits)

lemma runs_importKeyCmd:
  "runs contents (\<lambda>_. True) (importKeyCmd_RunE E (default_provider c) rd args) (\<lambda>_ _. True)"
  unfolding importKeyCmd_RunE_def by (rule runs_add_key) (rule LoadPrivateKey_fits)

text \<open>The default actor signs with the scheme of the default key, over that key.\<close>

lemma runs_DefaultActor:
  assumes "\<And>u. asks contents (connect u) (\<lambda>_. True)"
  shows "runs contents (\<lambda>_. True) (DefaultActor E c connect) (\<lambda>a _. wf_Address (pk_Address (actor_key a)))"
  unfolding DefaultActor_def
proof (rule runs_andthen [OF runs_GetDefaultKey])
  fix k :: "Address \<times> bytes"
  obtain a b where k: "k = (a, b)" by force
  have scheme: "runs contents (\<lambda>c. True \<and> wf_Address a \<and> key_fits a b)
      (if a ! 0 = ED25519ID then andthen (to_array 64 b) (\<lambda>p. done_with (ED25519Factory p))
       else if a ! 0 = SECP256R1ID then andthen (to_array 32 b) (\<lambda>p. done_with (SECP256R1Factory p))
       else if a ! 0 = BLSID then andthen (of_result (bls_PrivateKeyFromBytes c b)) (\<lambda>p. done_with (BLSFactory p))
       else fail (Sentinel ErrCliInvalidAddress)) (\<lambda>_ _. wf_Address a)"
    by (auto simp: runs_def key_fits_def ED25519ID_def SECP256R1ID_def BLSID_def to_array_def andthen_def
        split: sum.splits)
  have last: "runs contents (case p of (_, uris) \<Rightarrow> \<lambda>c. wf_Address a \<and> uris \<noteq> [])
      (case p of (chainID, uris) \<Rightarrow> if length uris = 0 then panicked
         else andthen (connect (uris ! 0)) (\<lambda>_. done_with \<lparr>actor_chainID = chainID,
           actor_key = \<lparr>pk_Address = a, pk_Bytes = b\<rparr>, actor_factory = f, actor_jcli = uris ! 0,
           actor_bcli = NewJSONRPCClient (uris ! 0)\<rparr>))
      (\<lambda>a _. wf_Address (pk_Address (actor_key a)))" for p :: "bytes \<times> string list" and f
  proof (cases p)
    case (Pair x uris)
    show ?thesis
    proof (cases "uris = []")
      case False
      then show ?thesis
        unfolding Pair prod.case by (simp, intro runs_andthen [OF runs_asks [OF assms]] runs_done) simp
    qed (simp add: Pair runs_def)
  qed
  show "runs contents ((\<lambda>(a, b) c. True \<and> wf_Address a \<and> key_fits a b) k)
      (case k of (addr, priv) \<Rightarrow> andthen
        (if addr ! 0 = ED25519ID then andthen (to_array 64 priv) (\<lambda>p. done_with (ED25519Factory p))
         else if addr ! 0 = SECP256R1ID then andthen (to_array 32 priv) (\<lambda>p. done_with (SECP256R1Factory p))
         else if addr ! 0 = BLSID then andthen (of_result (bls_PrivateKeyFromBytes c priv)) (\<lambda>p. done_with (BLSFactory p))
         else fail (Sentinel ErrCliInvalidAddress))
        (\<lambda>factory. andthen (GetDefaultChain E) (\<lambda>(chainID, uris). if length uris = 0 then panicked
           else andthen (connect (uris ! 0)) (\<lambda>_. done_with \<lparr>actor_chainID = chainID,
             actor_key = \<lparr>pk_Address = addr, pk_Bytes = priv\<rparr>, actor_factory = factory, actor_jcli = uris ! 0,
             actor_bcli = NewJSONRPCClient (uris ! 0)\<rparr>))))
      (\<lambda>a _. wf_Address (pk_Address (actor_key a)))"
    unfolding k prod.case by (rule runs_andthen [OF scheme runs_andthen [OF runs_GetDefaultChain last]])
qed

end

section \<open>Sessions\<close>

text \<open>
  A session of the tool on a terminal: commands run one after the other, also those that fail, and in
  between the user decides what to type next. Of the imports of a cluster file only those that succeed,
  from a file with at least one node, are steps: the last section shows what a failing one does.
\<close>

inductive cli_step :: "outside \<Rightarrow> crypto \<Rightarrow> shell \<Rightarrow> shell \<Rightarrow> bool" for out c where
  generate_key: "genKeyCmd_RunE (shell_env out) (default_provider c) random args w = (r, w') \<Longrightarrow> cli_step out c w w'"
| import_key: "importKeyCmd_RunE (shell_env out) (default_provider c) rd args w = (r, w') \<Longrightarrow> cli_step out c w w'"
| set_key: "setKeyCmd_RunE (shell_env out) args w = (r, w') \<Longrightarrow> cli_step out c w w'"
| key_balance: "balanceKeyCmd_RunE (shell_env out) allChains args w = (r, w') \<Longrightarrow> cli_step out c w w'"
| import_chain: "importChainCmd_RunE (shell_env out) args w = (r, w') \<Longrightarrow> cli_step out c w w'"
| set_chain: "setChainCmd_RunE (shell_env out) args w = (r, w') \<Longrightarrow> cli_step out c w w'"
| import_cluster: "importAvalancheCliChainCmd_RunE (shell_env out) args w = (Some (Inr ()), w') \<Longrightarrow>
    (\<forall>chainID. out_Cluster out (args ! 0) \<noteq> Inr (chainID, [])) \<Longrightarrow> cli_step out c w w'"
| user_types: "cli_step out c w (w\<lparr>picks := ns, typed := ts\<rparr>)"

inductive_cases cli_stepE: "cli_step out c w w'"

lemma runsD:
  "runs contents P m Q \<Longrightarrow> wf_cli (contents w) \<Longrightarrow> P (contents w) \<Longrightarrow> m w = (r, w') \<Longrightarrow>
   wf_cli (contents w') \<and> r \<noteq> None"
  by (fastforce simp: runs_def)

lemma cli_step_wf: "cli_step out c w w' \<Longrightarrow> wf_cli (shell_contents w) \<Longrightarrow> wf_cli (shell_contents w')"
proof (induction rule: cli_step.induct)
  case (import_cluster args w w')
  have "ReadClusterInfoFile (shell_env out) (args ! 0) w1 \<noteq> (Some (Inr (chainID, [])), w2)" for chainID w1 w2
    using import_cluster(2) by (auto simp: shell_env_def map_sum_def split: sum.splits)
  with import_cluster(1,3) show ?case
    unfolding importAvalancheCliChainCmd_RunE_def by (blast intro: sh.ImportClusterInfo_wf)
next
  case (user_types w ns ts)
  then show ?case by (simp add: shell_contents_def)
qed (auto simp: setKeyCmd_RunE_def balanceKeyCmd_RunE_def importChainCmd_RunE_def setChainCmd_RunE_def
    dest: runsD [OF sh.runs_genKeyCmd] runsD [OF sh.runs_importKeyCmd] runsD [OF sh.runs_SetKey]
      runsD [OF sh.runs_cli_Balance] runsD [OF sh.runs_ImportChain] runsD [OF sh.runs_SetDefaultChain])

lemma cli_session_wf:
  "(cli_step out c)\<^sup>*\<^sup>* w w' \<Longrightarrow> wf_cli (shell_contents w) \<Longrightarrow> wf_cli (shell_contents w')"
  by (induction rule: rtranclp_induct) (auto dest: cli_step_wf)

section \<open>Properties\<close>

text \<open>
  C38: the default actor can be used. Starting from an empty database, whatever keys a user generates,
  imports and selects and whatever chains he imports and selects, with commands that fail in between,
  building the default actor never panics, and neither does asking for the balance of the default key.
  Cluster files may be imported too, as long as each of them has a node and the import succeeds; after
  a failed one the claim is false.
\<close>

theorem cli_session_safe:
  assumes "(cli_step out c)\<^sup>*\<^sup>* w0 w" and "table w0 = []"
  shows "fst (DefaultActor (shell_env out) c (\<lambda>u. of_result (conn u)) w) \<noteq> None \<and>
    fst (balanceKeyCmd_RunE (shell_env out) allChains args w) \<noteq> None"
proof -
  have wf: "wf_cli (shell_contents w)"
    using cli_session_wf [OF assms(1)] assms(2) by (simp add: shell_contents_def wf_cli_empty)
  have "runs shell_contents (\<lambda>_. True) (DefaultActor (shell_env out) c (\<lambda>u. of_result (conn u)))
      (\<lambda>a _. wf_Address (pk_Address (actor_key a)))"
    by (rule sh.runs_DefaultActor) (simp add: asks_def)
  note actor = runsD [OF this wf TrueI prod.collapse [symmetric]]
  note balance = runsD [OF sh.runs_cli_Balance wf TrueI prod.collapse [symmetric]]
  from actor balance show ?thesis unfolding balanceKeyCmd_RunE_def by blast
qed

text \<open>Sample libraries: the random bytes are the key, a key is its own public key and hash.\<close>

definition sample_crypto :: crypto where
  "sample_crypto = \<lparr>ed_Generate = Inr, ed_PublicKey = id, secp_Generate = Inr, secp_PublicKey = id,
     bls_Generate = Inr, bls_PrivateKeyFromBytes = Inr, bls_PublicKey = id, crypto_sha256 = id\<rparr>"

definition sample_outside :: outside where
  "sample_outside = \<lparr>out_sha256 = id, out_Network = (\<lambda>_. Inr [7]), out_Cluster = (\<lambda>_. Inl (ErrNew ''no such file'')),
     out_Balance = (\<lambda>_ _. Inr 5)\<rparr>"

definition empty_shell :: "string list \<Rightarrow> shell" where
  "empty_shell ts = \<lparr>table = [], picks = [], typed = ts\<rparr>"

lemma contents_empty_shell: "shell_contents (empty_shell ts) = Map.empty"
  by (simp add: empty_shell_def shell_contents_def)

theorem cli_session_safe_witness:
  "fst (DefaultActor (shell_env sample_outside) sample_crypto (\<lambda>_. of_result (Inr ()))
     (snd (genKeyCmd_RunE (shell_env sample_outside) (default_provider sample_crypto) [1, 2] [''ed25519'']
        (empty_shell [])))) \<noteq> None \<and>
   fst (balanceKeyCmd_RunE (shell_env sample_outside) True []
     (snd (genKeyCmd_RunE (shell_env sample_outside) (default_provider sample_crypto) [1, 2] [''ed25519'']
        (empty_shell [])))) \<noteq> None"
  by (rule cli_session_safe [where ?w0.0 = "empty_shell []"],
      rule r_into_rtranclp, rule generate_key, rule prod.collapse [symmetric]) (simp add: empty_shell_def)

text \<open>
  A generated key becomes the default key. When the database has no key for the address yet, the
  command succeeds and the default key is read back as exactly the generated address and private key,
  and these two entries are all that changed;
  when it has one, the command fails with \<^verbatim>\<open>ErrDuplicate\<close> and nothing changes.
\<close>

theorem generated_key_is_default:
  assumes "wf_cli (shell_contents w)" and "GeneratePrivateKey (default_provider c) random name = Inr priv"
  shows "if shell_contents w (key_slot (pk_Address priv)) = None
    then \<exists>w'. genKeyCmd_RunE (shell_env out) (default_provider c) random [name] w = (Some (Inr ()), w') \<and>
           GetDefaultKey (shell_env out) w' = (Some (Inr (pk_Address priv, pk_Bytes priv)), w') \<and>
           shell_contents w' = (shell_contents w)
             (key_slot (pk_Address priv) \<mapsto> pk_Bytes priv, default_slot defaultKeyKey \<mapsto> pk_Address priv)
    else genKeyCmd_RunE (shell_env out) (default_provider c) random [name] w =
           (Some (Inl (Sentinel ErrDuplicate)), w)"
proof (cases "shell_contents w (key_slot (pk_Address priv))")
  case None
  let ?a = "pk_Address priv"
  let ?w' = "shell_put (default_slot defaultKeyKey) ?a (shell_put (key_slot ?a) (pk_Bytes priv) w)"
  have run: "genKeyCmd_RunE (shell_env out) (default_provider c) random [name] w = (Some (Inr ()), ?w')"
    using None by (simp add: genKeyCmd_RunE_def assms(2) andthen_def sh.StoreKey_eq sh.StoreDefaultKey_eq)
  have wf: "wf_cli (shell_contents ?w')"
    using runsD [OF sh.runs_genKeyCmd assms(1) TrueI run] by simp
  have fits: "wf_Address ?a" using GeneratePrivateKey_fits [OF assms(2)] by simp
  have "shell_contents ?w' (default_slot defaultKeyKey) = Some ?a" "shell_contents ?w' (key_slot ?a) = Some (pk_Bytes priv)"
    using fits by (simp_all add: sh.contents_put slot_simps prefix_defs)
  then have key: "GetDefaultKey (shell_env out) ?w' = (Some (Inr (?a, pk_Bytes priv)), ?w')"
    by (simp add: sh.GetDefaultKey_eq [OF wf])
  have "shell_contents ?w' = (shell_contents w)(key_slot ?a \<mapsto> pk_Bytes priv, default_slot defaultKeyKey \<mapsto> ?a)"
    by (simp add: sh.contents_put)
  then show ?thesis using None run key by auto
next
  case (Some v)
  then show ?thesis by (simp add: genKeyCmd_RunE_def assms(2) andthen_def sh.StoreKey_eq)
qed

theorem generated_key_is_default_witness:
  "\<exists>w'. genKeyCmd_RunE (shell_env sample_outside) (default_provider sample_crypto) [1, 2] [''ed25519'']
       (empty_shell []) = (Some (Inr ()), w') \<and>
     fst (GetDefaultKey (shell_env sample_outside) w') \<noteq> None"
proof -
  obtain priv where p: "GeneratePrivateKey (default_provider sample_crypto) [1, 2] ''ed25519'' = Inr priv"
    by (simp add: GeneratePrivateKey_def default_provider_eq ED25519PrivateKeyFactory_def sample_crypto_def Let_def)
  show ?thesis
    using generated_key_is_default [where w = "empty_shell []" and out = sample_outside, OF _ p]
    by (auto simp: contents_empty_shell wf_cli_def)
qed

section \<open>Waiting for a transaction\<close>

text \<open>
  The loop of \<^verbatim>\<open>sendAndWait\<close> starts with a nil result and only ever leaves it nil while it
  loops, so it returns at the first message: the branch that skips other transactions is dead.
\<close>

lemma await_tx_nil:
  "await_tx listenTx own None w =
     Some (case listenTx w of
        (None, w') \<Rightarrow> (None, w')
      | (Some (Inl err), w') \<Rightarrow> (Some (Inl err), w')
      | (Some (Inr (txID, txResult)), w') \<Rightarrow>
          if txID = own then (Some (Inr txResult), w')
          else (Some (Inl (Errorf ''tx %s expired'' [FBytes txID])), w'))"
  by (simp add: await_tx.simps split: prod.split option.split sum.split)

definition first_message :: "SignedTransaction \<Rightarrow> bytes \<times> Result option \<Rightarrow> (bool \<times> bytes) result option" where
  "first_message tx = (\<lambda>(i, r).
     if i \<noteq> tx_id tx then Some (Inl (Errorf ''tx %s expired'' [FBytes i]))
     else map_option (\<lambda>res. Inr (Success res, tx_id tx)) r)"

text \<open>
  C39: sending a transaction and waiting for it always returns, and the first message that the
  websocket delivers decides. When that message is about the own transaction, its success flag and
  the transaction's identifier are returned; when it is about any other transaction, the tool
  reports that other transaction as expired, and never reads a second message; when the own
  transaction comes without a result (the node dropped it), the tool panics.
\<close>

theorem send_and_wait:
  "sendAndWait sha256 clock now c actions factory w = Some
     (andthen (prepare_tx sha256 clock now c actions factory) (\<lambda>tx.
      andthen (tc_ListenTx c) (\<lambda>m w'. (first_message tx m, w'))) w)"
  by (simp add: sendAndWait_def await_tx_nil andthen_def first_message_def
      split: prod.split option.split sum.split)

section \<open>The genesis flags\<close>

text \<open>How a user writes an optional list of dimensions on the command line.\<close>

definition dims_flag :: "Dimensions option \<Rightarrow> string list" where
  "dims_flag d = (case d of None \<Rightarrow> [] | Some ds \<Rightarrow> map (decimal \<circ> unat) ds)"

lemma parse_digits_append:
  "parse_digits n s = Inr v \<Longrightarrow> n < 2 ^ 64 \<Longrightarrow> parse_digits n (s @ cs) = parse_digits (unat v) cs"
  by (induction n s rule: parse_digits.induct)
    (auto simp: Let_def unsigned_of_nat take_bit_nat_eq_self split: if_splits)

lemma parse_digits_decimal: "n < 2 ^ 64 \<Longrightarrow> parse_digits 0 (decimal n) = Inr (word_of_nat n)"
proof (induction n rule: decimal.induct)
  case (1 n)
  show ?case
  proof (cases "n < 10")
    case True
    then show ?thesis by (subst decimal.simps) simp
  next
    case False
    then have "parse_digits 0 (decimal (n div 10)) = Inr (word_of_nat (n div 10))" using 1 by simp
    from parse_digits_append [OF this] False 1(2) show ?thesis
      by (subst decimal.simps) (simp add: unsigned_of_nat take_bit_nat_eq_self)
  qed
qed

lemma ParseUint_decimal [simp]: "ParseUint (decimal (unat v)) = Inr v"
proof -
  have "decimal (unat v) \<noteq> []" by (subst decimal.simps) simp
  moreover have "unat v < 2 ^ 64" using unsigned_less [of v] by simp
  ultimately show ?thesis using parse_digits_decimal [of "unat v"] by (simp add: ParseUint_def)
qed

lemma parse_dims_decimal [simp]: "parse_dims (map (decimal \<circ> unat) d) = Inr d"
  by (induction d) simp_all

lemma with_dims_flag:
  assumes "\<forall>d\<in>set_option x. wf_Dimensions d"
  shows "with_dims (dims_flag x) upd r = Inr (case x of None \<Rightarrow> r | Some d \<Rightarrow> upd d r)"
  using assms by (cases x)
    (auto simp: with_dims_def dims_flag_def ParseDimensions_def wf_Dimensions_def FeeDimensions_def)

text \<open>
  C40: the flags of \<^verbatim>\<open>genesis generate\<close> say exactly which rules change. Every list of five unsigned
  64-bit numbers written in decimal is read back exactly, up to the largest one; a list that is not
  given leaves its rule alone, and so does a negative block gap or validity window.
\<close>

theorem genesis_flags:
  assumes "minUnitPrice fl = dims_flag p" "maxBlockUnits fl = dims_flag b" "windowTargetUnits fl = dims_flag t"
    and "\<forall>x\<in>{p, b, t}. \<forall>d\<in>set_option x. wf_Dimensions d"
  shows "flagged_rules fl r = Inr (r\<lparr>
     GetMinUnitPrice := case_option (GetMinUnitPrice r) id p,
     GetMaxBlockUnits := case_option (GetMaxBlockUnits r) id b,
     GetWindowTargetUnits := case_option (GetWindowTargetUnits r) id t,
     GetMinBlockGap := if 0 \<le> sint (minBlockGap fl) then minBlockGap fl else GetMinBlockGap r,
     GetValidityWindow := if 0 \<le> sint (validityWindow fl) then validityWindow fl else GetValidityWindow r\<rparr>)"
  using assms(4)
  by (simp add: flagged_rules_def assms(1-3) with_dims_flag Let_def i64_le_def split: option.split)

theorem genesis_flags_witness:
  "flagged_rules ((default_flags 0)\<lparr>maxBlockUnits := [''1'', ''2'', ''3'', ''4'', ''18446744073709551615'']\<rparr>)
     NewDefaultRules = Inr (NewDefaultRules\<lparr>GetMaxBlockUnits := [1, 2, 3, 4, - 1]\<rparr>)"
proof -
  have "map (decimal \<circ> unat) [1, 2, 3, 4, - 1 :: u64] = [''1'', ''2'', ''3'', ''4'', ''18446744073709551615'']"
    by (simp add: decimal.simps char_of_def bit_0 unsigned_minus_1_eq_mask mask_eq_exp_minus_1)
  then show ?thesis
    using genesis_flags [of "(default_flags 0)\<lparr>maxBlockUnits := [''1'', ''2'', ''3'', ''4'', ''18446744073709551615'']\<rparr>"
        None "Some [1, 2, 3, 4, - 1]" None NewDefaultRules]
    by (simp add: dims_flag_def default_flags_defs wf_Dimensions_def FeeDimensions_def NewDefaultRules_def)
qed

section \<open>A failing import of a cluster\<close>

text \<open>
  The import deletes the stored chains before it reads the cluster file, but not the default chain.
  When the file cannot be read the default chain has no address any more, and the next command that
  uses it panics. This is why an import that fails is not a step of the sessions above.
\<close>

definition chain_and_key :: shell where
  "chain_and_key = snd (importChainCmd_RunE (shell_env sample_outside) []
     (snd (genKeyCmd_RunE (shell_env sample_outside) (default_provider sample_crypto) [1, 2] [''ed25519'']
       (empty_shell [''http://localhost'']))))"

lemma failed_cluster_import:
  "case importAvalancheCliChainCmd_RunE (shell_env sample_outside) [''cluster.yml''] chain_and_key of
     (r, w) \<Rightarrow> r = Some (Inl (ErrNew ''no such file'')) \<and>
       fst (balanceKeyCmd_RunE (shell_env sample_outside) False [] chain_and_key) \<noteq> None \<and>
       fst (balanceKeyCmd_RunE (shell_env sample_outside) False [] w) = None"
  by code_simp

end
