(* ===== verification/NodeCommand.thy ===== *)
theory NodeCommand
  imports CommandLine
begin

text \<open>
  The binary of the node, \<^verbatim>\<open>cmd/predictionvm/main.go\<close>, and the version command of
  \<^verbatim>\<open>cmd/predictionvm/version\<close>. Raising the limit of file descriptors, serving the machine to the
  avalanche node and printing are parameters. The lemmas say when the binary serves a machine and
  which one, and with which status it exits.
\<close>

section \<open>main.go\<close>

record ('auth, 'h, 'w) node_env =
  ulimit_Set :: "('w, unit) cmd"
  node_globals :: "'auth vm_globals"
  node_defaults :: "'h vm_Option list"
  rpcchainvm_Serve :: "string \<Rightarrow> ('auth, 'h) vm_Factory \<Rightarrow> ('w, unit) cmd"

definition runFunc :: "('auth, 'h, 'w) node_env \<Rightarrow> string list \<Rightarrow> ('w, unit) cmd" where
  "runFunc N args =
     andthen (wrapping ''%w: failed to set fd limit correctly'' (ulimit_Set N)) (\<lambda>_.
     andthen (of_result (vm_New (node_defaults N) (node_globals N) [])) (\<lambda>v.
       rpcchainvm_Serve N ''v0.0.1'' v))"

definition node_rootCmd :: "('auth, 'h, 'w) node_env \<Rightarrow> 'w command" where
  "node_rootCmd N = Command ''predictionvm'' None (Some (runFunc N)) []"

definition node_main :: "('auth, 'h, 'w) node_env \<Rightarrow> string list \<Rightarrow> 'w \<Rightarrow> nat \<times> 'w" where
  "node_main N args w =
     (case cobra_Execute (done_with ()) done_with (node_rootCmd N) args w of
        (None, w') \<Rightarrow> (2, w')
      | (Some (Inl err), w') \<Rightarrow> (1, w')
      | (Some (Inr _), w') \<Rightarrow> (0, w'))"

section \<open>version.go\<close>

text \<open>
  The command prints the constants of \<^verbatim>\<open>morpheusvm\<close>, hypersdk's example machine: name, semantic
  version and identifier. It is not part of the command tree above.
\<close>

record vm_consts =
  consts_Name :: string
  consts_Version :: "nat \<times> nat \<times> nat"
  consts_VmID :: bytes

definition morpheusvm_consts :: vm_consts where
  "morpheusvm_consts = \<lparr>consts_Name = ''morpheusvm'', consts_Version = (0, 0, 1),
     consts_VmID = bytes_of_string ''morpheusvm'' @ replicate 22 0\<rparr>"

definition version_args :: "vm_consts \<Rightarrow> fmt_arg list" where
  "version_args k = (case consts_Version k of (a, b, c) \<Rightarrow>
     [FStr (consts_Name k), FStr (CHR ''v'' # decimal a @ ''.'' @ decimal b @ ''.'' @ decimal c), FBytes (consts_VmID k)])"

definition versionFunc :: "(string \<Rightarrow> fmt_arg list \<Rightarrow> ('w, unit) cmd) \<Rightarrow> string list \<Rightarrow> ('w, unit) cmd" where
  "versionFunc printf args =
     andthen (printf ''%s@%s (%s)'' (version_args morpheusvm_consts)) (\<lambda>_. done_with ())"

definition NewCommand :: "(string \<Rightarrow> fmt_arg list \<Rightarrow> ('w, unit) cmd) \<Rightarrow> 'w command" where
  "NewCommand printf = Command ''version'' None (Some (versionFunc printf)) []"

section \<open>What the binary serves\<close>

lemma andthen_done [simp]: "andthen m done_with = m" "andthen (done_with x) f = f x"
proof -
  have "andthen m done_with w = m w" for w
    by (cases "m w") (simp add: andthen_def split: option.split sum.split)
  then show "andthen m done_with = m" by blast
  show "andthen (done_with x) f = f x" by (simp add: andthen_def)
qed

text \<open>Whatever the arguments, the node command runs: it has no subcommand to look for.\<close>

lemma node_Execute:
  "cobra_Execute (done_with ()) done_with (node_rootCmd N) args = runFunc N args"
  by (cases args) (simp_all add: cobra_Execute_def cobra_Find_def legacyArgs_def command_execute_def node_rootCmd_def findNext_def)

lemma node_serves_default_machine:
  assumes "distinct (map option_Namespace (node_defaults N))" and "ulimit_Set N w = (Some (Inr ()), w')"
  shows "cobra_Execute (done_with ()) done_with (node_rootCmd N) args w =
     rpcchainvm_Serve N ''v0.0.1'' (NewFactory (node_defaults N) (node_globals N)) w'"
proof -
  have "check_namespaces (node_defaults N) [] = None" using assms(1) by (simp add: check_namespaces_None)
  then show ?thesis
    using assms(2) by (simp add: node_Execute runFunc_def wrapping_def andthen_def vm_New_def Factory_New_def NewFactory_def)
qed

lemma version_command_prints_morpheusvm:
  "versionFunc printf args = printf ''%s@%s (%s)''
     [FStr ''morpheusvm'', FStr ''v0.0.1'', FBytes (bytes_of_string ''morpheusvm'' @ replicate 22 0)]"
  by (simp add: versionFunc_def version_args_def morpheusvm_consts_def decimal.simps char_of_def bit_0)

end
