(* ===== verification/ViewFrames.thy ===== *)
theory ViewFrames
  imports Transactions
begin

text \<open>
  What a transaction can see and touch. The locale \<open>twin_stores\<close> follows a client through two
  stores that answer alike: every storage operation and every action gives the same result in both.
  It is interpreted by two transaction views that differ only in the parent state outside their
  scope, so that executing a transaction reads no key it does not declare (\<open>Transaction_Execute_twins\<close>).
  The relation \<open>framed\<close> says that it writes no key it does not declare with the write permission.
\<close>

section \<open>Two stores that answer alike\<close>

locale twin_stores =
  fixes mu1 :: "'s state_Mutable" and mu2 :: "'t state_Mutable" and twin :: "'s \<Rightarrow> 't \<Rightarrow> bool"
  assumes twin_get: "twin s t \<Longrightarrow> GetValue mu1 s k = GetValue mu2 t k"
    and twin_insert: "twin s t \<Longrightarrow> rel_prod (=) twin (Insert mu1 s k v) (Insert mu2 t k v)"
begin

lemma twin_insertD:
  "twin s t \<Longrightarrow> Insert mu1 s k v = (e, s') \<Longrightarrow> Insert mu2 t k v = (e', t') \<Longrightarrow> e' = e \<and> twin s' t'"
  using twin_insert [of s t k v] by simp

lemma twin_GetBalance: "twin s t \<Longrightarrow> GetBalance mu1 s a = GetBalance mu2 t a"
  by (simp add: GetBalance_def twin_get)

lemma twin_GetMarket: "twin s t \<Longrightarrow> GetMarket mu1 s i = GetMarket mu2 t i"
  by (simp add: GetMarket_def twin_get)

lemma twin_GetShareBalance: "twin s t \<Longrightarrow> GetShareBalance mu1 s i a ty = GetShareBalance mu2 t i a ty"
  by (simp add: GetShareBalance_def twin_get)

lemmas twin_reads = twin_get twin_GetBalance twin_GetMarket twin_GetShareBalance

lemma twin_SetBalance:
  "twin s t \<Longrightarrow> rel_prod (=) twin (SetBalance mu1 s a v) (SetBalance mu2 t a v)"
  by (simp add: SetBalance_Insert twin_insert)

lemma twin_DeductBalance:
  "twin s t \<Longrightarrow> rel_prod (=) twin (DeductBalance mu1 s a v) (DeductBalance mu2 t a v)"
  by (simp add: DeductBalance_def twin_GetBalance twin_SetBalance split: sum.split)

lemma twin_SetShareBalance:
  "twin s t \<Longrightarrow> rel_prod (=) twin (SetShareBalance mu1 s i a ty v) (SetShareBalance mu2 t i a ty v)"
  by (simp add: SetShareBalance_Insert twin_insert)

lemma twin_SetMarket:
  "twin s t \<Longrightarrow> rel_prod (=) twin (SetMarket mu1 s m) (SetMarket mu2 t m)"
  by (simp add: SetMarket_def twin_insert split: prod.split option.split)

text \<open>A step whose outcome decides how a client goes on.\<close>

lemma twin_then:
  assumes "rel_prod (=) twin p q"
    and "\<And>e s' t'. p = (e, s') \<Longrightarrow> q = (e, t') \<Longrightarrow> twin s' t' \<Longrightarrow> rel_prod (=) twin (f e s') (g e t')"
  shows "rel_prod (=) twin (case p of (e, s') \<Rightarrow> f e s') (case q of (e, t') \<Rightarrow> g e t')"
  using assms by (cases p; cases q) auto

lemma twin_BuyYes_Execute:
  "twin s t \<Longrightarrow> rel_prod (=) twin (BuyYes_Execute mu1 b s ts a) (BuyYes_Execute mu2 b t ts a)"
  unfolding BuyYes_Execute_def Let_def
  by (simp add: twin_reads split: sum.split option.split;
      intro allI impI conjI twin_then twin_insert twin_SetShareBalance twin_SetMarket)
     (auto simp: twin_reads split: option.split sum.split
       intro!: twin_then twin_insert twin_SetShareBalance twin_SetMarket)

lemma twin_BuyNo_Execute:
  "twin s t \<Longrightarrow> rel_prod (=) twin (BuyNo_Execute mu1 b s ts a) (BuyNo_Execute mu2 b t ts a)"
  unfolding BuyNo_Execute_def Let_def
  by (simp add: twin_reads split: sum.split option.split;
      intro allI impI conjI twin_then twin_insert twin_SetShareBalance twin_SetMarket)
     (auto simp: twin_reads split: option.split sum.split
       intro!: twin_then twin_insert twin_SetShareBalance twin_SetMarket)

lemma twin_CreateMarket_Execute:
  "twin s t \<Longrightarrow> rel_prod (=) twin (CreateMarket_Execute sha256 rnd mu1 cm s ts a)
     (CreateMarket_Execute sha256 rnd mu2 cm t ts a)"
  unfolding CreateMarket_Execute_def Let_def
  by (simp split: sum.split option.split; intro allI impI twin_then twin_SetMarket)
     (auto split: option.split)

lemma twin_Action_Execute:
  "twin s t \<Longrightarrow> rel_prod (=) twin (Action_Execute sha256 rnd mu1 a s ts actor)
     (Action_Execute sha256 rnd mu2 a t ts actor)"
  by (cases a) (simp_all add: twin_BuyYes_Execute twin_BuyNo_Execute twin_CreateMarket_Execute)

lemma twin_Controller:
  assumes "twin s t"
  shows "bh_CanDeduct (Controller_New mu1) a s v = bh_CanDeduct (Controller_New mu2) a t v"
    and "rel_prod (=) twin (bh_Deduct (Controller_New mu1) a s v) (bh_Deduct (Controller_New mu2) a t v)"
  using assms
  by (simp_all add: Controller_New_def CanDeduct_def Controller_Deduct_def twin_GetBalance twin_DeductBalance)

end

section \<open>Views over parents that agree on the scope\<close>

definition same_layer :: "TStateView \<Rightarrow> TStateView \<Rightarrow> bool" where
  "same_layer v w \<longleftrightarrow>
     view_scope v = view_scope w \<and> pendingChangedKeys v = pendingChangedKeys w \<and>
     view_ops v = view_ops w \<and> view_allocates v = view_allocates w \<and> view_writes v = view_writes w \<and>
     (\<forall>k. checkScope v k PermRead \<longrightarrow> parent_value v k = parent_value w k)"

definition twin_views :: "TStateView \<Rightarrow> TStateView \<Rightarrow> bool" where
  "twin_views v w \<longleftrightarrow> wf_view v \<and> wf_view w \<and> same_layer v w"

lemma twin_contents:
  "same_layer v w \<Longrightarrow> checkScope v k PermRead \<Longrightarrow> view_contents v k = view_contents w k"
  by (simp add: same_layer_def view_contents_def split: option.split)

lemma same_layer_scope: "same_layer v w \<Longrightarrow> checkScope v = checkScope w"
  by (simp add: same_layer_def checkScope_def fun_eq_iff)

lemma checkScope_Write_Read: "checkScope v k PermWrite \<Longrightarrow> checkScope v k PermRead"
  by (simp add: checkScope_def Scope_Has_Write_Read)

lemma same_layer_record_insert:
  assumes "same_layer v w"
  shows "same_layer (record_insert o0 x u (v\<lparr>view_allocates := a, view_writes := c\<rparr>))
    (record_insert o0 x u (w\<lparr>view_allocates := a, view_writes := c\<rparr>))"
  using assms by (simp add: same_layer_def checkScope_def) (simp add: record_insert_def Let_def)

lemma same_layer_update:
  "same_layer v w \<Longrightarrow> view_allocates v = a \<Longrightarrow> view_allocates w = a \<Longrightarrow>
   same_layer (record_insert o0 x u (v\<lparr>view_writes := c\<rparr>)) (record_insert o0 x u (w\<lparr>view_writes := c\<rparr>))"
  using same_layer_record_insert [where v = v and w = w and a = a and c = c] by (cases v; cases w) simp

lemma twin_views_Insert:
  assumes "twin_views v w"
  shows "rel_prod (=) twin_views (TStateView_Insert v k x) (TStateView_Insert w k x)"
proof -
  have wf: "wf_view v" "wf_view w" "same_layer v w" using assms by (simp_all add: twin_views_def)
  have kept: "wf_view (snd (TStateView_Insert v k x))" "wf_view (snd (TStateView_Insert w k x))"
    using wf extends_Insert [of v k x] extends_Insert [of w k x] by (simp_all add: extends_def)
  have "rel_prod (=) same_layer (TStateView_Insert v k x) (TStateView_Insert w k x)"
  proof (cases "checkScope v k PermWrite")
    case False
    then show ?thesis using wf(3) by (simp add: TStateView_Insert_def same_layer_scope [OF wf(3)])
  next
    case True
    then have "checkScope v k PermRead" by (rule checkScope_Write_Read)
    with wf(3) have "view_contents v k = view_contents w k" "parent_value v k = parent_value w k"
      by (simp_all add: twin_contents) (simp add: same_layer_def)
    moreover have "view_allocates v = view_allocates w" "view_writes v = view_writes w"
      using wf(3) by (simp_all add: same_layer_def)
    ultimately show ?thesis
      using wf
      by (cases "view_contents w k")
         (simp_all add: TStateView_Insert_def same_layer_scope view_getValue_found isUnchanged_parent Let_def
           same_layer_record_insert same_layer_update)
  qed
  with kept show ?thesis
    by (cases "TStateView_Insert v k x"; cases "TStateView_Insert w k x") (simp add: twin_views_def)
qed

interpretation tviews: twin_stores TStateView_Mutable TStateView_Mutable twin_views
proof unfold_locales
  show "GetValue TStateView_Mutable v k = GetValue TStateView_Mutable w k" if "twin_views v w" for v w k
    using that same_layer_scope [of v w] twin_contents [of v w k]
    by (simp add: TStateView_Mutable_def TStateView_GetValue_def twin_views_def view_getValue_found)
  show "rel_prod (=) twin_views (Insert TStateView_Mutable v k x) (Insert TStateView_Mutable w k x)"
    if "twin_views v w" for v w k x
    using twin_views_Insert [OF that] by (simp add: TStateView_Mutable_def)
qed

section \<open>Rolling back alike\<close>

lemma undo_op_allocates:
  "view_allocates v = view_allocates w \<Longrightarrow> view_allocates (undo_op o0 v) = view_allocates (undo_op o0 w)"
  by (simp add: undo_op_def Let_def split: opType.split option.split)

lemma parent_value_undo [simp]: "parent_value (undo_op o0 v) = parent_value v"
  by (rule parent_value_cong) (simp_all add: undo_op_sel)

lemma parent_value_ops [simp]: "parent_value (v\<lparr>view_ops := os\<rparr>) = parent_value v"
  by (rule parent_value_cong) simp_all

lemma same_layer_undo: "same_layer v w \<Longrightarrow> same_layer (undo_op o0 v) (undo_op o0 w)"
  using undo_op_allocates [of v w o0] by (simp add: same_layer_def undo_op_sel checkScope_def)

lemma same_layer_fold_undo: "same_layer v w \<Longrightarrow> same_layer (fold undo_op os v) (fold undo_op os w)"
  by (induction os arbitrary: v w) (simp_all add: same_layer_undo)

lemma same_layer_Rollback:
  assumes "same_layer v w"
  shows "same_layer (Rollback n v) (Rollback n w)"
proof -
  have "view_ops v = view_ops w" using assms by (simp add: same_layer_def)
  with same_layer_fold_undo [OF assms, of "rev (drop n (view_ops w))"] show ?thesis
    by (simp add: Rollback_def same_layer_def checkScope_def)
qed

lemma wf_same_data: "wf_view v \<Longrightarrow> same_data w v \<Longrightarrow> wf_view w"
  by (simp add: wf_view_def same_data_def)

lemma run_actions_extends:
  "run_actions sha256 rnd ts actor i as outs v = (r, w) \<Longrightarrow> extends v w"
  by (rule run_actions_tracked [OF tview_log.tracked_store_axioms])

lemma wf_Rollback_run:
  assumes "wf_view v" and "run_actions sha256 rnd ts actor i as outs v = (r, w)"
  shows "wf_view (Rollback (OpIndex v) w)"
  using assms Rollback_extends(1) [OF assms(1) run_actions_extends [OF assms(2)]] by (blast intro: wf_same_data)

section \<open>A transaction sees only its scope\<close>

lemma run_actions_twins:
  "twin_views v w \<Longrightarrow>
   rel_prod (=) twin_views (run_actions sha256 rnd ts actor i as outs v) (run_actions sha256 rnd ts actor i as outs w)"
proof (induction sha256 rnd ts actor i as outs v arbitrary: w rule: run_actions.induct)
  case (2 sha256 rnd ts actor i a as outs v)
  obtain e v' w' where "Action_Execute sha256 (rnd i) TStateView_Mutable a v ts actor = (e, v')"
      "Action_Execute sha256 (rnd i) TStateView_Mutable a w ts actor = (e, w')" "twin_views v' w'"
    using tviews.twin_Action_Execute [OF 2(2), of sha256 "rnd i" a ts actor] by (auto elim!: rel_prod.cases)
  with 2(1) show ?case by (auto split: sum.split)
qed simp

lemma PreExecute_twins:
  "twin_views v w \<Longrightarrow> PreExecute fm view_handler r t v ts = PreExecute fm view_handler r t w ts"
  using tviews.twin_Controller(1) [of v w] by (simp add: PreExecute_def split: sum.split option.split)

lemma Transaction_Execute_twins:
  assumes "twin_views v w"
  shows "rel_prod (=) twin_views (Transaction_Execute sha256 rnd fm view_handler r t v ts)
    (Transaction_Execute sha256 rnd fm view_handler r t w ts)"
proof -
  have rollback: "twin_views (Rollback (OpIndex v1) v2) (Rollback (OpIndex w1) w2)"
    if "twin_views v1 w1" "run_actions sha256 rnd ts actor 0 as [] v1 = (r1, v2)"
      "run_actions sha256 rnd ts actor 0 as [] w1 = (r2, w2)" for v1 w1 v2 w2 actor as r1 r2
  proof -
    have "twin_views v2 w2" using run_actions_twins [OF that(1), of sha256 rnd ts actor 0 as "[]"] that(2,3) by simp
    moreover have "OpIndex v1 = OpIndex w1" using that(1) by (simp add: twin_views_def same_layer_def OpIndex_def)
    ultimately show ?thesis
      using that same_layer_Rollback [of v2 w2] wf_Rollback_run [of v1] wf_Rollback_run [of w1]
      by (simp add: twin_views_def)
  qed
  show ?thesis
    unfolding Transaction_Execute_def Let_def
    using assms
    by (auto split: sum.split option.split intro!: tviews.twin_then tviews.twin_Controller(2))
       (auto split: prod.split option.split dest: run_actions_twins rollback)
qed

section \<open>A transaction writes only its scope\<close>

definition framed :: "TStateView \<Rightarrow> TStateView \<Rightarrow> bool" where
  "framed v w \<longleftrightarrow>
     view_ts w = view_ts v \<and> view_storage w = view_storage v \<and> view_scope w = view_scope v \<and>
     (\<forall>k. \<not> checkScope v k PermWrite \<longrightarrow> pendingChangedKeys w k = pendingChangedKeys v k)"

lemma framed_refl [simp]: "framed v v"
  by (simp add: framed_def)

lemma framed_trans: "framed u v \<Longrightarrow> framed v w \<Longrightarrow> framed u w"
  by (simp add: framed_def checkScope_def)

lemma framed_Insert: "framed v (snd (TStateView_Insert v k x))"
proof -
  have "framed v (record_insert o0 x u (v\<lparr>view_allocates := a, view_writes := c\<rparr>))"
    "framed v (record_insert o0 x u (v\<lparr>view_writes := c\<rparr>))"
    if "checkScope v k PermWrite" "op_k o0 = k" for o0 u a c
    using that by (auto simp: framed_def)
  then show ?thesis
    by (auto simp: TStateView_Insert_def Let_def split: sum.split)
qed

interpretation tview_frame: tracked_store TStateView_Mutable framed
  by unfold_locales (auto simp: TStateView_Mutable_def framed_Insert intro: framed_trans)

lemma framed_same_data: "framed u v \<Longrightarrow> same_data w v \<Longrightarrow> framed u w"
  by (simp add: framed_def same_data_def)

lemma Transaction_Execute_keeps:
  assumes "wf_view v" and "Transaction_Execute sha256 rnd fm view_handler r t v ts = (res, v')"
  shows "wf_view v' \<and> framed v v'"
  using assms(2)
proof (cases rule: Transaction_Execute_cases)
  case uncharged
  then have "v' = v" using Deduct_view_fail [OF assms(1)] by blast
  with assms(1) show ?thesis by simp
next
  case (failed units fee e outs v1 v2)
  have v1: "wf_view v1" using Deduct_view [OF assms(1) failed(3)] by blast
  have "framed v v1" using failed(3) by (rule tview_frame.rel_Controller_Deduct)
  moreover have "same_data v' v1"
    using Rollback_extends(1) [OF v1 run_actions_extends [OF failed(4)]] failed(6) by simp
  ultimately show ?thesis using v1 by (auto intro: framed_same_data wf_same_data)
next
  case (succeeded units fee outs v1)
  have v1: "wf_view v1" using Deduct_view [OF assms(1) succeeded(3)] by blast
  have "framed v v1" using succeeded(3) by (rule tview_frame.rel_Controller_Deduct)
  moreover have "framed v1 v'"
    using succeeded(4) by (rule run_actions_tracked [OF tview_frame.tracked_store_axioms])
  moreover have "wf_view v'" using run_actions_extends [OF succeeded(4)] v1 by (simp add: extends_def)
  ultimately show ?thesis by (auto intro: framed_trans)
qed

end
