(* ===== verification/Executor.thy ===== *)
theory Executor
  imports StateKeys
begin

text \<open>
  The executor of hypersdk (\<^verbatim>\<open>internal/executor/executor.go\<close>), which runs the tasks of a block in
  parallel. One caller enqueues tasks with the state keys they use; workers take tasks that wait for
  nothing from a channel, run them and notify the tasks that wait for them. The model is a step
  relation with the steps of the caller and of the workers in any interleaving. A step is what
  happens under one lock or in one atomic operation: a task that notifies holds its own lock, so a
  step that needs this lock has to wait. Shown: of two conflicting tasks the second starts only
  after the function of the first has returned, every run ends, and it ends with every task
  finished.
\<close>

section \<open>State\<close>

text \<open>Where a worker is with a task. \<open>Notifying\<close>: it holds the lock of the task.\<close>

datatype stage = Queued | Taken | Running | Clearing | Notifying | Finished

text \<open>
  A task. The maps of the code are sets of task numbers; \<open>reading\<close> holds those that are still to be
  told. \<open>touched\<close> is no field of the code: the keys whose dependencies are recorded.
\<close>

record exec_task =
  touched :: "bytes \<rightharpoonup> Permissions"
  reading :: "nat set"
  executed :: bool
  blocked :: "nat set"
  readers :: "nat set"
  dependencies :: int
  stage :: stage

text \<open>
  The executor with its caller: the keys of the calls of \<^verbatim>\<open>Run\<close> still to come, and the call in progress
  with the keys left and the dependencies found. \<open>run_log\<close> is no field of the code: the order in which
  the functions returned.
\<close>

record Executor =
  exec_tasks :: nat
  task_of :: "nat \<Rightarrow> exec_task"
  nodes :: "bytes \<rightharpoonup> nat"
  executable :: "nat list"
  idle_workers :: nat
  failed :: bool
  calls :: "Keys list"
  current :: "(Keys \<times> nat set) option"
  run_log :: "nat list"

definition new_task :: "int \<Rightarrow> exec_task" where
  "new_task maxDependencies =
     \<lparr>touched = Map.empty, reading = {}, executed = False, blocked = {}, readers = {},
      dependencies = maxDependencies, stage = Queued\<rparr>"

definition Executor_New :: "int \<Rightarrow> nat \<Rightarrow> Keys list \<Rightarrow> Executor" where
  "Executor_New maxDependencies concurrency keys =
     \<lparr>exec_tasks = 0, task_of = (\<lambda>_. new_task maxDependencies), nodes = Map.empty, executable = [],
      idle_workers = concurrency, failed = False, calls = keys, current = None, run_log = []\<rparr>"

definition update_task :: "nat \<Rightarrow> (exec_task \<Rightarrow> exec_task) \<Rightarrow> Executor \<Rightarrow> Executor" where
  "update_task i f e = e\<lparr>task_of := (task_of e)(i := f (task_of e i))\<rparr>"

section \<open>Enqueueing a task\<close>

definition Run_begin :: "int \<Rightarrow> Keys \<Rightarrow> Keys list \<Rightarrow> Executor \<Rightarrow> Executor" where
  "Run_begin maxDependencies ks rest e =
     e\<lparr>exec_tasks := Suc (exec_tasks e), task_of := (task_of e)(exec_tasks e := new_task maxDependencies),
       calls := rest, current := Some (ks, {})\<rparr>"

text \<open>The body of the loop over the keys, with the dependencies it adds.\<close>

definition Run_key :: "nat \<Rightarrow> bytes \<Rightarrow> Permissions \<Rightarrow> Executor \<Rightarrow> Executor \<times> nat set" where
  "Run_key tid k v e =
     (case nodes e k of
        None \<Rightarrow> (e\<lparr>nodes := (nodes e)(k \<mapsto> tid)\<rparr>, {})
      | Some lt \<Rightarrow>
         (let (e1, deps) =
                (if v = PermRead
                 then (update_task lt (\<lambda>t. t\<lparr>readers := insert tid (readers t)\<rparr>)
                         (update_task tid (\<lambda>t. t\<lparr>reading := insert lt (reading t)\<rparr>) e), {})
                 else (let rs = readers (task_of e lt) - {tid} in
                       (e\<lparr>task_of := (\<lambda>i. if i \<in> rs then (task_of e i)\<lparr>blocked := insert tid (blocked (task_of e i))\<rparr>
                                         else task_of e i),
                          nodes := (nodes e)(k \<mapsto> tid)\<rparr>, rs)))
          in if executed (task_of e1 lt) then (e1, deps)
             else (update_task lt (\<lambda>t. t\<lparr>blocked := insert tid (blocked t)\<rparr>) e1, insert lt deps)))"

definition touch :: "nat \<Rightarrow> bytes \<Rightarrow> Permissions \<Rightarrow> Executor \<Rightarrow> Executor" where
  "touch tid k v = update_task tid (\<lambda>t. t\<lparr>touched := (touched t)(k \<mapsto> v)\<rparr>)"

definition Run_end :: "int \<Rightarrow> nat set \<Rightarrow> Executor \<Rightarrow> Executor" where
  "Run_end maxDependencies deps e =
     (let tid = exec_tasks e - 1;
          difference = maxDependencies - int (card deps);
          e1 = (update_task tid (\<lambda>t. t\<lparr>dependencies := dependencies t - difference\<rparr>) e)\<lparr>current := None\<rparr>
      in if dependencies (task_of e1 tid) > 0 then e1 else e1\<lparr>executable := executable e1 @ [tid]\<rparr>)"

section \<open>Running a task\<close>

definition work_take :: "nat \<Rightarrow> nat list \<Rightarrow> Executor \<Rightarrow> Executor" where
  "work_take t ts e =
     (update_task t (\<lambda>x. x\<lparr>stage := Taken\<rparr>) e)\<lparr>executable := ts, idle_workers := idle_workers e - 1\<rparr>"

definition runTask_enter :: "nat \<Rightarrow> Executor \<Rightarrow> Executor" where
  "runTask_enter t e = update_task t (\<lambda>x. x\<lparr>stage := (if failed e then Clearing else Running)\<rparr>) e"

definition runTask_return :: "nat \<Rightarrow> bool \<Rightarrow> Executor \<Rightarrow> Executor" where
  "runTask_return t ok e =
     (update_task t (\<lambda>x. x\<lparr>stage := Clearing\<rparr>) e)\<lparr>failed := failed e \<or> \<not> ok, run_log := run_log e @ [t]\<rparr>"

definition runTask_clear :: "nat \<Rightarrow> nat \<Rightarrow> Executor \<Rightarrow> Executor" where
  "runTask_clear t rt e =
     update_task rt (\<lambda>x. x\<lparr>readers := readers x - {t}\<rparr>) (update_task t (\<lambda>x. x\<lparr>reading := reading x - {rt}\<rparr>) e)"

definition runTask_lock :: "nat \<Rightarrow> Executor \<Rightarrow> Executor" where
  "runTask_lock t e = update_task t (\<lambda>x. x\<lparr>stage := Notifying\<rparr>) e"

definition runTask_notify :: "nat \<Rightarrow> nat \<Rightarrow> Executor \<Rightarrow> Executor" where
  "runTask_notify t bt e =
     (let e1 = update_task bt (\<lambda>x. x\<lparr>dependencies := dependencies x - 1\<rparr>)
                 (update_task t (\<lambda>x. x\<lparr>blocked := blocked x - {bt}\<rparr>) e)
      in if dependencies (task_of e1 bt) > 0 then e1 else e1\<lparr>executable := executable e1 @ [bt]\<rparr>)"

definition runTask_done :: "nat \<Rightarrow> Executor \<Rightarrow> Executor" where
  "runTask_done t e =
     (update_task t (\<lambda>x. x\<lparr>executed := True, stage := Finished\<rparr>) e)\<lparr>idle_workers := idle_workers e + 1\<rparr>"

section \<open>Steps\<close>

abbreviation stage_of :: "Executor \<Rightarrow> nat \<Rightarrow> stage" where
  "stage_of e i \<equiv> stage (task_of e i)"

definition unlocked :: "Executor \<Rightarrow> bytes \<Rightarrow> bool" where
  "unlocked e k \<longleftrightarrow> (case nodes e k of None \<Rightarrow> True | Some lt \<Rightarrow> stage_of e lt \<noteq> Notifying)"

text \<open>
  The steps of the caller, then those of the workers. Go ranges over maps in no fixed order, so a
  step picks any key, any reader and any blocked task. Whether a function fails is up to it.
\<close>

inductive exec_step :: "int \<Rightarrow> Executor \<Rightarrow> Executor \<Rightarrow> bool" for m where
  enqueue: "current e = None \<Longrightarrow> calls e = ks # rest \<Longrightarrow> exec_step m e (Run_begin m ks rest e)"
| key: "current e = Some (ks, deps) \<Longrightarrow> (k, v) \<in> set ks \<Longrightarrow> unlocked e k \<Longrightarrow>
    Run_key (exec_tasks e - 1) k v e = (e1, d) \<Longrightarrow>
    exec_step m e ((touch (exec_tasks e - 1) k v e1)\<lparr>current := Some (remove1 (k, v) ks, deps \<union> d)\<rparr>)"
| finish: "current e = Some ([], deps) \<Longrightarrow> exec_step m e (Run_end m deps e)"
| take: "executable e = t # ts \<Longrightarrow> 0 < idle_workers e \<Longrightarrow> exec_step m e (work_take t ts e)"
| enter: "t < exec_tasks e \<Longrightarrow> stage_of e t = Taken \<Longrightarrow> exec_step m e (runTask_enter t e)"
| return: "t < exec_tasks e \<Longrightarrow> stage_of e t = Running \<Longrightarrow> exec_step m e (runTask_return t ok e)"
| clear: "t < exec_tasks e \<Longrightarrow> stage_of e t = Clearing \<Longrightarrow> rt \<in> reading (task_of e t) \<Longrightarrow> stage_of e rt \<noteq> Notifying \<Longrightarrow>
    exec_step m e (runTask_clear t rt e)"
| lock: "t < exec_tasks e \<Longrightarrow> stage_of e t = Clearing \<Longrightarrow> reading (task_of e t) = {} \<Longrightarrow> exec_step m e (runTask_lock t e)"
| notify: "t < exec_tasks e \<Longrightarrow> stage_of e t = Notifying \<Longrightarrow> bt \<in> blocked (task_of e t) \<Longrightarrow>
    exec_step m e (runTask_notify t bt e)"
| finished: "t < exec_tasks e \<Longrightarrow> stage_of e t = Notifying \<Longrightarrow> blocked (task_of e t) = {} \<Longrightarrow>
    exec_step m e (runTask_done t e)"

text \<open>What \<^verbatim>\<open>Wait\<close> waits for: nothing is left to enqueue and every task is finished.\<close>

definition all_done :: "Executor \<Rightarrow> bool" where
  "all_done e \<longleftrightarrow> calls e = [] \<and> current e = None \<and> (\<forall>i < exec_tasks e. stage_of e i = Finished)"

section \<open>Fields after a step\<close>

lemma update_task_simps [simp]:
  "task_of (update_task i f e) j = (if j = i then f (task_of e i) else task_of e j)"
  "exec_tasks (update_task i f e) = exec_tasks e" "nodes (update_task i f e) = nodes e"
  "executable (update_task i f e) = executable e" "idle_workers (update_task i f e) = idle_workers e"
  "failed (update_task i f e) = failed e" "calls (update_task i f e) = calls e"
  "current (update_task i f e) = current e" "run_log (update_task i f e) = run_log e"
  by (simp_all add: update_task_def)

lemma new_task_simps [simp]:
  "touched (new_task m) = Map.empty" "reading (new_task m) = {}" "\<not> executed (new_task m)"
  "blocked (new_task m) = {}" "readers (new_task m) = {}" "dependencies (new_task m) = m" "stage (new_task m) = Queued"
  by (simp_all add: new_task_def)

text \<open>What enqueueing changes for one key: the tasks the new one waits for, and who reads whom.\<close>

lemma Run_key_fields:
  assumes "Run_key tid k v e = (e1, d)" and "nodes e k \<noteq> Some tid"
  shows "exec_tasks e1 = exec_tasks e" "executable e1 = executable e" "idle_workers e1 = idle_workers e"
    "failed e1 = failed e" "calls e1 = calls e" "run_log e1 = run_log e"
    "nodes e1 = (if nodes e k \<noteq> None \<and> v = PermRead then nodes e else (nodes e)(k \<mapsto> tid))"
    "d = (case nodes e k of None \<Rightarrow> {} | Some lt \<Rightarrow>
       (if v = PermRead then {} else readers (task_of e lt) - {tid}) \<union> (if executed (task_of e lt) then {} else {lt}))"
    "blocked (task_of e1 i) = (if i \<in> d then insert tid (blocked (task_of e i)) else blocked (task_of e i))"
    "stage_of e1 i = stage_of e i" "executed (task_of e1 i) = executed (task_of e i)"
    "dependencies (task_of e1 i) = dependencies (task_of e i)" "touched (task_of e1 i) = touched (task_of e i)"
    "reading (task_of e1 i) = (if v = PermRead \<and> i = tid then set_option (nodes e k) \<union> reading (task_of e i) else reading (task_of e i))"
    "readers (task_of e1 i) = (if v = PermRead \<and> nodes e k = Some i then insert tid (readers (task_of e i)) else readers (task_of e i))"
  using assms unfolding Run_key_def Let_def
  by (auto split: option.splits if_splits prod.splits)

section \<open>The invariant\<close>

definition waits :: "Executor \<Rightarrow> (nat \<times> nat) set" where
  "waits e = {(i, j). j \<in> blocked (task_of e i)}"

definition blockers :: "Executor \<Rightarrow> nat \<Rightarrow> nat set" where
  "blockers e j = {i. j \<in> blocked (task_of e i)}"

definition ended :: "Executor \<Rightarrow> nat \<Rightarrow> bool" where
  "ended e i \<longleftrightarrow> stage_of e i \<in> {Clearing, Notifying, Finished}"

definition enqueuing :: "Executor \<Rightarrow> nat \<Rightarrow> bool" where
  "enqueuing e i \<longleftrightarrow> current e \<noteq> None \<and> Suc i = exec_tasks e"

definition shaped :: "Executor \<Rightarrow> bool" where
  "shaped e \<longleftrightarrow>
     (\<forall>i j. j \<in> blocked (task_of e i) \<longrightarrow> i < j \<and> j < exec_tasks e \<and> stage_of e i \<noteq> Finished \<and> stage_of e j = Queued) \<and>
     (\<forall>i j. j \<in> readers (task_of e i) \<longleftrightarrow> i \<in> reading (task_of e j)) \<and>
     (\<forall>i j. i \<in> reading (task_of e j) \<longrightarrow> i < j \<and> j < exec_tasks e \<and> stage_of e j \<notin> {Notifying, Finished}) \<and>
     (\<forall>i < exec_tasks e. executed (task_of e i) \<longleftrightarrow> stage_of e i = Finished) \<and>
     (\<forall>i. enqueuing e i \<longrightarrow> stage_of e i = Queued) \<and>
     (\<forall>k n. nodes e k = Some n \<longrightarrow> n < exec_tasks e \<and> touched (task_of e n) k \<noteq> None) \<and>
     (current e \<noteq> None \<longrightarrow> exec_tasks e \<noteq> 0)"

text \<open>The counter of a task is the number of tasks it waits for; while it is enqueued, the most there can be on top.\<close>

definition counted :: "int \<Rightarrow> Executor \<Rightarrow> bool" where
  "counted m e \<longleftrightarrow>
     (\<forall>j < exec_tasks e. \<not> enqueuing e j \<longrightarrow> dependencies (task_of e j) = int (card (blockers e j))) \<and>
     (\<forall>j. j \<in> set (executable e) \<longleftrightarrow> j < exec_tasks e \<and> \<not> enqueuing e j \<and> stage_of e j = Queued \<and> blockers e j = {}) \<and>
     distinct (executable e) \<and>
     (\<forall>ks deps. current e = Some (ks, deps) \<longrightarrow>
        (let tid = exec_tasks e - 1 in
         blockers e tid \<subseteq> deps \<and> deps \<subseteq> {..<tid} \<and>
         (\<forall>i \<in> deps - blockers e tid. stage_of e i \<in> {Notifying, Finished}) \<and>
         dependencies (task_of e tid) = m - int (card (deps - blockers e tid))))"

text \<open>
  Of the tasks that use a key, those before its node have ended or the node waits for them, and
  those after it only read and are its readers until they have ended. Of two that conflict the
  first has ended or the second waits for it.
\<close>

definition ordered :: "Executor \<Rightarrow> bool" where
  "ordered e \<longleftrightarrow>
     (\<forall>i k v. touched (task_of e i) k = Some v \<longrightarrow> i < exec_tasks e \<and>
        (\<exists>n. nodes e k = Some n \<and>
           (i < n \<longrightarrow> ended e i \<or> (i, n) \<in> (waits e)\<^sup>+) \<and>
           (n < i \<longrightarrow> v = PermRead \<and> (i \<in> readers (task_of e n) \<or> ended e i)))) \<and>
     (\<forall>i j k v w. i < j \<longrightarrow> touched (task_of e i) k = Some v \<longrightarrow> touched (task_of e j) k = Some w \<longrightarrow>
        \<not> (v = PermRead \<and> w = PermRead) \<longrightarrow> ended e i \<or> (i, j) \<in> (waits e)\<^sup>+)"

definition key_conflict :: "(bytes \<rightharpoonup> Permissions) \<Rightarrow> (bytes \<rightharpoonup> Permissions) \<Rightarrow> bool" where
  "key_conflict f g \<longleftrightarrow> (\<exists>k v w. f k = Some v \<and> g k = Some w \<and> \<not> (v = PermRead \<and> w = PermRead))"

definition before :: "'a list \<Rightarrow> 'a \<Rightarrow> 'a \<Rightarrow> bool" where
  "before xs a b \<longleftrightarrow> (\<exists>us vs ws. xs = us @ a # vs @ b # ws)"

definition logged :: "Executor \<Rightarrow> bool" where
  "logged e \<longleftrightarrow> \<not> failed e \<longrightarrow>
     distinct (run_log e) \<and> (\<forall>i. i \<in> set (run_log e) \<longleftrightarrow> i < exec_tasks e \<and> ended e i) \<and>
     (\<forall>i j. i < j \<longrightarrow> j \<in> set (run_log e) \<longrightarrow> key_conflict (touched (task_of e i)) (touched (task_of e j)) \<longrightarrow>
        before (run_log e) i j)"

text \<open>Where the calls are: the tasks so far have the keys of the first calls.\<close>

definition supplied :: "Keys list \<Rightarrow> Executor \<Rightarrow> bool" where
  "supplied all e \<longleftrightarrow>
     exec_tasks e \<le> length all \<and> calls e = drop (exec_tasks e) all \<and>
     (\<forall>i < exec_tasks e. \<not> enqueuing e i \<longrightarrow> touched (task_of e i) = map_of (all ! i)) \<and>
     (\<forall>ks deps. current e = Some (ks, deps) \<longrightarrow>
        (let tid = exec_tasks e - 1 in
         set ks \<subseteq> set (all ! tid) \<and> distinct (map fst ks) \<and>
         touched (task_of e tid) = (map_of (all ! tid)) |` (- fst ` set ks)))"

definition staffed :: "nat \<Rightarrow> Executor \<Rightarrow> bool" where
  "staffed w e \<longleftrightarrow> idle_workers e + card {i. i < exec_tasks e \<and> stage_of e i \<notin> {Queued, Finished}} = w"

definition exec_inv :: "int \<Rightarrow> nat \<Rightarrow> Keys list \<Rightarrow> Executor \<Rightarrow> bool" where
  "exec_inv m w all e \<longleftrightarrow> shaped e \<and> counted m e \<and> ordered e \<and> logged e \<and> supplied all e \<and> staffed w e"

section \<open>The invariant holds along every run\<close>

lemmas step_defs = Run_begin_def Run_end_def work_take_def runTask_enter_def runTask_return_def runTask_clear_def
  runTask_lock_def runTask_notify_def runTask_done_def Let_def

lemma shapedD:
  assumes "shaped e"
  shows "j \<in> blocked (task_of e i) \<Longrightarrow> i < j \<and> j < exec_tasks e \<and> stage_of e i \<noteq> Finished \<and> stage_of e j = Queued"
    "j \<in> readers (task_of e i) \<longleftrightarrow> i \<in> reading (task_of e j)"
    "i \<in> reading (task_of e j) \<Longrightarrow> i < j \<and> j < exec_tasks e \<and> stage_of e j \<notin> {Notifying, Finished}"
    "i < exec_tasks e \<Longrightarrow> executed (task_of e i) \<longleftrightarrow> stage_of e i = Finished"
    "enqueuing e i \<Longrightarrow> stage_of e i = Queued"
    "nodes e k = Some n \<Longrightarrow> n < exec_tasks e \<and> touched (task_of e n) k \<noteq> None" "current e \<noteq> None \<Longrightarrow> exec_tasks e \<noteq> 0"
    "Suc i = exec_tasks e \<Longrightarrow> current e = Some x \<Longrightarrow> stage_of e i = Queued"
  using assms unfolding shaped_def enqueuing_def by blast+

text \<open>The fields of the state after a key step.\<close>

lemma key_step_fields:
  assumes "Run_key c k v e = (e1, d)" and "nodes e k \<noteq> Some c" and "e' = (touch c k v e1)\<lparr>current := cur\<rparr>"
  shows "exec_tasks e' = exec_tasks e" "executable e' = executable e" "idle_workers e' = idle_workers e"
    "failed e' = failed e" "calls e' = calls e" "run_log e' = run_log e" "current e' = cur"
    "nodes e' = (if nodes e k \<noteq> None \<and> v = PermRead then nodes e else (nodes e)(k \<mapsto> c))"
    "blocked (task_of e' i) = (if i \<in> d then insert c (blocked (task_of e i)) else blocked (task_of e i))"
    "stage_of e' i = stage_of e i" "executed (task_of e' i) = executed (task_of e i)"
    "dependencies (task_of e' i) = dependencies (task_of e i)"
    "touched (task_of e' i) = (if i = c then (touched (task_of e c))(k \<mapsto> v) else touched (task_of e i))"
    "reading (task_of e' i) = (if v = PermRead \<and> i = c then set_option (nodes e k) \<union> reading (task_of e i) else reading (task_of e i))"
    "readers (task_of e' i) = (if v = PermRead \<and> nodes e k = Some i then insert c (readers (task_of e i)) else readers (task_of e i))"
  using Run_key_fields [OF assms(1,2)] by (simp_all add: assms(3) touch_def)

text \<open>A key that is left is not recorded yet, so its node is another task.\<close>

definition fresh_key :: "Executor \<Rightarrow> bool" where
  "fresh_key e \<longleftrightarrow> (\<forall>ks deps k v. current e = Some (ks, deps) \<longrightarrow> (k, v) \<in> set ks \<longrightarrow>
     touched (task_of e (exec_tasks e - 1)) k = None)"

lemma key_stepE:
  assumes "current e = Some (ks, deps)" and "(k, v) \<in> set ks" and "Run_key (exec_tasks e - 1) k v e = (e1, d)"
    and "e' = (touch (exec_tasks e - 1) k v e1)\<lparr>current := cur\<rparr>" and "shaped e" and "fresh_key e"
  obtains c where "exec_tasks e = Suc c" "stage_of e c = Queued" "touched (task_of e c) k = None" "nodes e k \<noteq> Some c"
    "Run_key c k v e = (e1, d)" "e' = (touch c k v e1)\<lparr>current := cur\<rparr>" "\<And>lt. nodes e k = Some lt \<Longrightarrow> lt < c"
proof -
  note S = shapedD [OF assms(5)]
  obtain c where c: "exec_tasks e = Suc c" using assms(1) S(7) by (cases "exec_tasks e") auto
  have u: "touched (task_of e c) k = None" using assms(1,2,6) c by (auto simp: fresh_key_def)
  have n: "lt < c" if "nodes e k = Some lt" for lt
    using S(6) [OF that] u c by (cases "lt = c") (auto simp: less_Suc_eq)
  show thesis
    using that [OF c S(8) [OF c [symmetric] assms(1)] u _ _ _ n] n assms(3,4) c by fastforce
qed

lemma shaped_step:
  assumes "exec_step m e e'" and "shaped e" and "counted m e" and "fresh_key e"
  shows "shaped e'"
  using assms(1)
proof (cases rule: exec_step.cases)
  case (enqueue ks rest)
  note S = shapedD [OF assms(2)]
  show ?thesis
    unfolding shaped_def enqueue(1)
    by (auto simp: step_defs enqueuing_def less_Suc_eq S(2) S(4) dest: S(1,3,6))
next
  case (key ks deps k v e1 d)
  note S = shapedD [OF assms(2)]
  obtain c where c: "exec_tasks e = Suc c" "stage_of e c = Queued" "nodes e k \<noteq> Some c" "Run_key c k v e = (e1, d)"
      "e' = (touch c k v e1)\<lparr>current := Some (remove1 (k, v) ks, deps \<union> d)\<rparr>" "\<And>lt. nodes e k = Some lt \<Longrightarrow> lt < c"
    using key_stepE [OF key(2,3,5,1) assms(2,4)] by metis
  note F = Run_key_fields [OF c(4,3)] and G = key_step_fields [OF c(4,3,5)]
  have d: "i < c \<and> stage_of e i \<noteq> Finished" if "i \<in> d" for i
    using that c(6) unfolding F(8)
    by (auto simp: S(2) S(4) c(1) less_Suc_eq split: option.splits if_splits dest!: S(3))
  show ?thesis
    unfolding shaped_def G
  proof (intro conjI allI impI)
    show "j \<in> (if v = PermRead \<and> nodes e k = Some i then insert c (readers (task_of e i)) else readers (task_of e i)) \<longleftrightarrow>
      i \<in> (if v = PermRead \<and> j = c then set_option (nodes e k) \<union> reading (task_of e j) else reading (task_of e j))" for i j
      by (auto simp: S(2))
  qed (use c(1-3) d in \<open>auto simp: enqueuing_def G S(4) less_Suc_eq split: if_splits dest: c(6) S(1,3,6,7) S(8)\<close>)
next
  case (finish deps)
  note S = shapedD [OF assms(2)]
  show ?thesis
    unfolding shaped_def finish(1)
    by (auto simp: step_defs enqueuing_def S(2) S(4) finish(2) dest: S(1,3,6,7) S(8))
next
  case (take t ts)
  then have t: "t < exec_tasks e" "\<not> enqueuing e t" "blockers e t = {}" "stage_of e t = Queued"
    using assms(3) by (auto simp: counted_def)
  note S = shapedD [OF assms(2)]
  show ?thesis
    unfolding shaped_def take(1)
    using t by (auto simp: step_defs enqueuing_def S(2) S(4) blockers_def dest: S(1,3,6,7) S(8))
next
  case (enter t)
  note S = shapedD [OF assms(2)]
  show ?thesis
    unfolding shaped_def enter(1)
    using enter by (auto simp: step_defs enqueuing_def S(2) S(4)  dest: S(1,3,6,7) S(8))
next
  case (return t ok)
  note S = shapedD [OF assms(2)]
  show ?thesis
    unfolding shaped_def return(1)
    using return by (auto simp: step_defs enqueuing_def S(2) S(4)  dest: S(1,3,6,7) S(8))
next
  case (clear t rt)
  note S = shapedD [OF assms(2)]
  show ?thesis
    unfolding shaped_def clear(1)
    using clear by (auto simp: step_defs enqueuing_def S(2) S(4)  dest: S(1,3,6,7) S(8))
next
  case (lock t)
  note S = shapedD [OF assms(2)]
  show ?thesis
    unfolding shaped_def lock(1)
    using lock by (auto simp: step_defs enqueuing_def S(2) S(4)  dest: S(1,3,6,7) S(8))
next
  case (notify t bt)
  note S = shapedD [OF assms(2)]
  show ?thesis
    unfolding shaped_def notify(1)
    using notify by (auto simp: step_defs enqueuing_def S(2) S(4)  dest: S(1,3,6,7) S(8))
next
  case (finished t)
  note S = shapedD [OF assms(2)]
  show ?thesis
    unfolding shaped_def finished(1)
    using finished by (auto simp: step_defs enqueuing_def S(2) S(4)  dest: S(1,3,6,7) S(8))
qed

lemma finite_blockers: "shaped e \<Longrightarrow> finite (blockers e j)"
  by (rule finite_subset [of _ "{..<j}"]) (auto simp: blockers_def dest: shapedD)

lemma countedD:
  assumes "counted m e"
  shows "j < exec_tasks e \<Longrightarrow> \<not> enqueuing e j \<Longrightarrow> dependencies (task_of e j) = int (card (blockers e j))"
    "j \<in> set (executable e) \<longleftrightarrow> j < exec_tasks e \<and> \<not> enqueuing e j \<and> stage_of e j = Queued \<and> blockers e j = {}"
    "distinct (executable e)"
    "current e = Some (ks, deps) \<Longrightarrow> exec_tasks e = Suc c \<Longrightarrow> blockers e c \<subseteq> deps \<and> deps \<subseteq> {..<c} \<and>
       (\<forall>i \<in> deps - blockers e c. stage_of e i \<in> {Notifying, Finished}) \<and>
       dependencies (task_of e c) = m - int (card (deps - blockers e c))"
  using assms unfolding counted_def Let_def by auto

text \<open>Steps of the workers that leave the dependencies alone.\<close>

lemma counted_same:
  assumes "counted m e" and "\<And>i. blocked (task_of e' i) = blocked (task_of e i)"
    and "\<And>i. dependencies (task_of e' i) = dependencies (task_of e i)" "exec_tasks e' = exec_tasks e" "current e' = current e"
    and "\<And>i. stage_of e i \<in> {Notifying, Finished} \<Longrightarrow> stage_of e' i \<in> {Notifying, Finished}"
    and "distinct (executable e')"
    and "\<And>j. j \<in> set (executable e') \<longleftrightarrow> j < exec_tasks e \<and> \<not> enqueuing e j \<and> stage_of e' j = Queued \<and> blockers e j = {}"
  shows "counted m e'"
proof -
  have "blockers e' j = blockers e j" "enqueuing e' j = enqueuing e j" for j
    using assms by (simp_all add: blockers_def enqueuing_def)
  with assms(2-) countedD [OF assms(1)] show ?thesis
    unfolding counted_def Let_def using assms(1) [unfolded counted_def Let_def, THEN conjunct2, THEN conjunct2, THEN conjunct2]
    by auto
qed

lemma counted_notify:
  assumes "counted m e" and "shaped e" and "int (exec_tasks e) \<le> m" and "stage_of e t = Notifying" and "bt \<in> blocked (task_of e t)"
  shows "counted m (runTask_notify t bt e)"
proof -
  note S = shapedD [OF assms(2)] and C = countedD [OF assms(1)] and fin = finite_blockers [OF assms(2)]
  let ?e = "runTask_notify t bt e"
  have bt: "t < bt" "bt < exec_tasks e" "stage_of e bt = Queued" "t \<in> blockers e bt"
    using S(1) [OF assms(5)] assms(5) by (auto simp: blockers_def)
  have same: "exec_tasks ?e = exec_tasks e" "current ?e = current e" "enqueuing ?e j = enqueuing e j" "stage_of ?e j = stage_of e j" for j
    by (auto simp: step_defs enqueuing_def)
  have b: "blockers ?e j = (if j = bt then blockers e j - {t} else blockers e j)" for j
    using bt(1) by (auto simp: blockers_def step_defs)
  have dep: "dependencies (task_of ?e j) = (if j = bt then dependencies (task_of e j) - 1 else dependencies (task_of e j))" for j
    using bt(1) by (auto simp: step_defs)
  have ex: "executable ?e = (if dependencies (task_of ?e bt) > 0 then executable e else executable e @ [bt])"
    using bt(1) by (auto simp: step_defs)
  have one: "card (blockers e bt - {t}) = card (blockers e bt) - 1" "card (blockers e bt) \<noteq> 0"
    using bt(4) fin [of bt] by auto
  have enq: "dependencies (task_of ?e bt) = m - int (card (deps - (blockers e bt - {t}))) \<and> dependencies (task_of ?e bt) > 0 \<and>
      blockers e bt - {t} \<subseteq> deps \<and> (\<forall>i \<in> deps - (blockers e bt - {t}). stage_of e i \<in> {Notifying, Finished})"
    if "current e = Some (ks, deps)" "Suc bt = exec_tasks e" for ks deps
  proof -
    note D = C(4) [OF that(1) that(2) [symmetric]]
    have "finite deps" using D finite_subset by blast
    moreover have "deps - (blockers e bt - {t}) = insert t (deps - blockers e bt)" "t \<in> blockers e bt"
      using D bt(4) by auto
    ultimately have "card (deps - (blockers e bt - {t})) = Suc (card (deps - blockers e bt))" by simp
    moreover have "card (deps - (blockers e bt - {t})) \<le> card {..<bt}"
      using D by (intro card_mono) auto
    ultimately show ?thesis using D assms(3,4) that(2) by (auto simp: dep)
  qed
  have ex': "executable ?e = (if \<not> enqueuing e bt \<and> blockers e bt = {t} then executable e @ [bt] else executable e)"
  proof (cases "enqueuing e bt")
    case True
    with enq show ?thesis by (auto simp: ex enqueuing_def)
  next
    case False
    then have "dependencies (task_of ?e bt) > 0 \<longleftrightarrow> blockers e bt - {t} \<noteq> {}"
      using C(1) [OF bt(2)] one card_gt_0_iff [of "blockers e bt - {t}"] fin [of bt] by (auto simp: dep)
    with False bt(4) show ?thesis by (auto simp: ex)
  qed
  have cur: "(if exec_tasks e - 1 = bt then blockers e (exec_tasks e - 1) - {t} else blockers e (exec_tasks e - 1)) \<subseteq> deps \<and> deps \<subseteq> {..<exec_tasks e - 1} \<and>
      (\<forall>i \<in> deps - (if exec_tasks e - 1 = bt then blockers e (exec_tasks e - 1) - {t} else blockers e (exec_tasks e - 1)). stage_of e i \<in> {Notifying, Finished}) \<and>
      dependencies (task_of ?e (exec_tasks e - 1)) =
        m - int (card (deps - (if exec_tasks e - 1 = bt then blockers e (exec_tasks e - 1) - {t} else blockers e (exec_tasks e - 1))))"
    if cu: "current e = Some (ks, deps)" for ks deps
  proof -
    obtain c where c: "exec_tasks e = Suc c" using cu S(7) by (cases "exec_tasks e") auto
    show ?thesis
    proof (cases "c = bt")
      case True
      with c enq [OF cu] C(4) [OF cu c] show ?thesis by simp
    next
      case False
      with c C(4) [OF cu c] show ?thesis by (simp add: dep)
    qed
  qed
  have "bt \<notin> set (executable e)" using bt(4) C(2) [of bt] by auto
  then show ?thesis
    unfolding counted_def Let_def b same
  proof (intro conjI allI impI, goal_cases)
    case (1 j)
    then show ?case using C(1) [of j] one by (auto simp: dep)
  next
    case (2 j)
    then show ?case using C(2) [of j] bt by (auto simp: ex')
  next
    case 3
    then show ?case using C(3) by (auto simp: ex')
  qed (use cur in blast)+
qed

lemma counted_key:
  assumes "counted m e" and "shaped e" and "fresh_key e" and "current e = Some (ks, deps)" and "(k, v) \<in> set ks" and "unlocked e k"
    and "Run_key (exec_tasks e - 1) k v e = (e1, d)"
    and "e' = (touch (exec_tasks e - 1) k v e1)\<lparr>current := Some (remove1 (k, v) ks, deps \<union> d)\<rparr>"
  shows "counted m e'"
proof -
  note S = shapedD [OF assms(2)] and C = countedD [OF assms(1)]
  obtain c where c: "exec_tasks e = Suc c" "stage_of e c = Queued" "nodes e k \<noteq> Some c" "Run_key c k v e = (e1, d)"
      "e' = (touch c k v e1)\<lparr>current := Some (remove1 (k, v) ks, deps \<union> d)\<rparr>" "\<And>lt. nodes e k = Some lt \<Longrightarrow> lt < c"
    using key_stepE [OF assms(4,5,7,8,2,3)] by metis
  note F = Run_key_fields [OF c(4,3)] and G = key_step_fields [OF c(4,3,5)]
  have d: "i < c \<and> stage_of e i \<notin> {Notifying, Finished}" if "i \<in> d" for i
    using that c(6) assms(6) unfolding F(8) unlocked_def
    by (auto simp: S(2) S(4) c(1) less_Suc_eq split: option.splits if_splits dest!: S(3))
  have b: "blockers e' j = (if j = c then blockers e j \<union> d else blockers e j)" for j
    by (auto simp: blockers_def G)
  note D = C(4) [OF assms(4) c(1)]
  have "deps \<union> d - (blockers e c \<union> d) = deps - blockers e c" using D d by auto
  then show ?thesis
    unfolding counted_def Let_def b G c(1)
    using C(1-3) D d assms(4) by (auto simp: enqueuing_def G c(1))
qed

lemma counted_step:
  assumes "exec_step m e e'" and "shaped e" and "counted m e" and "fresh_key e" and "int (exec_tasks e) \<le> m"
  shows "counted m e'"
  using assms(1)
proof (cases rule: exec_step.cases)
  case (enqueue ks rest)
  note S = shapedD [OF assms(2)] and C = countedD [OF assms(3)]
  have b: "blockers e' j = blockers e j" for j
    using S(1) [of j "exec_tasks e"] by (auto simp: blockers_def enqueue(1) step_defs)
  have "blockers e (exec_tasks e) = {}" using S(1) [of "exec_tasks e"] by (auto simp: blockers_def)
  then show ?thesis
    unfolding counted_def b Let_def
    using enqueue C(3)
    by (auto simp: step_defs enqueuing_def C(1,2) less_Suc_eq)
next
  case (key ks deps k v e1 d)
  with assms counted_key show ?thesis by blast
next
  case (finish deps)
  note S = shapedD [OF assms(2)] and C = countedD [OF assms(3)]
  obtain c where c: "exec_tasks e = Suc c" using finish S(7) by (cases "exec_tasks e") auto
  note D = C(4) [OF finish(2) c]
  have q: "enqueuing e c" "stage_of e c = Queued" using finish c S(5) [of c] by (auto simp: enqueuing_def)
  have "finite deps" using D finite_subset by blast
  then have "card (deps - blockers e c) = card deps - card (blockers e c)" "card (blockers e c) \<le> card deps"
    using D finite_blockers [OF assms(2)] by (auto intro: card_Diff_subset card_mono)
  then have dep: "dependencies (task_of e c) - (m - int (card deps)) = int (card (blockers e c))" using D by simp
  have pos: "m - int (card deps) < dependencies (task_of e c) \<longleftrightarrow> blockers e c \<noteq> {}"
    using dep card_gt_0_iff [of "blockers e c"] finite_blockers [OF assms(2), of c] by linarith
  have b: "blockers e' j = blockers e j" for j by (auto simp: blockers_def finish(1) step_defs)
  have e: "current e' = None" "exec_tasks e' = exec_tasks e" "stage_of e' j = stage_of e j" "\<not> enqueuing e' j"
    "dependencies (task_of e' j) = (if j = c then int (card (blockers e c)) else dependencies (task_of e j))"
    "executable e' = (if blockers e c = {} then executable e @ [c] else executable e)" for j
    using dep by (simp_all add: finish(1) step_defs enqueuing_def c pos)
  have nq: "enqueuing e j \<longleftrightarrow> j = c" for j using finish(2) c by (auto simp: enqueuing_def)
  show ?thesis
    unfolding counted_def b e(1-3,5,6)
  proof (intro conjI allI impI, goal_cases)
    case (1 j)
    then show ?case using C(1) [of j] nq by simp
  next
    case (2 j)
    then show ?case using C(2) [of j] nq q c e(4) by auto
  next
    case 3
    then show ?case using C(2) [of c] C(3) nq by simp
  qed simp
next
  case (take t ts)
  note C = countedD [OF assms(3)]
  have e: "executable e' = ts" "stage_of e' j = (if j = t then Taken else stage_of e j)" for j
    by (simp_all add: take(1) step_defs)
  have "distinct ts" using C(3) take(2) by simp
  moreover have "j \<in> set ts \<longleftrightarrow> j \<noteq> t \<and> j \<in> set (executable e)" for j using C(3) take(2) by auto
  moreover have "stage_of e t = Queued" using C(2) [of t] take(2) by simp
  ultimately show ?thesis
    by (intro counted_same [OF assms(3)]) (auto simp: e(1) C(2), auto simp: take(1) step_defs split: if_splits)
next
  case (notify t bt)
  with assms counted_notify show ?thesis by blast
qed (rule counted_same [OF assms(3)]; use assms countedD(2,3) [OF assms(3)] in \<open>auto simp: step_defs\<close>)+

subsection \<open>Order\<close>

lemma waits_path_Queued:
  "(i, j) \<in> (waits e)\<^sup>+ \<Longrightarrow> shaped e \<Longrightarrow> stage_of e j = Queued \<and> i < j"
  by (induction rule: trancl_induct) (auto simp: waits_def dest: shapedD(1))

lemma orderedD:
  assumes "ordered e" and "touched (task_of e i) k = Some v"
  shows "i < exec_tasks e"
    "\<exists>n. nodes e k = Some n \<and> (i < n \<longrightarrow> ended e i \<or> (i, n) \<in> (waits e)\<^sup>+) \<and>
       (n < i \<longrightarrow> v = PermRead \<and> (i \<in> readers (task_of e n) \<or> ended e i))"
    "i < j \<Longrightarrow> touched (task_of e j) k = Some w \<Longrightarrow> \<not> (v = PermRead \<and> w = PermRead) \<Longrightarrow> ended e i \<or> (i, j) \<in> (waits e)\<^sup>+"
  using assms unfolding ordered_def by blast+

text \<open>Steps that add no key and keep the paths from tasks that have not ended.\<close>

lemma ordered_same:
  assumes "ordered e" and "exec_tasks e \<le> exec_tasks e'"
    and "\<And>i k v. touched (task_of e' i) k = Some v \<Longrightarrow> touched (task_of e i) k = Some v"
    and "nodes e' = nodes e" "\<And>i. i < exec_tasks e \<Longrightarrow> ended e i \<Longrightarrow> ended e' i"
    and "\<And>i j. i < exec_tasks e \<Longrightarrow> (i, j) \<in> (waits e)\<^sup>+ \<Longrightarrow> ended e' i \<or> (i, j) \<in> (waits e')\<^sup>+"
    and "\<And>i n. i \<in> readers (task_of e n) \<Longrightarrow> i \<in> readers (task_of e' n) \<or> ended e' i"
  shows "ordered e'"
  unfolding ordered_def
proof (intro conjI allI impI)
  fix i k v assume "touched (task_of e' i) k = Some v"
  then have t: "touched (task_of e i) k = Some v" by (rule assms(3))
  note O = orderedD [OF assms(1) t]
  show "i < exec_tasks e'" using O(1) assms(2) by simp
  show "\<exists>n. nodes e' k = Some n \<and> (i < n \<longrightarrow> ended e' i \<or> (i, n) \<in> (waits e')\<^sup>+) \<and>
      (n < i \<longrightarrow> v = PermRead \<and> (i \<in> readers (task_of e' n) \<or> ended e' i))"
    using O(1,2) assms(4-7) by metis
next
  fix i j k v w
  assume "i < j" "touched (task_of e' i) k = Some v" "touched (task_of e' j) k = Some w" "\<not> (v = PermRead \<and> w = PermRead)"
  then show "ended e' i \<or> (i, j) \<in> (waits e')\<^sup>+"
    using assms(3,5,6) orderedD(1,3) [OF assms(1)] by metis
qed

lemma ordered_quiet:
  assumes "ordered e" and "exec_tasks e' = exec_tasks e" "nodes e' = nodes e"
    and "\<And>i. touched (task_of e' i) = touched (task_of e i)" "\<And>i. blocked (task_of e' i) = blocked (task_of e i)"
    and "\<And>i. ended e i \<Longrightarrow> ended e' i"
    and "\<And>i n. i \<in> readers (task_of e n) \<Longrightarrow> i \<in> readers (task_of e' n) \<or> ended e' i"
  shows "ordered e'"
proof -
  have "waits e' = waits e" using assms(5) by (simp add: waits_def)
  then show ?thesis by (intro ordered_same [OF assms(1)]) (simp_all add: assms)
qed

lemma waits_notify:
  assumes "shaped e" and "stage_of e t = Notifying" and "(i, j) \<in> (waits e)\<^sup>+" and "i \<noteq> t"
    and w: "waits e' = waits e - {(t, bt)}"
  shows "(i, j) \<in> (waits e')\<^sup>+"
  using assms(3)
proof (induction rule: trancl_induct)
  case (base y)
  with assms(4) w show ?case by auto
next
  case (step y z)
  have "stage_of e y = Queued" using step(1) assms(1) waits_path_Queued by blast
  then have "y \<noteq> t" using assms(2) by auto
  then have "(y, z) \<in> waits e'" using step(2) w by auto
  with step(3) show ?case by (rule trancl_into_trancl)
qed

text \<open>The new task waits for every conflicting task that has not ended.\<close>

lemma key_waits:
  assumes "ordered e" and "shaped e" and c: "touched (task_of e c) k = None" "Run_key c k v e = (e1, d)" "nodes e k \<noteq> Some c"
    and w: "waits e' = waits e \<union> {(i, c) |i. i \<in> d}"
    and t: "touched (task_of e i) k = Some u" "\<not> (u = PermRead \<and> v = PermRead)"
  shows "ended e i \<or> (i, c) \<in> (waits e')\<^sup>+"
proof -
  note S = shapedD [OF assms(2)] and F = Run_key_fields [OF c(2,3)]
  obtain lt where lt: "nodes e k = Some lt" "i < lt \<longrightarrow> ended e i \<or> (i, lt) \<in> (waits e)\<^sup>+"
      "lt < i \<longrightarrow> u = PermRead \<and> (i \<in> readers (task_of e lt) \<or> ended e i)"
    using orderedD(2) [OF assms(1) t(1)] by blast
  have ltn: "lt < exec_tasks e" using S(6) [OF lt(1)] by simp
  have node: "ended e lt \<or> (lt, c) \<in> waits e'" "executed (task_of e lt) \<or> (lt, c) \<in> waits e'"
    using S(4) [OF ltn] unfolding w F(8) lt(1) ended_def by auto
  consider "i = lt" | "i < lt" "\<not> ended e i" | "lt < i" | "ended e i" by linarith
  then show ?thesis
  proof cases
    case 2
    then have p: "(i, lt) \<in> (waits e)\<^sup>+" using lt(2) by simp
    then have "\<not> executed (task_of e lt)" using waits_path_Queued [OF p assms(2)] S(4) [OF ltn] by simp
    moreover have "(i, lt) \<in> (waits e')\<^sup>+" using p by (rule trancl_mono) (simp add: w)
    ultimately show ?thesis using node by (auto intro: trancl_into_trancl)
  next
    case 3
    then have "i \<in> readers (task_of e lt) \<or> ended e i" "v \<noteq> PermRead" using lt(3) t(2) by auto
    moreover have "i \<noteq> c" using t(1) c(1) by auto
    ultimately show ?thesis unfolding w F(8) lt(1) by auto
  qed (use node in auto)
qed

lemma ordered_key:
  assumes "ordered e" and "shaped e" and c: "exec_tasks e = Suc c" "touched (task_of e c) k = None" "nodes e k \<noteq> Some c"
    "Run_key c k v e = (e1, d)" "e' = (touch c k v e1)\<lparr>current := cur\<rparr>" "\<And>lt. nodes e k = Some lt \<Longrightarrow> lt < c"
  shows "ordered e'"
proof -
  note G = key_step_fields [OF c(4,3,5)]
  have en: "ended e' i = ended e i" for i by (simp add: ended_def G)
  have w: "waits e' = waits e \<union> {(i, c) |i. i \<in> d}" by (auto simp: waits_def G split: if_splits)
  then have mono: "(i, j) \<in> (waits e)\<^sup>+ \<Longrightarrow> (i, j) \<in> (waits e')\<^sup>+" for i j
    by (erule_tac trancl_mono) blast
  note new = key_waits [OF assms(1,2) c(2,4,3) w]
  have le: "i \<le> c" if "touched (task_of e i) k' = Some u" for i k' u
    using orderedD(1) [OF assms(1) that] c(1) by simp
  have keep: "\<exists>n. nodes e k' = Some n \<and> (i < n \<longrightarrow> ended e i \<or> (i, n) \<in> (waits e')\<^sup>+) \<and>
      (n < i \<longrightarrow> u = PermRead \<and> (i \<in> readers (task_of e' n) \<or> ended e i))"
    if "touched (task_of e i) k' = Some u" for i k' u
    using orderedD(2) [OF assms(1) that] mono by (auto simp: G)
  have node: "\<exists>n. nodes e' k' = Some n \<and> (i < n \<longrightarrow> ended e i \<or> (i, n) \<in> (waits e')\<^sup>+) \<and>
      (n < i \<longrightarrow> u = PermRead \<and> (i \<in> readers (task_of e' n) \<or> ended e i))"
    if t: "touched (task_of e' i) k' = Some u" for i k' u
  proof (cases "k' = k \<and> i = c")
    case True
    then show ?thesis using t c(6) by (cases "nodes e k") (auto simp: G)
  next
    case False
    then have old: "touched (task_of e i) k' = Some u" using t by (auto simp: G split: if_splits)
    show ?thesis
    proof (cases "nodes e' k' = nodes e k'")
      case other: False
      then have kk: "k' = k" "nodes e' k = Some c" "nodes e k = None \<or> v \<noteq> PermRead" by (auto simp: G split: if_splits)
      with False le [OF old] have "i < c" by auto
      moreover have "v \<noteq> PermRead" using kk keep [OF old] by auto
      ultimately show ?thesis using kk new [of i u] old by auto
    qed (use keep [OF old] in simp)
  qed
  have pair: "ended e i \<or> (i, j) \<in> (waits e')\<^sup>+"
    if ij: "i < j" "touched (task_of e' i) k' = Some u" "touched (task_of e' j) k' = Some x" "\<not> (u = PermRead \<and> x = PermRead)"
    for i j k' u x
  proof -
    have "j \<le> c" using ij le [of j k' x] by (auto simp: G split: if_splits)
    then have i: "touched (task_of e i) k' = Some u" using ij(1,2) by (auto simp: G)
    show ?thesis
    proof (cases "j = c \<and> k' = k")
      case True
      then show ?thesis using new [of i u] i ij(3,4) by (auto simp: G)
    next
      case False
      then have "touched (task_of e j) k' = Some x" using ij(3) by (auto simp: G split: if_splits)
      with orderedD(3) [OF assms(1) i ij(1) _ ij(4)] mono show ?thesis by blast
    qed
  qed
  have "i < exec_tasks e'" if "touched (task_of e' i) k' = Some u" for i k' u
    using that le [of i k' u] c(1) by (auto simp: G split: if_splits)
  with node pair show ?thesis unfolding ordered_def en by blast
qed

lemma ordered_step:
  assumes "exec_step m e e'" and "ordered e" and "shaped e" and "fresh_key e" and "counted m e"
  shows "ordered e'"
  using assms(1)
proof (cases rule: exec_step.cases)
  case (enqueue ks rest)
  have "blocked (task_of e (exec_tasks e)) = {}" using shapedD(1) [OF assms(3), of _ "exec_tasks e"] by (meson less_asym equals0I)
  then have w: "waits e' = waits e" by (auto simp: waits_def enqueue(1) step_defs split: if_splits)
  have "readers (task_of e (exec_tasks e)) = {}"
    using shapedD(2,3) [OF assms(3)] by (meson less_asym equals0I)
  moreover have "exec_tasks e' = Suc (exec_tasks e)" "nodes e' = nodes e"
    "task_of e' i = (if i = exec_tasks e then new_task m else task_of e i)" for i
    by (simp_all add: enqueue(1) step_defs)
  ultimately show ?thesis
    by (intro ordered_same [OF assms(2)]) (auto simp: w ended_def split: if_splits)
next
  case (key ks deps k v e1 d)
  show ?thesis by (rule key_stepE [OF key(2,3,5,1) assms(3,4)]) (rule ordered_key [OF assms(2,3)])
next
  case (take t ts)
  then have "stage_of e t = Queued" using countedD(2) [OF assms(5), of t] by simp
  with take show ?thesis by (intro ordered_quiet [OF assms(2)]) (auto simp: step_defs ended_def split: if_splits)
next
  case (notify t bt)
  have "waits e' = waits e - {(t, bt)}" by (auto simp: waits_def notify(1) step_defs split: if_splits)
  with waits_notify [OF assms(3) notify(3)] notify(3) show ?thesis
    by (intro ordered_same [OF assms(2)]) (auto simp: notify(1) step_defs ended_def split: if_splits)
qed (rule ordered_quiet [OF assms(2)]; auto simp: step_defs ended_def split: if_splits)+

subsection \<open>The log, the calls and the workers\<close>

lemma loggedD:
  assumes "logged e" and "\<not> failed e"
  shows "distinct (run_log e)" "i \<in> set (run_log e) \<longleftrightarrow> i < exec_tasks e \<and> ended e i"
    "i < j \<Longrightarrow> j \<in> set (run_log e) \<Longrightarrow> key_conflict (touched (task_of e i)) (touched (task_of e j)) \<Longrightarrow> before (run_log e) i j"
  using assms unfolding logged_def by blast+

lemma logged_same:
  assumes "logged e" and "\<not> failed e' \<Longrightarrow> \<not> failed e" and "run_log e' = run_log e"
    and "\<And>i. \<not> failed e' \<Longrightarrow> i < exec_tasks e' \<and> ended e' i \<longleftrightarrow> i < exec_tasks e \<and> ended e i"
    and "\<And>i j. j < exec_tasks e \<Longrightarrow> ended e j \<Longrightarrow> i \<le> j \<Longrightarrow> touched (task_of e' i) = touched (task_of e i)"
  shows "logged e'"
proof (cases "failed e'")
  case False
  note L = loggedD [OF assms(1) assms(2) [OF False]]
  show ?thesis
    unfolding logged_def
    using L assms(3) assms(4) [OF False] assms(5) by (metis less_imp_le_nat order_refl)
qed (simp add: logged_def)

lemma logged_return:
  assumes "logged e" and "ordered e" and "shaped e" and "t < exec_tasks e" and "stage_of e t = Running"
  shows "logged (runTask_return t ok e)"
  unfolding logged_def
proof
  let ?e = "runTask_return t ok e"
  assume "\<not> failed ?e"
  then have ok: "\<not> failed e" by (simp add: step_defs)
  note L = loggedD [OF assms(1) ok]
  have nt: "t \<notin> set (run_log e)" using L(2) [of t] assms(5) by (simp add: ended_def)
  have e: "run_log ?e = run_log e @ [t]" "exec_tasks ?e = exec_tasks e" "ended ?e i \<longleftrightarrow> ended e i \<or> i = t"
    "touched (task_of ?e i) = touched (task_of e i)" for i
    by (auto simp: step_defs ended_def)
  have "before (run_log e @ [t]) i j"
    if ij: "i < j" "j \<in> set (run_log e) \<or> j = t" "key_conflict (touched (task_of e i)) (touched (task_of e j))" for i j
  proof (cases "j = t")
    case True
    obtain k v w where k: "touched (task_of e i) k = Some v" "touched (task_of e t) k = Some w" "\<not> (v = PermRead \<and> w = PermRead)"
      using ij(3) True by (auto simp: key_conflict_def)
    have "(i, t) \<notin> (waits e)\<^sup>+" using waits_path_Queued [OF _ assms(3)] assms(5) by fastforce
    then have "i < exec_tasks e \<and> ended e i" using orderedD [OF assms(2) k(1)] ij(1) k True by blast
    then have "i \<in> set (run_log e)" using L(2) by blast
    then obtain us ws where "run_log e = us @ i # ws" by (auto simp: in_set_conv_decomp)
    then have "run_log e @ [t] = us @ i # ws @ t # []" by simp
    then show ?thesis unfolding True before_def by blast
  next
    case False
    then have "before (run_log e) i j" using L(3) ij by blast
    then obtain us vs ws where "run_log e = us @ i # vs @ j # ws" by (auto simp: before_def)
    then have "run_log e @ [t] = us @ i # vs @ j # (ws @ [t])" by simp
    then show ?thesis unfolding before_def by blast
  qed
  then show "distinct (run_log ?e) \<and> (\<forall>i. i \<in> set (run_log ?e) \<longleftrightarrow> i < exec_tasks ?e \<and> ended ?e i) \<and>
     (\<forall>i j. i < j \<longrightarrow> j \<in> set (run_log ?e) \<longrightarrow> key_conflict (touched (task_of ?e i)) (touched (task_of ?e j)) \<longrightarrow>
        before (run_log ?e) i j)"
    unfolding e using L(1,2) nt assms(4) by auto
qed

lemma logged_step:
  assumes "exec_step m e e'" and "logged e" and "ordered e" and "shaped e" and "counted m e" and "fresh_key e"
  shows "logged e'"
  using assms(1)
proof (cases rule: exec_step.cases)
  case (enqueue ks rest)
  then show ?thesis
    by (intro logged_same [OF assms(2)]) (auto simp: step_defs ended_def less_Suc_eq)
next
  case (key ks deps k v e1 d)
  obtain c where c: "exec_tasks e = Suc c" "stage_of e c = Queued" "nodes e k \<noteq> Some c" "Run_key c k v e = (e1, d)"
      "e' = (touch c k v e1)\<lparr>current := Some (remove1 (k, v) ks, deps \<union> d)\<rparr>"
    using key_stepE [OF key(2,3,5,1) assms(4,6)] by metis
  note G = key_step_fields [OF c(4,3,5)]
  have q: "\<not> ended e c" by (simp add: ended_def c(2))
  have "i \<noteq> c" if "j < exec_tasks e" "ended e j" "i \<le> j" for i j using that q c(1) by (auto simp: less_Suc_eq)
  then show ?thesis by (intro logged_same [OF assms(2)]) (simp_all add: G ended_def)
next
  case (take t ts)
  then have "stage_of e t = Queued" using countedD(2) [OF assms(5), of t] by simp
  with take show ?thesis by (intro logged_same [OF assms(2)]) (auto simp: step_defs ended_def)
next
  case (return t ok)
  with logged_return [OF assms(2-4)] show ?thesis by blast
qed (rule logged_same [OF assms(2)]; auto simp: step_defs ended_def split: if_splits)+

lemma suppliedD:
  assumes "supplied all e"
  shows "exec_tasks e \<le> length all" "calls e = drop (exec_tasks e) all"
    "i < exec_tasks e \<Longrightarrow> \<not> enqueuing e i \<Longrightarrow> touched (task_of e i) = map_of (all ! i)"
    "current e = Some (ks, deps) \<Longrightarrow> exec_tasks e = Suc c \<Longrightarrow> set ks \<subseteq> set (all ! c) \<and> distinct (map fst ks) \<and>
      touched (task_of e c) = (map_of (all ! c)) |` (- fst ` set ks)"
  using assms unfolding supplied_def Let_def by auto

lemma supplied_fresh: "supplied all e \<Longrightarrow> shaped e \<Longrightarrow> fresh_key e"
  unfolding fresh_key_def
proof (intro allI impI)
  fix ks deps k v assume a: "supplied all e" "shaped e" "current e = Some (ks, deps)" "(k, v) \<in> set ks"
  obtain c where c: "exec_tasks e = Suc c" using a(3) shapedD(7) [OF a(2)] by (cases "exec_tasks e") auto
  from suppliedD(4) [OF a(1,3) c] a(4) show "touched (task_of e (exec_tasks e - 1)) k = None"
    by (auto simp: c restrict_map_def image_iff)
qed

lemma supplied_same:
  assumes "supplied all e" and "exec_tasks e' = exec_tasks e" "calls e' = calls e" "current e' = current e"
    and "\<And>i. touched (task_of e' i) = touched (task_of e i)"
  shows "supplied all e'"
  using assms by (simp add: supplied_def enqueuing_def)

lemma supplied_step:
  assumes "exec_step m e e'" and "supplied all e" and "shaped e" and "\<forall>ks \<in> set all. distinct (map fst ks)"
  shows "supplied all e'"
  using assms(1)
proof (cases rule: exec_step.cases)
  case (enqueue ks rest)
  note P = suppliedD [OF assms(2)]
  have d: "drop (exec_tasks e) all = ks # rest" using enqueue P(2) by simp
  then have l: "exec_tasks e < length all" by (metis drop_all linorder_not_less list.distinct(1))
  then have k: "all ! exec_tasks e = ks" "drop (Suc (exec_tasks e)) all = rest"
    using d Cons_nth_drop_Suc [OF l] by auto
  have "map_of ks |` (- fst ` set ks) = Map.empty"
    by (auto simp: restrict_map_def fun_eq_iff map_of_eq_None_iff)
  moreover have "distinct (map fst ks)" using assms(4) l k(1) by (metis nth_mem)
  ultimately show ?thesis
    using P(3) enqueue(2) l k by (auto simp: supplied_def enqueue(1) step_defs enqueuing_def less_Suc_eq)
next
  case (key ks deps k v e1 d)
  note P = suppliedD [OF assms(2)]
  obtain c where c: "exec_tasks e = Suc c" "nodes e k \<noteq> Some c" "Run_key c k v e = (e1, d)"
      "e' = (touch c k v e1)\<lparr>current := Some (remove1 (k, v) ks, deps \<union> d)\<rparr>"
    using key_stepE [OF key(2,3,5,1) assms(3) supplied_fresh [OF assms(2,3)]] by metis
  note G = key_step_fields [OF c(3,2,4)]
  note Q = P(4) [OF key(2) c(1)]
  have "distinct (map fst (all ! c))" using assms(4) P(1) c(1) by simp
  then have kv: "map_of (all ! c) k = Some v" using Q key(3) by (auto simp: subsetD)
  have f: "distinct (map fst (remove1 (k, v) ks))" "fst ` set (remove1 (k, v) ks) = fst ` set ks - {k}"
    "set (remove1 (k, v) ks) \<subseteq> set (all ! c)"
    using Q key(3) by (auto simp: distinct_map inj_on_def) (metis eq_key_imp_eq_value distinct_map fst_conv snd_conv inj_on_def)
  have "(map_of (all ! c) |` (- fst ` set ks))(k \<mapsto> v) = map_of (all ! c) |` (- (fst ` set ks - {k}))"
    using kv by (auto simp: fun_eq_iff restrict_map_def)
  then show ?thesis
    unfolding supplied_def Let_def G
    using P(1-3) Q f c(1) key(2) by (auto simp: enqueuing_def G)
next
  case (finish deps)
  note S = shapedD [OF assms(3)] and P = suppliedD [OF assms(2)]
  obtain c where c: "exec_tasks e = Suc c" using finish S(7) by (cases "exec_tasks e") auto
  note Q = P(4) [OF finish(2) c]
  have "enqueuing e i \<longleftrightarrow> i = c" for i using finish(2) c by (auto simp: enqueuing_def)
  moreover have "map_of (all ! c) |` UNIV = map_of (all ! c)" by (simp add: restrict_map_def)
  ultimately have "touched (task_of e i) = map_of (all ! i)" if "i < exec_tasks e" for i
    using P(3) [OF that] Q by (cases "i = c") auto
  with P(1,2) show ?thesis by (auto simp: supplied_def finish(1) step_defs)
qed (rule supplied_same [OF assms(2)]; auto simp: step_defs)+

lemma staffed_same:
  assumes "staffed w e" and "idle_workers e' = idle_workers e"
    and "\<And>i. i < exec_tasks e' \<and> stage_of e' i \<notin> {Queued, Finished} \<longleftrightarrow> i < exec_tasks e \<and> stage_of e i \<notin> {Queued, Finished}"
  shows "staffed w e'"
  using assms by (simp add: staffed_def)

lemma staffed_step:
  assumes "exec_step m e e'" and "staffed w e" and "counted m e" and "shaped e" and "fresh_key e"
  shows "staffed w e'"
  using assms(1)
proof (cases rule: exec_step.cases)
  case (enqueue ks rest)
  then show ?thesis by (intro staffed_same [OF assms(2)]) (auto simp: step_defs less_Suc_eq)
next
  case (key ks deps k v e1 d)
  obtain c where c: "nodes e k \<noteq> Some c" "Run_key c k v e = (e1, d)"
      "e' = (touch c k v e1)\<lparr>current := Some (remove1 (k, v) ks, deps \<union> d)\<rparr>"
    using key_stepE [OF key(2,3,5,1) assms(4,5)] by metis
  note G = key_step_fields [OF c(2,1,3)]
  show ?thesis by (intro staffed_same [OF assms(2)]) (simp_all add: G)
next
  case (take t ts)
  then have t: "t < exec_tasks e" "stage_of e t = Queued" using countedD(2) [OF assms(3), of t] by simp_all
  then have "{i. i < exec_tasks e' \<and> stage_of e' i \<notin> {Queued, Finished}} =
      insert t {i. i < exec_tasks e \<and> stage_of e i \<notin> {Queued, Finished}}"
    by (auto simp: take(1) step_defs)
  with assms(2) take(3) t(2) show ?thesis by (simp add: staffed_def take(1) step_defs)
next
  case (finished t)
  let ?busy = "{i. i < exec_tasks e \<and> stage_of e i \<notin> {Queued, Finished}}"
  have "{i. i < exec_tasks e' \<and> stage_of e' i \<notin> {Queued, Finished}} = ?busy - {t}"
    by (auto simp: finished(1) step_defs)
  moreover have "card ?busy = Suc (card (?busy - {t}))"
    using finished(2,3) by (intro card.remove) auto
  ultimately show ?thesis using assms(2) by (simp add: staffed_def finished(1) step_defs)
qed (rule staffed_same [OF assms(2)]; auto simp: step_defs split: if_splits)+

subsection \<open>All of it\<close>

lemma exec_inv_New:
  "exec_inv m w all (Executor_New m w all)"
  by (simp add: exec_inv_def Executor_New_def shaped_def counted_def ordered_def logged_def supplied_def staffed_def
      enqueuing_def)

lemma exec_inv_step:
  assumes "exec_step m e e'" and "exec_inv m w all e" and "\<forall>ks \<in> set all. distinct (map fst ks)" and "int (length all) \<le> m"
  shows "exec_inv m w all e'"
proof -
  have i: "shaped e" "counted m e" "ordered e" "logged e" "supplied all e" "staffed w e"
    using assms(2) by (simp_all add: exec_inv_def)
  have f: "fresh_key e" using supplied_fresh i by blast
  have "int (exec_tasks e) \<le> m" using suppliedD(1) [OF i(5)] assms(4) by simp
  then show ?thesis
    unfolding exec_inv_def
    using shaped_step [OF assms(1) i(1,2) f] counted_step [OF assms(1) i(1,2) f] ordered_step [OF assms(1) i(3,1) f i(2)]
      logged_step [OF assms(1) i(4,3,1,2) f] supplied_step [OF assms(1) i(5,1) assms(3)] staffed_step [OF assms(1) i(6,2,1) f]
    by blast
qed

lemma exec_inv_run:
  assumes "(exec_step m)\<^sup>*\<^sup>* (Executor_New m w all) e" and "\<forall>ks \<in> set all. distinct (map fst ks)" and "int (length all) \<le> m"
  shows "exec_inv m w all e"
  using assms(1)
proof (induction rule: rtranclp_induct)
  case (step y z)
  with exec_inv_step [OF step(2,3) assms(2,3)] show ?case by simp
qed (rule exec_inv_New)

section \<open>No run is stuck, every run ends\<close>

lemma busy_can_step:
  assumes "shaped e" and "t < exec_tasks e" and "stage_of e t \<notin> {Queued, Finished}"
  shows "\<exists>e'. exec_step m e e'"
proof -
  have notifier: "\<exists>e'. exec_step m e e'" if "i < exec_tasks e" "stage_of e i = Notifying" for i
  proof (cases "blocked (task_of e i) = {}")
    case True
    with that show ?thesis by (blast intro: exec_step.finished)
  next
    case False
    with that show ?thesis by (blast intro: exec_step.notify)
  qed
  consider "stage_of e t = Taken" | "stage_of e t = Running" | "stage_of e t = Clearing" | "stage_of e t = Notifying"
    using assms(3) by (cases "stage_of e t") auto
  then show ?thesis
  proof cases
    case 3
    show ?thesis
    proof (cases "reading (task_of e t) = {}")
      case False
      then obtain rt where rt: "rt \<in> reading (task_of e t)" by blast
      then have "rt < exec_tasks e" using shapedD(3) [OF assms(1) rt] by simp
      with rt 3 assms(2) notifier show ?thesis by (cases "stage_of e rt = Notifying") (blast intro: exec_step.clear)+
    qed (use 3 assms(2) in \<open>blast intro: exec_step.lock\<close>)
  qed (use assms(2) notifier in \<open>blast intro: exec_step.enter exec_step.return\<close>)+
qed

lemma caller_can_step:
  assumes "shaped e" and "current e = Some (ks, deps)"
  shows "\<exists>e'. exec_step m e e'"
proof (cases ks)
  case (Cons kv rest)
  obtain k v where kv: "kv = (k, v)" by force
  show ?thesis
  proof (cases "unlocked e k")
    case True
    obtain e1 d where "Run_key (exec_tasks e - 1) k v e = (e1, d)" by fastforce
    with exec_step.key [OF assms(2) _ True] Cons kv show ?thesis by (metis list.set_intros(1))
  next
    case False
    then obtain lt where "nodes e k = Some lt" "stage_of e lt = Notifying" by (auto simp: unlocked_def split: option.splits)
    with shapedD(6) [OF assms(1)] busy_can_step [OF assms(1)] show ?thesis by (metis insertE singletonD stage.distinct)
  qed
qed (use assms(2) exec_step.finish in blast)

lemma not_stuck:
  assumes "exec_inv m w all e" and "0 < w" and "\<not> all_done e"
  shows "\<exists>e'. exec_step m e e'"
proof -
  have i: "shaped e" "counted m e" "staffed w e" using assms(1) by (simp_all add: exec_inv_def)
  consider (caller) ks deps where "current e = Some (ks, deps)" | (more) ks rest where "current e = None" "calls e = ks # rest"
    | (workers) "current e = None" "\<exists>i < exec_tasks e. stage_of e i \<noteq> Finished"
    using assms(3) by (cases "current e"; cases "calls e") (auto simp: all_done_def)
  then show ?thesis
  proof cases
    case caller
    with caller_can_step [OF i(1)] show ?thesis by blast
  next
    case more
    then show ?thesis by (blast intro: exec_step.enqueue)
  next
    case workers
    define j where "j = (LEAST j. j < exec_tasks e \<and> stage_of e j \<noteq> Finished)"
    have j: "j < exec_tasks e" "stage_of e j \<noteq> Finished"
      using LeastI_ex [OF workers(2)] by (simp_all add: j_def)
    have first: "stage_of e i = Finished" if "i < j" for i
      using that j not_less_Least [of i "\<lambda>j. j < exec_tasks e \<and> stage_of e j \<noteq> Finished"] by (auto simp: j_def)
    show ?thesis
    proof (cases "stage_of e j = Queued")
      case True
      have "blockers e j = {}" using shapedD(1) [OF i(1)] first by (fastforce simp: blockers_def)
      then have "j \<in> set (executable e)"
        using True j workers(1) countedD(2) [OF i(2), of j] by (simp add: enqueuing_def)
      then obtain t ts where ts: "executable e = t # ts" by (cases "executable e") auto
      show ?thesis
      proof (cases "idle_workers e")
        case 0
        then have "{i. i < exec_tasks e \<and> stage_of e i \<notin> {Queued, Finished}} \<noteq> {}"
          using i(3) assms(2) unfolding staffed_def by (metis card.empty add_0 less_irrefl)
        then show ?thesis using busy_can_step [OF i(1)] by blast
      qed (use ts exec_step.take in fastforce)
    next
      case False
      with j busy_can_step [OF i(1) j(1)] show ?thesis by blast
    qed
  qed
qed

text \<open>What is left to do: first the calls, then the stages, the readings and the notifications.\<close>

fun stage_rank :: "stage \<Rightarrow> nat" where
  "stage_rank Queued = 5" | "stage_rank Taken = 4" | "stage_rank Running = 3" | "stage_rank Clearing = 2"
| "stage_rank Notifying = 1" | "stage_rank Finished = 0"

definition calls_left :: "Executor \<Rightarrow> nat" where
  "calls_left e = sum_list (map (\<lambda>ks. length ks + 2) (calls e)) +
     (case current e of None \<Rightarrow> 0 | Some (ks, deps) \<Rightarrow> length ks + 1)"

definition work_left :: "Executor \<Rightarrow> nat" where
  "work_left e = (\<Sum>i < exec_tasks e. stage_rank (stage_of e i) + card (reading (task_of e i)) + card (blocked (task_of e i)))"

lemma work_left_less:
  assumes "exec_tasks e' = exec_tasks e" and "t < exec_tasks e"
    and "\<And>i. i \<noteq> t \<Longrightarrow> stage_of e' i = stage_of e i \<and> reading (task_of e' i) = reading (task_of e i) \<and>
      blocked (task_of e' i) = blocked (task_of e i)"
    and "stage_rank (stage_of e' t) + card (reading (task_of e' t)) + card (blocked (task_of e' t)) <
      stage_rank (stage_of e t) + card (reading (task_of e t)) + card (blocked (task_of e t))"
  shows "work_left e' < work_left e"
proof -
  let ?f = "\<lambda>e i. stage_rank (stage_of e i) + card (reading (task_of e i)) + card (blocked (task_of e i))"
  have "?f e' i \<le> ?f e i" for i using assms(3) [of i] assms(4) by (cases "i = t") simp_all
  then show ?thesis
    unfolding work_left_def assms(1) using assms(2,4) by (intro sum_strict_mono_ex1) auto
qed

lemma step_decreases:
  assumes "exec_step m e e'" and "shaped e" and "counted m e" and "fresh_key e"
  shows "(e', e) \<in> measures [calls_left, work_left]"
  using assms(1)
proof (cases rule: exec_step.cases)
  case (key ks deps k v e1 d)
  obtain c where c: "nodes e k \<noteq> Some c" "Run_key c k v e = (e1, d)"
      "e' = (touch c k v e1)\<lparr>current := Some (remove1 (k, v) ks, deps \<union> d)\<rparr>"
    using key_stepE [OF key(2,3,5,1) assms(2,4)] by metis
  note G = key_step_fields [OF c(2,1,3)]
  have "length (remove1 (k, v) ks) < length ks" using key(3) length_pos_if_in_set [OF key(3)] by (simp add: length_remove1)
  then show ?thesis by (simp add: calls_left_def G(5,7) key(2))
next
  case (take t ts)
  then have "t < exec_tasks e" "stage_of e t = Queued" using countedD(2) [OF assms(3), of t] by simp_all
  then have "work_left e' < work_left e" by (intro work_left_less [of _ _ t]) (auto simp: take(1) step_defs)
  then show ?thesis by (simp add: calls_left_def take(1) step_defs)
next
  case (enter t)
  then have "work_left e' < work_left e" by (intro work_left_less [of _ _ t]) (auto simp: step_defs)
  then show ?thesis by (simp add: calls_left_def enter(1) step_defs)
next
  case (return t ok)
  then have "work_left e' < work_left e" by (intro work_left_less [of _ _ t]) (auto simp: step_defs)
  then show ?thesis by (simp add: calls_left_def return(1) step_defs)
next
  case (clear t rt)
  have "finite (reading (task_of e t))"
    by (rule finite_subset [of _ "{..<t}"]) (auto dest: shapedD(3) [OF assms(2)])
  then have "card (reading (task_of e t) - {rt}) < card (reading (task_of e t))" using clear by (meson card_Diff1_less)
  moreover have "rt \<noteq> t" using shapedD(3) [OF assms(2) clear(4)] by auto
  ultimately have "work_left e' < work_left e"
    using clear by (intro work_left_less [of _ _ t]) (auto simp: step_defs)
  then show ?thesis by (simp add: calls_left_def clear(1) step_defs)
next
  case (lock t)
  then have "work_left e' < work_left e" by (intro work_left_less [of _ _ t]) (auto simp: step_defs)
  then show ?thesis by (simp add: calls_left_def lock(1) step_defs)
next
  case (notify t bt)
  have "finite (blocked (task_of e t))"
    by (rule finite_subset [of _ "{..<exec_tasks e}"]) (auto dest: shapedD(1) [OF assms(2)])
  then have "card (blocked (task_of e t) - {bt}) < card (blocked (task_of e t))" using notify by (meson card_Diff1_less)
  moreover have "bt \<noteq> t" using shapedD(1) [OF assms(2) notify(4)] by auto
  ultimately have "work_left e' < work_left e"
    using notify by (intro work_left_less [of _ _ t]) (auto simp: step_defs)
  then show ?thesis by (simp add: calls_left_def notify(1) step_defs)
next
  case (finished t)
  then have "work_left e' < work_left e" by (intro work_left_less [of _ _ t]) (auto simp: step_defs)
  then show ?thesis by (simp add: calls_left_def finished(1) step_defs)
qed (simp_all add: calls_left_def step_defs)

text \<open>A run in which no function fails can be continued to the end without a failure.\<close>

lemma step_without_failure:
  assumes "exec_step m e e'" and "\<not> failed e"
  shows "\<exists>e'. exec_step m e e' \<and> \<not> failed e'"
  using assms(1)
proof (cases rule: exec_step.cases)
  case (key ks deps k v e1 d)
  have "failed e1 = failed e"
    using key(5) by (auto simp: Run_key_def Let_def split: option.splits if_splits prod.splits)
  with assms key(1) show ?thesis by (auto simp: touch_def)
next
  case (return t ok)
  then have "exec_step m e (runTask_return t True e)" by (intro exec_step.return)
  with assms(2) show ?thesis by (force simp: step_defs)
qed (intro exI [of _ e'] conjI assms(1), use assms(2) in \<open>simp add: step_defs\<close>)+

definition reached :: "int \<Rightarrow> nat \<Rightarrow> Keys list \<Rightarrow> Executor \<Rightarrow> bool" where
  "reached m w all = (exec_step m)\<^sup>*\<^sup>* (Executor_New m w all)"

definition fair_calls :: "int \<Rightarrow> Keys list \<Rightarrow> bool" where
  "fair_calls m all \<longleftrightarrow> (\<forall>ks \<in> set all. distinct (map fst ks)) \<and> int (length all) \<le> m"

lemma reached_inv: "reached m w all e \<Longrightarrow> fair_calls m all \<Longrightarrow> exec_inv m w all e"
  by (simp add: reached_def fair_calls_def exec_inv_run)

lemma reached_wf:
  assumes "fair_calls m all"
  shows "wf {(e', e). reached m w all e \<and> exec_step m e e'}"
proof (rule wf_subset [OF wf_measures])
  show "{(e', e). reached m w all e \<and> exec_step m e e'} \<subseteq> measures [calls_left, work_left]"
    using reached_inv [OF _ assms] step_decreases supplied_fresh by (fastforce simp: exec_inv_def simp del: in_measures)
qed

lemma reached_end:
  assumes "fair_calls m all" and "0 < w" and "reached m w all e" and "\<not> failed e"
  shows "\<exists>e'. (exec_step m)\<^sup>*\<^sup>* e e' \<and> all_done e' \<and> \<not> failed e'"
  using assms(3,4)
proof (induction e rule: wf_induct_rule [OF reached_wf [OF assms(1), of w]])
  case (1 e)
  show ?case
  proof (cases "all_done e")
    case False
    then obtain e1 where e1: "exec_step m e e1" "\<not> failed e1"
      using not_stuck [OF reached_inv [OF 1(2) assms(1)] assms(2)] step_without_failure 1(3) by blast
    then have "reached m w all e1" using 1(2) by (simp add: reached_def)
    with 1(1) [of e1] 1(2) e1 show ?thesis by (blast intro: converse_rtranclp_into_rtranclp)
  qed (use 1(3) in blast)
qed

text \<open>The log of a finished run.\<close>

lemma done_log:
  assumes "reached m w all e" and "fair_calls m all" and "all_done e" and "\<not> failed e"
  shows "distinct (run_log e)" "set (run_log e) = {..<length all}"
    "i < j \<Longrightarrow> j < length all \<Longrightarrow> key_conflict (map_of (all ! i)) (map_of (all ! j)) \<Longrightarrow> before (run_log e) i j"
proof -
  have i: "logged e" "supplied all e" using reached_inv [OF assms(1,2)] by (simp_all add: exec_inv_def)
  note L = loggedD [OF i(1) assms(4)] and P = suppliedD [OF i(2)]
  have n: "exec_tasks e = length all" using P(1,2) assms(3) by (simp add: all_done_def)
  show "distinct (run_log e)" by (rule L(1))
  show s: "set (run_log e) = {..<length all}" using L(2) assms(3) n by (auto simp: all_done_def ended_def)
  have "touched (task_of e i) = map_of (all ! i)" if "i < length all" for i
    using P(3) that n assms(3) by (simp add: enqueuing_def all_done_def)
  then show "i < j \<Longrightarrow> j < length all \<Longrightarrow> key_conflict (map_of (all ! i)) (map_of (all ! j)) \<Longrightarrow> before (run_log e) i j"
    using L(3) [of i j] s by simp
qed

subsection \<open>The order of the queue is one of the possible orders\<close>

text \<open>Calls that come later do not disturb a run, and the log only grows.\<close>

definition later :: "Keys list \<Rightarrow> Executor \<Rightarrow> Executor" where
  "later rest e = e\<lparr>calls := calls e @ rest\<rparr>"

lemma later_simps [simp]:
  "exec_tasks (later rest e) = exec_tasks e" "task_of (later rest e) = task_of e" "nodes (later rest e) = nodes e"
  "executable (later rest e) = executable e" "idle_workers (later rest e) = idle_workers e" "failed (later rest e) = failed e"
  "calls (later rest e) = calls e @ rest" "current (later rest e) = current e" "run_log (later rest e) = run_log e"
  "unlocked (later rest e) = unlocked e"
  by (simp_all add: later_def unlocked_def fun_eq_iff split: option.split)

lemma later_update [simp]: "later rest (update_task i f e) = update_task i f (later rest e)"
  by (simp add: later_def update_task_def)

lemma later_current: "later rest (e\<lparr>current := c\<rparr>) = (later rest e)\<lparr>current := c\<rparr>"
  by (simp add: later_def)

lemma Run_key_later:
  "Run_key t k v (later rest e) = (later rest (fst (Run_key t k v e)), snd (Run_key t k v e))"
  unfolding Run_key_def Let_def later_def update_task_def by (simp split: option.split cong: if_cong)

lemma later_ops:
  "later rest (Run_begin m ks cs e) = Run_begin m ks (cs @ rest) (later rest e)"
  "later rest (Run_end m deps e) = Run_end m deps (later rest e)"
  "later rest (work_take t ts e) = work_take t ts (later rest e)"
  "later rest (runTask_enter t e) = runTask_enter t (later rest e)"
  "later rest (runTask_return t ok e) = runTask_return t ok (later rest e)"
  "later rest (runTask_clear t rt e) = runTask_clear t rt (later rest e)"
  "later rest (runTask_lock t e) = runTask_lock t (later rest e)"
  "later rest (runTask_notify t bt e) = runTask_notify t bt (later rest e)"
  "later rest (runTask_done t e) = runTask_done t (later rest e)"
  unfolding step_defs later_def update_task_def by simp_all

lemma exec_step_later: "exec_step m e e' \<Longrightarrow> exec_step m (later rest e) (later rest e')"
proof (induction rule: exec_step.induct)
  case (key e ks deps k v e1 d)
  then have "Run_key (exec_tasks (later rest e) - 1) k v (later rest e) = (later rest e1, d)" by (simp add: Run_key_later)
  from exec_step.key [OF _ key(2) _ this, of deps m] key show ?case by (simp add: touch_def later_current)
qed (simp_all add: later_ops exec_step.intros)

lemma run_later: "(exec_step m)\<^sup>*\<^sup>* e e' \<Longrightarrow> (exec_step m)\<^sup>*\<^sup>* (later rest e) (later rest e')"
  by (induction rule: rtranclp_induct) (auto intro: rtranclp.rtrancl_into_rtrancl exec_step_later)

lemma exec_step_log: "exec_step m e e' \<Longrightarrow> \<exists>xs. run_log e' = run_log e @ xs"
proof (induction rule: exec_step.induct)
  case (key e ks deps k v e1 d)
  have "run_log e1 = run_log e"
    using key(4) unfolding Run_key_def Let_def by (auto split: option.splits if_splits prod.splits)
  then show ?case by (simp add: touch_def)
qed (simp_all add: step_defs)

lemma run_extends_log: "(exec_step m)\<^sup>*\<^sup>* e e' \<Longrightarrow> \<exists>xs. run_log e' = run_log e @ xs"
  by (induction rule: rtranclp_induct) (use exec_step_log in fastforce)+

lemma fair_calls_append: "fair_calls m (xs @ ys) \<Longrightarrow> fair_calls m xs"
  by (auto simp: fair_calls_def)

lemma reached_later: "reached m w xs e \<Longrightarrow> reached m w (xs @ ys) (later ys e)"
proof -
  have "later ys (Executor_New m w xs) = Executor_New m w (xs @ ys)" by (simp add: later_def Executor_New_def)
  then show "reached m w xs e \<Longrightarrow> ?thesis" using run_later [of m "Executor_New m w xs" e ys] by (simp add: reached_def)
qed

text \<open>A run may always wait with the next call until the tasks before it are finished.\<close>

lemma sequential_run:
  assumes "fair_calls m all" and "0 < w"
  shows "\<exists>e. reached m w all e \<and> all_done e \<and> \<not> failed e \<and> run_log e = [0..<length all]"
  using assms(1)
proof (induction all rule: rev_induct)
  case Nil
  show ?case by (intro exI [of _ "Executor_New m w []"]) (simp add: reached_def all_done_def Executor_New_def)
next
  case (snoc ks all)
  obtain e where e: "reached m w all e" "\<not> failed e" "run_log e = [0..<length all]"
    using snoc.IH [OF fair_calls_append [OF snoc.prems]] by blast
  obtain e' where e': "(exec_step m)\<^sup>*\<^sup>* (later [ks] e) e'" "all_done e'" "\<not> failed e'"
    using reached_end [OF snoc.prems assms(2) reached_later [OF e(1)]] e(2) by auto
  then have r: "reached m w (all @ [ks]) e'" using reached_later [OF e(1), of "[ks]"] by (simp add: reached_def)
  note L = done_log(1,2) [OF r snoc.prems e'(2,3)]
  obtain xs where xs: "run_log e' = [0..<length all] @ xs" using run_extends_log [OF e'(1)] e(3) by auto
  have "set xs = {length all}" "distinct xs" using L unfolding xs by (auto simp: lessThan_Suc) (use less_linear in fastforce)+
  then have "xs = [length all]" by (cases xs rule: remdups_adj.cases) auto
  with r e'(2,3) xs show ?case by (intro exI [of _ e']) simp
qed

subsection \<open>Independent tasks run in any order\<close>

text \<open>
  Some calls have been made and none of their tasks has started: no key is shared, so all of them
  are executable.
\<close>

definition parked :: "nat \<Rightarrow> Executor \<Rightarrow> bool" where
  "parked w e \<longleftrightarrow> idle_workers e = w \<and> run_log e = [] \<and> \<not> failed e \<and>
     (\<forall>i. stage_of e i = Queued \<and> blocked (task_of e i) = {})"

lemma park_keys:
  assumes "current e = Some (ks, {})" and "parked w e" and "distinct (map fst ks)"
    and "dom (nodes e) \<inter> fst ` set ks = {}" and "dependencies (task_of e (exec_tasks e - 1)) = m"
  obtains e' where "(exec_step m)\<^sup>*\<^sup>* e e'" "current e' = Some ([], {})" "parked w e'"
    "dependencies (task_of e' (exec_tasks e' - 1)) = m" "exec_tasks e' = exec_tasks e"
    "executable e' = executable e" "calls e' = calls e" "dom (nodes e') = dom (nodes e) \<union> fst ` set ks"
  using assms
proof (induction ks arbitrary: e thesis)
  case (Cons kv ks)
  obtain k v where kv: "kv = (k, v)" by (cases kv)
  let ?c = "exec_tasks e - 1"
  let ?e1 = "e\<lparr>nodes := (nodes e)(k \<mapsto> ?c)\<rparr>"
  define e2 where "e2 = (touch ?c k v ?e1)\<lparr>current := Some (ks, {})\<rparr>"
  have n: "nodes e k = None" using Cons.prems(5) by (auto simp: kv)
  then have s: "exec_step m e e2"
    using exec_step.key [of e "kv # ks" "{}" k v ?e1 "{}" m] Cons.prems(2)
    by (simp add: kv unlocked_def Run_key_def e2_def)
  have f: "current e2 = Some (ks, {})" "parked w e2" "dependencies (task_of e2 (exec_tasks e2 - 1)) = m"
      "exec_tasks e2 = exec_tasks e" "executable e2 = executable e" "calls e2 = calls e"
      "dom (nodes e2) = insert k (dom (nodes e))"
    using Cons.prems(3,6) by (simp_all add: e2_def parked_def touch_def)
  have "dom (nodes e2) \<inter> fst ` set ks = {}" "distinct (map fst ks)" using Cons.prems(4,5) by (auto simp: kv f(7))
  from Cons.IH [OF _ f(1,2) this(2,1) f(3)] obtain e' where e': "(exec_step m)\<^sup>*\<^sup>* e2 e'" "current e' = Some ([], {})"
      "parked w e'" "dependencies (task_of e' (exec_tasks e' - 1)) = m" "exec_tasks e' = exec_tasks e2"
      "executable e' = executable e2" "calls e' = calls e2" "dom (nodes e') = dom (nodes e2) \<union> fst ` set ks"
    by blast
  show ?case
    by (rule Cons.prems(1) [OF converse_rtranclp_into_rtranclp [OF s e'(1)] e'(2-4)])
       (use e'(5-8) f(4-7) in \<open>simp_all add: kv\<close>)
qed auto

lemma park_calls:
  assumes "calls e = cs" "current e = None" "parked w e" "executable e = [0..<exec_tasks e]"
    and "\<forall>ks \<in> set cs. distinct (map fst ks) \<and> dom (nodes e) \<inter> fst ` set ks = {}"
    and "sorted_wrt (\<lambda>a b. fst ` set a \<inter> fst ` set b = {}) cs"
  shows "\<exists>e'. (exec_step m)\<^sup>*\<^sup>* e e' \<and> calls e' = [] \<and> current e' = None \<and> parked w e' \<and>
    exec_tasks e' = exec_tasks e + length cs \<and> executable e' = [0..<exec_tasks e']"
  using assms
proof (induction cs arbitrary: e)
  case (Cons ks cs)
  let ?e1 = "Run_begin m ks cs e"
  have 1: "exec_step m e ?e1" using Cons.prems(1,2) by (intro exec_step.enqueue)
  have b: "current ?e1 = Some (ks, {})" "parked w ?e1" "distinct (map fst ks)"
      "dom (nodes ?e1) \<inter> fst ` set ks = {}" "dependencies (task_of ?e1 (exec_tasks ?e1 - 1)) = m"
    using Cons.prems(3,5) by (simp_all add: Run_begin_def parked_def)
  obtain e2 where e2: "(exec_step m)\<^sup>*\<^sup>* ?e1 e2" "current e2 = Some ([], {})" "parked w e2"
      "dependencies (task_of e2 (exec_tasks e2 - 1)) = m" "exec_tasks e2 = exec_tasks ?e1"
      "executable e2 = executable ?e1" "calls e2 = calls ?e1" "dom (nodes e2) = dom (nodes ?e1) \<union> fst ` set ks"
    by (rule park_keys [OF b])
  let ?e3 = "Run_end m {} e2"
  have 3: "exec_step m e2 ?e3" using e2(2) by (rule exec_step.finish)
  have f: "calls ?e3 = cs" "current ?e3 = None" "parked w ?e3" "exec_tasks ?e3 = Suc (exec_tasks e)"
      "executable ?e3 = [0..<Suc (exec_tasks e)]" "nodes ?e3 = nodes e2"
    using e2(3-7) Cons.prems(4) by (simp_all add: Run_end_def Let_def parked_def Run_begin_def)
  have "\<forall>ks' \<in> set cs. distinct (map fst ks') \<and> dom (nodes ?e3) \<inter> fst ` set ks' = {}"
    using Cons.prems(5,6) by (simp add: f(6) e2(8) Run_begin_def Int_Un_distrib2)
  from Cons.IH [OF f(1-3) _ this] f(4,5) Cons.prems(6)
  obtain e' where "(exec_step m)\<^sup>*\<^sup>* ?e3 e'" "calls e' = []" "current e' = None" "parked w e'"
      "exec_tasks e' = Suc (exec_tasks e) + length cs" "executable e' = [0..<exec_tasks e']" by auto
  moreover have "(exec_step m)\<^sup>*\<^sup>* e ?e3" using 1 e2(1) 3 by (meson converse_rtranclp_into_rtranclp rtranclp.rtrancl_into_rtrancl)
  ultimately show ?case using rtranclp_trans [of "exec_step m" e ?e3 e'] by (intro exI [of _ e']) simp
qed auto

lemma take_all:
  assumes "executable e = ts" "length ts \<le> idle_workers e" "distinct ts" 
  shows "\<exists>e'. (exec_step m)\<^sup>*\<^sup>* e e' \<and> run_log e' = run_log e \<and> failed e' = failed e \<and> exec_tasks e' = exec_tasks e \<and>
    (\<forall>i. stage_of e' i = (if i \<in> set ts then Taken else stage_of e i))"
  using assms
proof (induction ts arbitrary: e)
  case (Cons t ts)
  let ?e1 = "work_take t ts e"
  have s: "exec_step m e ?e1" using Cons.prems by (intro exec_step.take) simp_all
  have f: "executable ?e1 = ts" "run_log ?e1 = run_log e" "failed ?e1 = failed e" "exec_tasks ?e1 = exec_tasks e"
      "length ts \<le> idle_workers ?e1" "\<And>i. stage_of ?e1 i = (if i = t then Taken else stage_of e i)"
    using Cons.prems by (simp_all add: work_take_def)
  obtain e' where e': "(exec_step m)\<^sup>*\<^sup>* ?e1 e'" "run_log e' = run_log e" "failed e' = failed e" "exec_tasks e' = exec_tasks e"
      "\<forall>i. stage_of e' i = (if i \<in> set ts then Taken else stage_of ?e1 i)"
    using Cons.IH [OF f(1,5)] Cons.prems(3) f(2-4) by auto
  then show ?case
    using converse_rtranclp_into_rtranclp [OF s e'(1)] f(6) by (intro exI [of _ e']) simp
qed auto

lemma return_all:
  assumes "\<forall>t \<in> set ts. t < exec_tasks e \<and> stage_of e t = Taken" "distinct ts" "\<not> failed e"
  shows "\<exists>e'. (exec_step m)\<^sup>*\<^sup>* e e' \<and> run_log e' = run_log e @ ts \<and> \<not> failed e'"
  using assms
proof (induction ts arbitrary: e)
  case (Cons t ts)
  let ?e1 = "runTask_enter t e"
  let ?e2 = "runTask_return t True ?e1"
  have "exec_step m e ?e1" using Cons.prems by (intro exec_step.enter) simp_all
  moreover have "exec_step m ?e1 ?e2" using Cons.prems by (intro exec_step.return) (simp_all add: runTask_enter_def)
  moreover have "\<exists>e'. (exec_step m)\<^sup>*\<^sup>* ?e2 e' \<and> run_log e' = run_log ?e2 @ ts \<and> \<not> failed e'"
    using Cons.prems by (intro Cons.IH) (auto simp: runTask_enter_def runTask_return_def)
  ultimately show ?case
    by (auto simp: runTask_enter_def runTask_return_def intro: converse_rtranclp_into_rtranclp)
qed auto

text \<open>With a worker for every task, tasks that share no key return in any order.\<close>

lemma any_order:
  assumes "fair_calls m all" and "sorted_wrt (\<lambda>a b. fst ` set a \<inter> fst ` set b = {}) all"
    and "length all \<le> w" "0 < w" and "distinct p" "set p = {..<length all}"
  shows "\<exists>e. reached m w all e \<and> all_done e \<and> \<not> failed e \<and> run_log e = p"
proof -
  let ?e0 = "Executor_New m w all"
  obtain e1 where e1: "(exec_step m)\<^sup>*\<^sup>* ?e0 e1" "parked w e1" "exec_tasks e1 = length all" "executable e1 = [0..<length all]"
    using park_calls [of ?e0 all w m] assms(1,2) by (auto simp: Executor_New_def parked_def fair_calls_def)
  obtain e2 where e2: "(exec_step m)\<^sup>*\<^sup>* e1 e2" "run_log e2 = []" "\<not> failed e2" "exec_tasks e2 = length all"
      "\<forall>i < length all. stage_of e2 i = Taken"
    using take_all [OF e1(4), of m] e1(2,3) assms(3) by (auto simp: parked_def)
  obtain e3 where e3: "(exec_step m)\<^sup>*\<^sup>* e2 e3" "run_log e3 = p" "\<not> failed e3"
    using return_all [of p e2 m] e2 assms(5,6) by auto
  have r3: "reached m w all e3" using e1(1) e2(1) e3(1) by (auto simp: reached_def intro: rtranclp_trans)
  obtain e4 where e4: "(exec_step m)\<^sup>*\<^sup>* e3 e4" "all_done e4" "\<not> failed e4"
    using reached_end [OF assms(1,4) r3 e3(3)] by blast
  have r4: "reached m w all e4" using r3 e4(1) by (auto simp: reached_def intro: rtranclp_trans)
  obtain xs where xs: "run_log e4 = p @ xs" using run_extends_log [OF e4(1)] e3(2) by auto
  then have "xs = []"
    using done_log(1,2) [OF r4 assms(1) e4(2,3)] assms(6) by (cases xs) auto
  with r4 e4(2,3) xs show ?thesis by auto
qed

text \<open>The orders in which the tasks of a list of calls may have run when all succeed.\<close>

definition executor_log :: "int \<Rightarrow> Keys list \<Rightarrow> nat list \<Rightarrow> bool" where
  "executor_log m all log \<longleftrightarrow> (\<exists>w e. 0 < w \<and> reached m w all e \<and> all_done e \<and> \<not> failed e \<and> run_log e = log)"

lemma executor_log_order:
  assumes "executor_log m all log" and "fair_calls m all"
  shows "distinct log" "set log = {..<length all}"
    "i < j \<Longrightarrow> j < length all \<Longrightarrow> key_conflict (map_of (all ! i)) (map_of (all ! j)) \<Longrightarrow> before log i j"
  using assms done_log unfolding executor_log_def by blast+

section \<open>Properties\<close>

text \<open>
  C6: conflicting tasks exclude each other. Take any interleaving of the caller and the workers: when
  the function of a task runs, or has run, the functions of all earlier tasks that share a key with
  it, which one of the two does not only read, have returned.
\<close>

theorem conflicts_are_serialized:
  assumes "reached m w all e" and "fair_calls m all" and "i < j" "j < exec_tasks e"
    and "key_conflict (map_of (all ! i)) (map_of (all ! j))" and "stage_of e j \<notin> {Queued, Taken}"
  shows "stage_of e i \<in> {Clearing, Notifying, Finished}"
proof -
  have v: "shaped e" "ordered e" "supplied all e" using reached_inv [OF assms(1,2)] by (simp_all add: exec_inv_def)
  have "\<not> enqueuing e j" using assms(6) shapedD(5) [OF v(1)] by blast
  moreover have "\<not> enqueuing e i" using assms(3,4) by (auto simp: enqueuing_def)
  ultimately have t: "touched (task_of e i) = map_of (all ! i)" "touched (task_of e j) = map_of (all ! j)"
    using suppliedD(3) [OF v(3)] assms(3,4) by simp_all
  have "(i, j) \<notin> (waits e)\<^sup>+" using waits_path_Queued [OF _ v(1)] assms(6) by blast
  then have "ended e i" using orderedD(3) [OF v(2) _ assms(3)] assms(5) t by (auto simp: key_conflict_def)
  then show ?thesis by (simp add: ended_def)
qed

text \<open>Three tasks: a writer, a reader and another writer of one key.\<close>

definition sample_calls :: "Keys list" where
  "sample_calls = [[([7, 0, 1], PermRead OR PermWrite)], [([7, 0, 1], PermRead)], [([7, 0, 1], PermRead OR PermWrite)]]"

lemma sample_calls_run: "fair_calls 10 sample_calls" "\<exists>e. reached 10 2 sample_calls e \<and> all_done e \<and> \<not> failed e"
proof -
  show f: "fair_calls 10 sample_calls" by (simp add: fair_calls_def sample_calls_def)
  show "\<exists>e. reached 10 2 sample_calls e \<and> all_done e \<and> \<not> failed e"
    using reached_end [OF f, of 2 "Executor_New 10 2 sample_calls"] by (auto simp: reached_def Executor_New_def)
qed

theorem conflicts_are_serialized_witness:
  "\<exists>e. reached 10 2 sample_calls e \<and> stage_of e 2 = Finished \<and> stage_of e 1 \<in> {Clearing, Notifying, Finished}"
proof -
  obtain e where e: "reached 10 2 sample_calls e" "all_done e" using sample_calls_run(2) by blast
  have n: "exec_tasks e = 3"
    using reached_inv [OF e(1) sample_calls_run(1)] e(2) suppliedD(1,2) [of sample_calls e]
    by (simp add: exec_inv_def all_done_def sample_calls_def)
  have "key_conflict (map_of (sample_calls ! 1)) (map_of (sample_calls ! 2))"
    by (simp add: key_conflict_def sample_calls_def PermRead_def PermWrite_def)
  then show ?thesis
    using conflicts_are_serialized [OF e(1) sample_calls_run(1), of 1 2] e n by (auto simp: all_done_def)
qed

text \<open>
  C7: the executor neither deadlocks nor runs forever. If there are no more tasks than the counter of
  dependencies allows and at least one worker, there is no infinite run, a run that cannot go on has
  finished all tasks, and every run can be continued to that end.
\<close>

theorem executor_completes:
  assumes "fair_calls m all" and "0 < w"
  shows "wf {(e', e). reached m w all e \<and> exec_step m e e'} \<and>
    (\<forall>e. reached m w all e \<longrightarrow> all_done e \<or> (\<exists>e'. exec_step m e e')) \<and>
    (\<forall>e. reached m w all e \<longrightarrow> \<not> failed e \<longrightarrow> (\<exists>e'. (exec_step m)\<^sup>*\<^sup>* e e' \<and> all_done e' \<and> \<not> failed e'))"
  using reached_wf [OF assms(1), of w] not_stuck [OF reached_inv [OF _ assms(1)] assms(2)] reached_end [OF assms] by blast

theorem executor_completes_witness:
  "wf {(e', e). reached 10 2 sample_calls e \<and> exec_step 10 e e'} \<and>
   (\<exists>e'. (exec_step 10)\<^sup>*\<^sup>* (Executor_New 10 2 sample_calls) e' \<and> all_done e')"
  using executor_completes [OF sample_calls_run(1), of 2] by (auto simp: reached_def Executor_New_def)

end
