(* ===== verification/BlockProcessor.thy ===== *)
theory BlockProcessor
  imports ViewFrames TxBuilder Executor "HOL-Library.Multiset"
begin

text \<open>
  Executing a block (\<^verbatim>\<open>chain/processor.go\<close> of hypersdk over the transactions of this program): the
  checks on height and time, the queue of transactions with their units, state keys and prefetched
  values, the tasks that execute them, and the metadata written at the end. The order in which the
  executor runs the tasks is a parameter \<open>schedule\<close>; \<open>from_executor\<close> ties it to the runs of theory
  \<open>Executor\<close>. The verification of signatures, the replay protection, the state root and the database
  are parameters too. Shown: the executor keeps the order of conflicting transactions, such an order
  gives the results and the state of the block's own order, a block stays within the unit limits,
  and what an accepted block leaves in the state.
\<close>

section \<open>Metadata keys\<close>

definition HeightPrefix :: bytes where "HeightPrefix = [0x0]"
definition TimestampPrefix :: bytes where "TimestampPrefix = [0x1]"
definition FeePrefix :: bytes where "FeePrefix = [0x2]"

definition HeightKey :: "bytes \<Rightarrow> bytes" where "HeightKey prefix = EncodeChunks prefix 1"
definition TimestampKey :: "bytes \<Rightarrow> bytes" where "TimestampKey prefix = EncodeChunks prefix 1"
definition FeeKey :: "bytes \<Rightarrow> bytes" where "FeeKey prefix = EncodeChunks prefix 8"

definition MaxKeyDependencies :: int where "MaxKeyDependencies = 100000000"

section \<open>Blocks\<close>

record ExecutionBlock =
  blk_Tmstmp :: i64
  blk_Hght :: u64
  blk_Txs :: "Transaction list"
  blk_StateRoot :: bytes

record blockContext =
  ctx_height :: u64
  ctx_timestamp :: i64
  ctx_feeManager :: Manager

text \<open>The parent state, \<^verbatim>\<open>state.Immutable\<close> of the database's view.\<close>

type_synonym parent = "bytes \<Rightarrow> bytes result"

text \<open>Two errors wrapped by \<^verbatim>\<open>"%w: %w"\<close>. The value \<open>None\<close> is a panic, which only the next prices can raise.\<close>

definition createBlockContext :: "parent \<Rightarrow> ExecutionBlock \<Rightarrow> Rules \<Rightarrow> blockContext result option" where
  "createBlockContext im block r =
     (case im (HeightKey HeightPrefix) of
        Inl err \<Rightarrow> Some (Inl (Wrap2f ''%w: %w'' [] (Sentinel ErrFailedToFetchParentHeight) err))
      | Inr parentHeightRaw \<Rightarrow>
       (case database_ParseUInt64 parentHeightRaw of
          Inl err \<Rightarrow> Some (Inl (Wrap2f ''%w: %w'' [] (Sentinel ErrFailedToParseParentHeight) err))
        | Inr parentHeight \<Rightarrow>
          if blk_Hght block \<noteq> parentHeight + 1
          then Some (Inl (Wrapf ''%w: block height %d != parentHeight (%d) + 1''
                 [FU64 (blk_Hght block), FU64 parentHeight] (Sentinel ErrInvalidBlockHeight)))
          else
           (case im (TimestampKey TimestampPrefix) of
              Inl err \<Rightarrow> Some (Inl (Wrap2f ''%w: %w'' [] (Sentinel ErrFailedToFetchParentTimestamp) err))
            | Inr parentTimestampRaw \<Rightarrow>
             (case database_ParseUInt64 parentTimestampRaw of
                Inl err \<Rightarrow> Some (Inl (Wrap2f ''%w: %w'' [] (Sentinel ErrFailedToParseParentTimestamp) err))
              | Inr parentTimestamp \<Rightarrow>
                if i64_less (blk_Tmstmp block) (parentTimestamp + GetMinBlockGap r)
                then Some (Inl (Wrapf ''%w: block timestamp %d < parentTimestamp (%d) + minBlockGap (%d)''
                       [FI64 (blk_Tmstmp block), FI64 parentTimestamp, FI64 (GetMinBlockGap r)]
                       (Sentinel ErrTimestampTooEarly)))
                else if length (blk_Txs block) = 0 \<and>
                     i64_less (blk_Tmstmp block) (parentTimestamp + GetMinEmptyBlockGap r)
                then Some (Inl (Wrapf ''%w: timestamp (%d) < parentTimestamp (%d) + minEmptyBlockGap (%d)''
                       [FI64 (blk_Tmstmp block), FI64 parentTimestamp, FI64 (GetMinEmptyBlockGap r)]
                       (Sentinel ErrTimestampTooEarlyEmptyBlock)))
                else
                 (case im (FeeKey FeePrefix) of
                    Inl err \<Rightarrow> Some (Inl (Wrap2f ''%w: %w'' [] (Sentinel ErrFailedToFetchParentFee) err))
                  | Inr parentFeeRaw \<Rightarrow>
                      map_option (\<lambda>fm. Inr \<lparr>ctx_height = blk_Hght block, ctx_timestamp = blk_Tmstmp block,
                                            ctx_feeManager = fm\<rparr>)
                        (ComputeNext (NewManager parentFeeRaw) (blk_Tmstmp block) (fee_Rules.truncate r)))))))"

definition writeBlockContext :: "'s state_Mutable \<Rightarrow> 's \<Rightarrow> blockContext \<Rightarrow> go_error option \<times> 's" where
  "writeBlockContext mu s ctx =
     (case Insert mu s (HeightKey HeightPrefix) (PutUint64 (ctx_height ctx)) of
        (Some err, s1) \<Rightarrow> (Some (Wrapf ''failed to insert height into state: %w'' [] err), s1)
      | (None, s1) \<Rightarrow>
       (case Insert mu s1 (TimestampKey TimestampPrefix) (PutUint64 (ctx_timestamp ctx)) of
          (Some err, s2) \<Rightarrow> (Some (Wrapf ''failed to insert timestamp into state: %w'' [] err), s2)
        | (None, s2) \<Rightarrow>
         (case Insert mu s2 (FeeKey FeePrefix) (fm_raw (ctx_feeManager ctx)) of
            (Some err, s3) \<Rightarrow> (Some (Wrapf ''failed to insert fee manager into state: %w'' [] err), s3)
          | (None, s3) \<Rightarrow> (None, s3))))"

section \<open>Queueing the transactions\<close>

text \<open>What the fetcher reads for the keys of a transaction.\<close>

fun fetch :: "parent \<Rightarrow> bytes list \<Rightarrow> (bytes \<rightharpoonup> bytes) result" where
  "fetch im [] = Inr Map.empty"
| "fetch im (k # ks) =
     (case im k of
        Inl err \<Rightarrow> if errors_Is err ErrNotFound then fetch im ks else Inl err
      | Inr v \<Rightarrow>
          if NumChunks v = None then Inl (Sentinel ErrFetcherInvalidKeyValue)
          else (case fetch im ks of Inl err \<Rightarrow> Inl err | Inr storage \<Rightarrow> Inr (storage(k \<mapsto> v))))"

record task =
  task_index :: nat
  task_tx :: Transaction
  task_keys :: Keys
  task_storage :: "bytes \<rightharpoonup> bytes"

text \<open>The loop of \<^verbatim>\<open>executeTxs\<close>: it consumes the units of every transaction and queues a task for it.\<close>

fun queue_txs ::
  "parent \<Rightarrow> 's BalanceHandler \<Rightarrow> Rules \<Rightarrow> nat \<Rightarrow> Transaction list \<Rightarrow> Manager \<Rightarrow> (task list \<times> Manager) result" where
  "queue_txs im bh r i [] fm = Inr ([], fm)"
| "queue_txs im bh r i (tx # txs) fm =
     (case Transaction_StateKeys bh tx of
        Inl err \<Rightarrow> Inl err
      | Inr stateKeys \<Rightarrow>
       (case Transaction_Units bh r tx of
          Inl err \<Rightarrow> Inl err
        | Inr units \<Rightarrow>
         (case Consume units (GetMaxBlockUnits r) fm of
            ((False, d), _) \<Rightarrow>
              Inl (Wrapf ''%w: %d too large'' [FNat d] (Sentinel ErrInvalidUnitsConsumed))
          | ((True, _), fm1) \<Rightarrow>
             (case fetch im (WithoutPermissions stateKeys) of
                Inl err \<Rightarrow> Inl err
              | Inr storage \<Rightarrow>
                 (case queue_txs im bh r (Suc i) txs fm1 of
                    Inl err \<Rightarrow> Inl err
                  | Inr (tasks, fm2) \<Rightarrow>
                      Inr (\<lparr>task_index = i, task_tx = tx, task_keys = stateKeys, task_storage = storage\<rparr> # tasks,
                           fm2))))))"

section \<open>Running the tasks\<close>

text \<open>
  What does not change during a block: the hash, the random bytes of each action of each
  transaction, the rules and the time of the block.
\<close>

record block_env =
  env_sha256 :: "bytes \<Rightarrow> bytes"
  env_rand :: "nat \<Rightarrow> nat \<Rightarrow> bytes result"
  env_rules :: Rules
  env_time :: i64

definition run_task :: "block_env \<Rightarrow> Manager \<Rightarrow> task \<Rightarrow> TState \<Rightarrow> (Result \<times> TState) result" where
  "run_task E fm tk ts =
     (let tsv = NewView ts (ScopeKeys (task_keys tk)) (ImmutableStorage_GetValue (task_storage tk)) in
      case PreExecute fm view_handler (env_rules E) (task_tx tk) tsv (env_time E) of
        Some err \<Rightarrow> Inl err
      | None \<Rightarrow>
         (case Transaction_Execute (env_sha256 E) (env_rand E (task_index tk)) fm view_handler (env_rules E)
                 (task_tx tk) tsv (env_time E) of
            (Inl err, _) \<Rightarrow> Inl err
          | (Inr res, tsv') \<Rightarrow> Inr (res, Commit tsv')))"

text \<open>The results are stored at the index of their transaction.\<close>

fun run_tasks :: "block_env \<Rightarrow> Manager \<Rightarrow> task list \<Rightarrow> TState \<Rightarrow> ((nat \<rightharpoonup> Result) \<times> TState) result" where
  "run_tasks E fm [] ts = Inr (Map.empty, ts)"
| "run_tasks E fm (tk # tks) ts =
     (case run_task E fm tk ts of
        Inl err \<Rightarrow> Inl err
      | Inr (res, ts1) \<Rightarrow>
         (case run_tasks E fm tks ts1 of
            Inl err \<Rightarrow> Inl err
          | Inr (results, ts2) \<Rightarrow> Inr (results(task_index tk \<mapsto> res), ts2)))"

definition executeTxs ::
  "(task list \<Rightarrow> task list) \<Rightarrow> block_env \<Rightarrow> parent \<Rightarrow> Transaction list \<Rightarrow> Manager \<Rightarrow>
   (Result option list \<times> Manager \<times> TState) result" where
  "executeTxs schedule E im txs feeManager =
     (case queue_txs im view_handler (env_rules E) 0 txs feeManager of
        Inl err \<Rightarrow> Inl err
      | Inr (tasks, fm) \<Rightarrow>
         (case run_tasks E fm (schedule tasks) TState_New of
            Inl err \<Rightarrow> Inl err
          | Inr (results, ts) \<Rightarrow> Inr (map results [0..<length txs], fm, ts)))"

section \<open>Executing a block\<close>

text \<open>
  The services of the node: the clock, the signature job (starting it and waiting for it), the
  replay protection, the root of the parent state, and the new view over it.
\<close>

record services =
  svc_now :: i64
  svc_sigJob :: "go_error option"
  svc_sigWait :: "go_error option"
  svc_replay :: "go_error option"
  svc_root :: "bytes result"
  svc_NewView :: "parent \<Rightarrow> changes \<Rightarrow> parent result"
  svc_schedule :: "task list \<Rightarrow> task list"

record OutputBlock =
  out_View :: parent
  out_Results :: "Result option list"
  out_UnitPrices :: Dimensions
  out_UnitsConsumed :: Dimensions

definition verifyParentRoot :: "bytes result \<Rightarrow> bytes \<Rightarrow> go_error option" where
  "verifyParentRoot root stateRoot =
     (case root of
        Inl err \<Rightarrow> Some (Wrapf ''failed to calculate parent state root: %w'' [] err)
      | Inr computedRoot \<Rightarrow>
          if stateRoot \<noteq> computedRoot
          then Some (Wrapf ''%w: expected=%s found=%s'' [FBytes computedRoot, FBytes stateRoot]
                 (Sentinel ErrStateRootMismatch))
          else None)"

definition finish_block ::
  "services \<Rightarrow> parent \<Rightarrow> ExecutionBlock \<Rightarrow> blockContext \<Rightarrow> Result option list \<Rightarrow> TState \<Rightarrow> OutputBlock result" where
  "finish_block S im b ctx results ts =
     (case writeBlockContext TStateView_Mutable
             (NewView ts FullAccess (ImmutableStorage_GetValue Map.empty)) ctx of
        (Some err, _) \<Rightarrow> Inl err
      | (None, tsv) \<Rightarrow>
       (let ts1 = Commit tsv in
        case verifyParentRoot (svc_root S) (blk_StateRoot b) of
          Some err \<Rightarrow> Inl err
        | None \<Rightarrow>
         (case svc_sigWait S of
            Some err \<Rightarrow> Inl (Wrapf ''signatures failed verification: %w'' [] err)
          | None \<Rightarrow>
           (case svc_NewView S im (changedKeys ts1) of
              Inl err \<Rightarrow> Inl err
            | Inr view \<Rightarrow>
                Inr \<lparr>out_View = view, out_Results = results,
                     out_UnitPrices = UnitPrices (ctx_feeManager ctx),
                     out_UnitsConsumed = UnitsConsumed (ctx_feeManager ctx)\<rparr>))))"

definition Processor_Execute ::
  "services \<Rightarrow> (bytes \<Rightarrow> bytes) \<Rightarrow> (nat \<Rightarrow> nat \<Rightarrow> bytes result) \<Rightarrow> (i64 \<Rightarrow> Rules) \<Rightarrow> parent \<Rightarrow> ExecutionBlock \<Rightarrow> bool \<Rightarrow>
   OutputBlock result option" where
  "Processor_Execute S sha256 rand getRules im b isNormalOp =
     (let r = getRules (blk_Tmstmp b) in
      if i64_less (svc_now S + 1000) (blk_Tmstmp b) then Some (Inl (Sentinel ErrTimestampTooLate))
      else case svc_sigJob S of
        Some err \<Rightarrow> Some (Inl err)
      | None \<Rightarrow>
       (case createBlockContext im b r of
          None \<Rightarrow> None
        | Some (Inl err) \<Rightarrow> Some (Inl err)
        | Some (Inr ctx) \<Rightarrow>
           (case (if isNormalOp then svc_replay S else None) of
              Some err \<Rightarrow> Some (Inl (Wrap2f ''%w: %w'' [] (Sentinel ErrDuplicateTx) err))
            | None \<Rightarrow>
               (case executeTxs (svc_schedule S)
                       \<lparr>env_sha256 = sha256, env_rand = rand, env_rules = r, env_time = blk_Tmstmp b\<rparr>
                       im (blk_Txs b) (ctx_feeManager ctx) of
                  Inl err \<Rightarrow> Some (Inl (Wrapf ''failed to execute txs: %w'' [] err))
                | Inr (results, fm, ts) \<Rightarrow>
                    Some (finish_block S im b (ctx\<lparr>ctx_feeManager := fm\<rparr>) results ts)))))"

section \<open>A task changes its keys and nothing else decides it\<close>

definition patched :: "TState \<Rightarrow> nat \<Rightarrow> changes \<Rightarrow> TState" where
  "patched ts n d = \<lparr>tstate_ops = tstate_ops ts + n, changedKeys = changedKeys ts ++ d\<rparr>"

definition agree_on :: "(bytes \<Rightarrow> bool) \<Rightarrow> TState \<Rightarrow> TState \<Rightarrow> bool" where
  "agree_on P ts ts' \<longleftrightarrow> (\<forall>k. P k \<longrightarrow> changedKeys ts k = changedKeys ts' k)"

abbreviation task_reads :: "task \<Rightarrow> bytes \<Rightarrow> bool" where
  "task_reads tk k \<equiv> Keys_Has (task_keys tk) k PermRead"

abbreviation task_writes :: "task \<Rightarrow> bytes \<Rightarrow> bool" where
  "task_writes tk k \<equiv> Keys_Has (task_keys tk) k PermWrite"

abbreviation task_view :: "task \<Rightarrow> TState \<Rightarrow> TStateView" where
  "task_view tk ts \<equiv> NewView ts (ScopeKeys (task_keys tk)) (ImmutableStorage_GetValue (task_storage tk))"

lemma NewView_sel [simp]:
  "view_ts (NewView ts sc st) = ts" "view_scope (NewView ts sc st) = sc" "view_storage (NewView ts sc st) = st"
  "pendingChangedKeys (NewView ts sc st) = Map.empty" "view_ops (NewView ts sc st) = []"
  "view_writes (NewView ts sc st) = Map.empty" "view_allocates (NewView ts sc st) = Map.empty"
  by (simp_all add: NewView_def)

lemma task_view_twins: "agree_on (task_reads tk) ts ts' \<Longrightarrow> twin_views (task_view tk ts) (task_view tk ts')"
  by (simp add: twin_views_def wf_view_NewView same_layer_def parent_value_def checkScope_def agree_on_def
      split: option.split)

lemma Commit_patched:
  "framed (NewView ts sc st) v \<Longrightarrow> Commit v = patched ts (length (view_ops v)) (pendingChangedKeys v)"
  by (simp add: Commit_def patched_def framed_def)

lemma run_task_Inr:
  "run_task E fm tk ts = Inr (res, ts') \<longleftrightarrow>
     PreExecute fm view_handler (env_rules E) (task_tx tk) (task_view tk ts) (env_time E) = None \<and>
     (\<exists>v. Transaction_Execute (env_sha256 E) (env_rand E (task_index tk)) fm view_handler (env_rules E)
        (task_tx tk) (task_view tk ts) (env_time E) = (Inr res, v) \<and> ts' = Commit v)"
  by (auto simp: run_task_def Let_def split: option.splits sum.splits prod.splits)

lemma run_task_patch:
  assumes "run_task E fm tk ts = Inr (res, ts1)"
  obtains n d where "ts1 = patched ts n d" "\<And>k. d k \<noteq> None \<Longrightarrow> task_writes tk k"
    "\<And>ts'. agree_on (task_reads tk) ts ts' \<Longrightarrow> run_task E fm tk ts' = Inr (res, patched ts' n d)"
proof -
  let ?exec = "\<lambda>w. Transaction_Execute (env_sha256 E) (env_rand E (task_index tk)) fm view_handler (env_rules E)
    (task_tx tk) w (env_time E)"
  obtain v where v: "?exec (task_view tk ts) = (Inr res, v)" "ts1 = Commit v"
    and pre: "PreExecute fm view_handler (env_rules E) (task_tx tk) (task_view tk ts) (env_time E) = None"
    using assms unfolding run_task_Inr by blast
  have f: "framed (task_view tk ts) v"
    using Transaction_Execute_keeps [OF wf_view_NewView v(1)] by blast
  show thesis
  proof (rule that [of "length (view_ops v)" "pendingChangedKeys v"])
    show "ts1 = patched ts (length (view_ops v)) (pendingChangedKeys v)"
      using v(2) Commit_patched [OF f] by simp
    show "task_writes tk k" if "pendingChangedKeys v k \<noteq> None" for k
      using f that by (auto simp: framed_def checkScope_def)
    show "run_task E fm tk ts' = Inr (res, patched ts' (length (view_ops v)) (pendingChangedKeys v))"
      if "agree_on (task_reads tk) ts ts'" for ts'
    proof -
      note tw = task_view_twins [OF that]
      obtain w where w: "?exec (task_view tk ts') = (Inr res, w)" "twin_views v w"
        using Transaction_Execute_twins [OF tw, of "env_sha256 E" "env_rand E (task_index tk)" fm
            "env_rules E" "task_tx tk" "env_time E"] v(1) by (auto elim!: rel_prod.cases)
      have "framed (task_view tk ts') w"
        using Transaction_Execute_keeps [OF wf_view_NewView w(1)] by blast
      from Commit_patched [OF this] w(2)
      have "Commit w = patched ts' (length (view_ops v)) (pendingChangedKeys v)"
        by (simp add: twin_views_def same_layer_def)
      with w(1) pre PreExecute_twins [OF tw] show ?thesis unfolding run_task_Inr by simp
    qed
  qed
qed

section \<open>Schedules\<close>

text \<open>Two tasks conflict on a key that both declare, unless both declare it for reading only.\<close>

definition conflicts :: "task \<Rightarrow> task \<Rightarrow> bool" where
  "conflicts a b \<longleftrightarrow> (\<exists>k \<in> fst ` set (task_keys a) \<inter> fst ` set (task_keys b).
     \<not> (Keys_lookup (task_keys a) k = PermRead \<and> Keys_lookup (task_keys b) k = PermRead))"

lemma conflicts_commute: "conflicts a b \<longleftrightarrow> conflicts b a"
  by (auto simp: conflicts_def)

lemma Keys_Has_declared:
  assumes "Keys_Has ks k p" and "\<not> Perm_Has PermNone p"
  shows "k \<in> fst ` set ks"
proof (rule ccontr)
  assume "k \<notin> fst ` set ks"
  then have "map_of ks k = None" by (simp add: map_of_eq_None_iff)
  with assms show False by (simp add: Keys_Has_def Keys_lookup_def)
qed

lemma independent:
  assumes "\<not> conflicts a b" and "task_writes a k"
  shows "\<not> task_reads b k"
proof
  assume r: "task_reads b k"
  have "Keys_lookup (task_keys a) k = PermRead"
    using assms Keys_Has_declared [OF assms(2)] Keys_Has_declared [OF r]
    by (auto simp: conflicts_def Perm_Has_consts)
  with assms(2) show False by (simp add: Keys_Has_def Perm_Has_consts)
qed

lemma agree_on_patched:
  "(\<And>k. d k \<noteq> None \<Longrightarrow> \<not> P k) \<Longrightarrow> agree_on P ts (patched ts n d) \<and> agree_on P (patched ts n d) ts"
  by (auto simp: agree_on_def patched_def map_add_def split: option.split)

lemma patched_commute:
  assumes "\<And>k. d k \<noteq> None \<Longrightarrow> e k = None"
  shows "patched (patched ts n d) m e = patched (patched ts m e) n d"
proof -
  have "changedKeys ts ++ d ++ e = changedKeys ts ++ e ++ d"
    using assms by (fastforce simp: fun_eq_iff map_add_def split: option.split)
  then show ?thesis by (simp add: patched_def)
qed

lemma run_task_swap:
  assumes "\<not> conflicts a b" and "run_task E fm a ts = Inr (r1, ts1)" and "run_task E fm b ts1 = Inr (r2, ts2)"
  obtains ts1' where "run_task E fm b ts = Inr (r2, ts1')" "run_task E fm a ts1' = Inr (r1, ts2)"
proof -
  obtain n d where d: "ts1 = patched ts n d" "\<And>k. d k \<noteq> None \<Longrightarrow> task_writes a k"
      "\<And>ts'. agree_on (task_reads a) ts ts' \<Longrightarrow> run_task E fm a ts' = Inr (r1, patched ts' n d)"
    using run_task_patch [OF assms(2)] by metis
  obtain m e where e: "ts2 = patched ts1 m e" "\<And>k. e k \<noteq> None \<Longrightarrow> task_writes b k"
      "\<And>ts'. agree_on (task_reads b) ts1 ts' \<Longrightarrow> run_task E fm b ts' = Inr (r2, patched ts' m e)"
    using run_task_patch [OF assms(3)] by metis
  have "agree_on (task_reads b) ts1 ts"
    using agree_on_patched [of d "task_reads b" ts n] d(1,2) independent [OF assms(1)] by blast
  then have 1: "run_task E fm b ts = Inr (r2, patched ts m e)" by (rule e(3))
  have "agree_on (task_reads a) ts (patched ts m e)"
    using agree_on_patched [of e "task_reads a" ts m] e(2) independent [of b a] assms(1)
    by (metis conflicts_commute)
  then have 2: "run_task E fm a (patched ts m e) = Inr (r1, patched (patched ts m e) n d)" by (rule d(3))
  have "patched (patched ts n d) m e = patched (patched ts m e) n d"
  proof (rule patched_commute)
    fix k assume "d k \<noteq> None"
    then have "\<not> task_reads b k" using d(2) independent [OF assms(1)] by blast
    then show "e k = None" using e(2) [of k] Perm_Has_Write_Read by (metis Keys_Has_def)
  qed
  with that [OF 1] 2 d(1) e(1) show thesis by simp
qed

text \<open>Running two lists of tasks, one after the other.\<close>

lemma run_tasks_append:
  "run_tasks E fm (xs @ ys) ts =
     (case run_tasks E fm xs ts of
        Inl err \<Rightarrow> Inl err
      | Inr (rs, ts1) \<Rightarrow>
         (case run_tasks E fm ys ts1 of
            Inl err \<Rightarrow> Inl err
          | Inr (rs', ts2) \<Rightarrow> Inr (rs' ++ rs, ts2)))"
  by (induction xs arbitrary: ts)
     (auto split: sum.split prod.split)

text \<open>Exchanging two neighbours that do not conflict.\<close>

inductive swap :: "task list \<Rightarrow> task list \<Rightarrow> bool" where
  "\<not> conflicts a b \<Longrightarrow> task_index a \<noteq> task_index b \<Longrightarrow> swap (xs @ a # b # ys) (xs @ b # a # ys)"

lemma run_tasks_swap_front:
  assumes "\<not> conflicts a b" "task_index a \<noteq> task_index b" "run_tasks E fm (a # b # ys) ts = Inr (rs, ts')"
  shows "run_tasks E fm (b # a # ys) ts = Inr (rs, ts')"
proof -
  obtain r1 ts1 r2 ts2 rs' where run: "run_task E fm a ts = Inr (r1, ts1)" "run_task E fm b ts1 = Inr (r2, ts2)"
      "run_tasks E fm ys ts2 = Inr (rs', ts')" "rs = rs'(task_index b \<mapsto> r2, task_index a \<mapsto> r1)"
    using assms(3) by (auto split: sum.splits prod.splits)
  obtain ts1' where "run_task E fm b ts = Inr (r2, ts1')" "run_task E fm a ts1' = Inr (r1, ts2)"
    using run_task_swap [OF assms(1) run(1,2)] by blast
  with run(3,4) assms(2) show ?thesis by (simp add: fun_upd_twist)
qed

lemma run_tasks_swap:
  assumes "swap xs ys" and "run_tasks E fm xs ts = Inr (rs, ts')"
  shows "run_tasks E fm ys ts = Inr (rs, ts')"
  using assms
proof (induction rule: swap.induct)
  case (1 a b xs ys)
  then obtain rs1 ts1 rs2 where "run_tasks E fm xs ts = Inr (rs1, ts1)"
      "run_tasks E fm (a # b # ys) ts1 = Inr (rs2, ts')" "rs = rs2 ++ rs1"
    unfolding run_tasks_append by (auto split: sum.splits prod.splits simp del: run_tasks.simps)
  with run_tasks_swap_front [OF 1(1,2)] show ?case by (simp add: run_tasks_append del: run_tasks.simps)
qed

lemma run_tasks_swaps:
  "swap\<^sup>*\<^sup>* xs ys \<Longrightarrow> run_tasks E fm xs ts = Inr out \<Longrightarrow> run_tasks E fm ys ts = Inr out"
  by (induction rule: rtranclp_induct) (cases out; auto intro: run_tasks_swap)+

text \<open>
  What the executor promises: every queued task runs once, and of two conflicting tasks the one that
  was queued first runs first.
\<close>

definition keeps_order :: "task list \<Rightarrow> task list \<Rightarrow> bool" where
  "keeps_order xs ys \<longleftrightarrow> mset ys = mset xs \<and> (\<forall>a b. conflicts a b \<longrightarrow> before xs a b \<longrightarrow> before ys a b)"

lemma swap_Cons: "swap xs ys \<Longrightarrow> swap (a # xs) (a # ys)"
  by (erule swap.cases) (metis append_Cons swap.intros)

lemma swaps_Cons: "swap\<^sup>*\<^sup>* xs ys \<Longrightarrow> swap\<^sup>*\<^sup>* (a # xs) (a # ys)"
  by (induction rule: rtranclp_induct) (auto intro: rtranclp.rtrancl_into_rtrancl swap_Cons)

text \<open>A task that conflicts with nothing in front of it can be moved to the front.\<close>

lemma move_front:
  "(\<And>x. x \<in> set us \<Longrightarrow> \<not> conflicts x a \<and> task_index x \<noteq> task_index a) \<Longrightarrow> swap\<^sup>*\<^sup>* (us @ a # vs) (a # us @ vs)"
proof (induction us)
  case (Cons x us)
  have "swap\<^sup>*\<^sup>* (x # us @ a # vs) (x # a # us @ vs)" using Cons by (auto intro: swaps_Cons)
  moreover have "swap (x # a # us @ vs) (a # x # us @ vs)"
    using swap.intros [of x a "[]" "us @ vs"] Cons.prems [of x] by simp
  ultimately show ?case by auto
qed simp

lemma before_distinct: "distinct (a # ys) \<Longrightarrow> \<not> before (a # ys) x a"
  unfolding before_def by (auto simp: Cons_eq_append_conv)

lemma before_Cons: "x \<noteq> a \<Longrightarrow> before (a # ys) x y \<Longrightarrow> before ys x y"
  unfolding before_def by (auto simp: Cons_eq_append_conv)

lemma keeps_order_swaps:
  assumes "keeps_order xs ys" and "distinct (map task_index xs)"
  shows "swap\<^sup>*\<^sup>* xs ys"
  using assms
proof (induction ys arbitrary: xs)
  case Nil
  then show ?case by (simp add: keeps_order_def)
next
  case (Cons a ys)
  then have m: "mset xs = mset (a # ys)" by (simp add: keeps_order_def)
  then obtain us vs where xs: "xs = us @ a # vs"
    by (metis in_set_conv_decomp list.set_intros(1) mset_eq_setD)
  have d: "distinct (map task_index (a # ys))"
    using Cons.prems(2) m by (metis mset_eq_imp_distinct_iff mset_map)
  then have da: "distinct (a # ys)" by (auto simp: distinct_map)
  have front: "\<not> conflicts x a \<and> task_index x \<noteq> task_index a" if "x \<in> set us" for x
  proof
    obtain us1 us2 where "us = us1 @ x # us2" using \<open>x \<in> set us\<close> by (metis in_set_conv_decomp)
    then have "before xs x a" unfolding before_def xs by auto
    then show "\<not> conflicts x a" using Cons.prems(1) before_distinct [OF da] by (auto simp: keeps_order_def)
    show "task_index x \<noteq> task_index a" using Cons.prems(2) that by (auto simp: xs) (metis imageI)
  qed
  have sub: "before xs x y" if b: "before (us @ vs) x y" for x y
  proof -
    obtain p q r where e: "us @ vs = p @ x # q @ y # r" using b unfolding before_def by blast
    have "\<exists>p' q' r'. us @ a # vs = p' @ x # q' @ y # r'"
      using e by (auto simp: append_eq_append_conv2 append_eq_Cons_conv Cons_eq_append_conv) (metis append_Cons append_assoc)+
    then show ?thesis unfolding before_def xs .
  qed
  have "keeps_order (us @ vs) ys"
    unfolding keeps_order_def
  proof (intro conjI allI impI)
    show "mset ys = mset (us @ vs)" using m by (simp add: xs)
    fix x y assume c: "conflicts x y" and b: "before (us @ vs) x y"
    then have "x \<in> set (us @ vs)" unfolding before_def by (metis in_set_conv_decomp)
    then have "x \<noteq> a" using Cons.prems(2) by (auto simp: xs)
    moreover have "before (a # ys) x y" using c sub [OF b] Cons.prems(1) by (simp add: keeps_order_def)
    ultimately show "before ys x y" by (rule before_Cons)
  qed
  moreover have "distinct (map task_index (us @ vs))" using Cons.prems(2) by (auto simp: xs)
  ultimately have "swap\<^sup>*\<^sup>* (a # us @ vs) (a # ys)" using Cons.IH swaps_Cons by blast
  with move_front [of us a vs, OF front] show ?case by (simp add: xs)
qed

lemma swap_sym: "swap xs ys \<Longrightarrow> swap ys xs"
  by (erule swap.cases) (metis conflicts_commute swap.intros)

lemma swaps_sym: "swap\<^sup>*\<^sup>* xs ys \<Longrightarrow> swap\<^sup>*\<^sup>* ys xs"
  by (induction rule: rtranclp_induct) (auto intro: converse_rtranclp_into_rtranclp swap_sym)

lemma queue_txs_Cons:
  "queue_txs im bh r i (tx # txs) fm = Inr (tks, fm2) \<longleftrightarrow>
     (\<exists>stateKeys units d fm1 storage tasks.
        Transaction_StateKeys bh tx = Inr stateKeys \<and> Transaction_Units bh r tx = Inr units \<and>
        Consume units (GetMaxBlockUnits r) fm = ((True, d), fm1) \<and> fetch im (WithoutPermissions stateKeys) = Inr storage \<and>
        queue_txs im bh r (Suc i) txs fm1 = Inr (tasks, fm2) \<and>
        tks = \<lparr>task_index = i, task_tx = tx, task_keys = stateKeys, task_storage = storage\<rparr> # tasks)"
  by (auto split: sum.splits prod.splits bool.splits)

lemma queue_txs_index:
  "queue_txs im bh r i txs fm = Inr (tks, fm') \<Longrightarrow> map task_index tks = [i..<i + length txs]"
proof (induction txs arbitrary: i fm tks)
  case (Cons tx txs)
  then show ?case
    unfolding queue_txs_Cons by (auto simp: upt_conv_Cons [of i "Suc (i + length txs)"] simp del: upt_Suc)
qed simp

lemma executeTxs_Inr:
  "executeTxs schedule E im txs fm0 = Inr (results, fm, ts) \<longleftrightarrow>
     (\<exists>tasks rs. queue_txs im view_handler (env_rules E) 0 txs fm0 = Inr (tasks, fm) \<and>
        run_tasks E fm (schedule tasks) TState_New = Inr (rs, ts) \<and> results = map rs [0..<length txs])"
  by (auto simp: executeTxs_def split: sum.splits prod.splits)

text \<open>
  The schedules of the executor: the tasks in the order in which their functions return in a run that
  no error stops. Tasks whose functions overlap in time do not conflict, so any order of them stands
  for the overlap.
\<close>

definition from_executor :: "(task list \<Rightarrow> task list) \<Rightarrow> bool" where
  "from_executor schedule \<longleftrightarrow> (\<forall>tasks. fair_calls MaxKeyDependencies (map task_keys tasks) \<longrightarrow>
     (\<exists>log. executor_log MaxKeyDependencies (map task_keys tasks) log \<and> schedule tasks = map ((!) tasks) log))"

lemma conflicts_iff: "conflicts a b \<longleftrightarrow> key_conflict (map_of (task_keys a)) (map_of (task_keys b))"
proof -
  have d: "fst ` set ks = {k. \<exists>v. map_of ks k = Some v}" for ks :: Keys
    by (auto simp: dom_map_of_conv_image_fst [symmetric] dom_def)
  have "conflicts a b \<longleftrightarrow> (\<exists>k v w. map_of (task_keys a) k = Some v \<and> map_of (task_keys b) k = Some w \<and>
      \<not> (Keys_lookup (task_keys a) k = PermRead \<and> Keys_lookup (task_keys b) k = PermRead))"
    unfolding conflicts_def d by blast
  then show ?thesis unfolding key_conflict_def by (simp add: Keys_lookup_def cong: conj_cong)
qed

lemma before_nth: "before xs a b \<Longrightarrow> \<exists>i j. i < j \<and> j < length xs \<and> xs ! i = a \<and> xs ! j = b"
proof -
  assume "before xs a b"
  then obtain us vs ws where "xs = us @ a # vs @ b # ws" unfolding before_def by blast
  then show ?thesis
    by (intro exI [of _ "length us"] exI [of _ "Suc (length us + length vs)"]) (simp add: nth_append)
qed

lemma before_map: "before xs a b \<Longrightarrow> before (map f xs) (f a) (f b)"
  unfolding before_def by auto (metis map_append)

lemma executor_keeps_order:
  assumes "executor_log m (map task_keys tasks) log" and "fair_calls m (map task_keys tasks)"
  shows "keeps_order tasks (map ((!) tasks) log)"
  unfolding keeps_order_def
proof (intro conjI allI impI)
  note L = executor_log_order [OF assms]
  have "mset log = mset [0..<length tasks]" using L(1,2) set_eq_iff_mset_eq_distinct [of log "[0..<length tasks]"] by (simp add: atLeast0LessThan)
  then have "mset (map ((!) tasks) log) = mset (map ((!) tasks) [0..<length tasks])" by (simp only: mset_map)
  then show "mset (map ((!) tasks) log) = mset tasks" by (simp only: map_nth)
  fix a b assume c: "conflicts a b" and "before tasks a b"
  then obtain i j where ij: "i < j" "j < length tasks" "tasks ! i = a" "tasks ! j = b"
    by (meson before_nth)
  then have "key_conflict (map_of (map task_keys tasks ! i)) (map_of (map task_keys tasks ! j))"
    using c by (simp only: conflicts_iff nth_map order.strict_trans)
  then have "before log i j" using ij(1,2) by (intro L(3)) simp_all
  then show "before (map ((!) tasks) log) a b" using before_map [of log i j "(!) tasks"] ij(3,4) by simp
qed

lemma queue_txs_fair:
  assumes "queue_txs im bh r i txs fm = Inr (tks, fm')" and "int (length txs) \<le> m"
  shows "fair_calls m (map task_keys tks)"
proof -
  have "length tks = length txs \<and> (\<forall>tk \<in> set tks. distinct (map fst (task_keys tk)))"
    using assms(1)
  proof (induction txs arbitrary: i fm tks)
    case (Cons tx txs)
    then show ?case
      unfolding queue_txs_Cons using add_keys_fst [of "tx_declared bh tx" "[]"]
      by (auto simp: Transaction_StateKeys_eq split: option.splits)
  qed simp
  with assms(2) show ?thesis by (simp add: fair_calls_def)
qed

lemma run_tasks_schedule:
  assumes "queue_txs im bh r 0 txs fm0 = Inr (tasks, fm)"
    and "from_executor schedule" and "int (length txs) \<le> MaxKeyDependencies"
  shows "run_tasks E fm (schedule tasks) ts = Inr out \<longleftrightarrow> run_tasks E fm tasks ts = Inr out"
proof -
  note fair = queue_txs_fair [OF assms(1,3)]
  then have "keeps_order tasks (schedule tasks)"
    using assms(2) executor_keeps_order unfolding from_executor_def by metis
  then have "swap\<^sup>*\<^sup>* tasks (schedule tasks)"
    using queue_txs_index [OF assms(1)] by (intro keeps_order_swaps) simp_all
  then show ?thesis using run_tasks_swaps swaps_sym by blast
qed

text \<open>The order of the queue is a schedule, and there are others.\<close>

lemma from_executor_id: "from_executor id"
  unfolding from_executor_def
proof (intro allI impI)
  fix tasks :: "task list" assume "fair_calls MaxKeyDependencies (map task_keys tasks)"
  from sequential_run [OF this, of 1]
  have "executor_log MaxKeyDependencies (map task_keys tasks) [0..<length tasks]"
    by (auto simp: executor_log_def)
  then show "\<exists>log. executor_log MaxKeyDependencies (map task_keys tasks) log \<and> id tasks = map ((!) tasks) log"
    by (intro exI [of _ "[0..<length tasks]"]) (simp add: map_nth)
qed

text \<open>Tasks that share no key, the last first.\<close>

definition eager :: "task list \<Rightarrow> task list" where
  "eager tasks = (if sorted_wrt (\<lambda>a b. fst ` set (task_keys a) \<inter> fst ` set (task_keys b) = {}) tasks
     then rev tasks else tasks)"

lemma from_executor_eager: "from_executor eager"
  unfolding from_executor_def
proof (intro allI impI)
  fix tasks :: "task list" assume fair: "fair_calls MaxKeyDependencies (map task_keys tasks)"
  show "\<exists>log. executor_log MaxKeyDependencies (map task_keys tasks) log \<and> eager tasks = map ((!) tasks) log"
  proof (cases "sorted_wrt (\<lambda>a b. fst ` set (task_keys a) \<inter> fst ` set (task_keys b) = {}) tasks")
    case True
    then have "executor_log MaxKeyDependencies (map task_keys tasks) (rev [0..<length tasks])"
      using any_order [OF fair, of "Suc (length tasks)" "rev [0..<length tasks]"]
      by (fastforce simp: executor_log_def sorted_wrt_map atLeast0LessThan)
    then show ?thesis
      using True by (intro exI [of _ "rev [0..<length tasks]"]) (simp add: eager_def rev_map [symmetric] map_nth)
  next
    case False
    then have "eager tasks = id tasks" by (simp add: eager_def)
    with fair from_executor_id show ?thesis unfolding from_executor_def by metis
  qed
qed

section \<open>Accounting of a block\<close>

lemma Fee_loop_prices:
  "(\<And>i. i \<in> set is \<Longrightarrow> unitPrice f i = unitPrice g i) \<Longrightarrow> Fee_loop f d x is = Fee_loop g d x is"
  by (induction f d x "is" rule: Fee_loop.induct) (auto split: sum.split)

lemma Fee_prices: "(\<And>i. i < FeeDimensions \<Longrightarrow> unitPrice f i = unitPrice g i) \<Longrightarrow> Fee f d = Fee g d"
  unfolding Fee_def by (rule Fee_loop_prices) simp

lemma Consume_ok_exact:
  assumes "wf_Manager f" and "Consume d l f = ((True, x), f')"
  shows "wf_Manager f' \<and> (\<forall>i < FeeDimensions. unitPrice f' i = unitPrice f i \<and>
      unat (lastConsumed f' i) = unat (lastConsumed f i) + unat (d ! i) \<and>
      unat (lastConsumed f' i) \<le> unat (l ! i))"
  using assms(1)
proof (cases rule: Consume_cases [where d = d and l = l])
  case (ok g)
  have "unat (lastConsumed f i + d ! i) = unat (lastConsumed f i) + unat (d ! i)"
      "unat (lastConsumed f i) + unat (d ! i) \<le> unat (l ! i)" if "i < FeeDimensions" for i
  proof -
    show c: "unat (lastConsumed f i) + unat (d ! i) \<le> unat (l ! i)" using ok(3) that by (simp add: consumable_def)
    then show "unat (lastConsumed f i + d ! i) = unat (lastConsumed f i) + unat (d ! i)"
      using unat_less_64 [of "l ! i"] by (intro unat_add_no_wrap) simp
  qed
  with ok assms(2) show ?thesis by simp
qed (use assms(2) in simp)

lemma queue_txs_units:
  assumes "queue_txs im bh r i txs fm = Inr (tks, fm')" and "wf_Manager fm"
  shows "wf_Manager fm' \<and> (\<forall>d < FeeDimensions. unitPrice fm' d = unitPrice fm d \<and>
    unat (lastConsumed fm' d) = unat (lastConsumed fm d) + (\<Sum>tx\<leftarrow>txs. unat (projr (Transaction_Units bh r tx) ! d)) \<and>
    (txs \<noteq> [] \<longrightarrow> unat (lastConsumed fm' d) \<le> unat (GetMaxBlockUnits r ! d)))"
  using assms
proof (induction txs arbitrary: i fm tks)
  case (Cons tx txs)
  from Cons.prems(1) obtain units x fm1 tks1 where u: "Transaction_Units bh r tx = Inr units"
      "Consume units (GetMaxBlockUnits r) fm = ((True, x), fm1)"
      "queue_txs im bh r (Suc i) txs fm1 = Inr (tks1, fm')"
    unfolding queue_txs_Cons by blast
  note one = Consume_ok_exact [OF Cons.prems(2) u(2)]
  note rest = Cons.IH [OF u(3) one [THEN conjunct1]]
  show ?case
  proof (cases "txs = []")
    case True
    then have "fm1 = fm'" using u(3) by simp
    with True one show ?thesis by (auto simp: u(1))
  next
    case False
    with one rest show ?thesis by (auto simp: u(1) add.assoc)
  qed
qed simp

lemma queue_txs_nth:
  "queue_txs im bh r i txs fm = Inr (tks, fm') \<Longrightarrow>
   length tks = length txs \<and>
   (\<forall>j < length txs. task_index (tks ! j) = i + j \<and> task_tx (tks ! j) = txs ! j \<and>
      Transaction_StateKeys bh (txs ! j) = Inr (task_keys (tks ! j)) \<and>
      fetch im (WithoutPermissions (task_keys (tks ! j))) = Inr (task_storage (tks ! j)))"
proof (induction txs arbitrary: i fm tks)
  case (Cons tx txs)
  obtain stateKeys storage fm1 tks1 where q: "Transaction_StateKeys bh tx = Inr stateKeys"
      "fetch im (WithoutPermissions stateKeys) = Inr storage" "queue_txs im bh r (Suc i) txs fm1 = Inr (tks1, fm')"
      "tks = \<lparr>task_index = i, task_tx = tx, task_keys = stateKeys, task_storage = storage\<rparr> # tks1"
    using Cons.prems unfolding queue_txs_Cons by blast
  show ?case using Cons.IH [OF q(3)] q(1,2) by (auto simp: q(4) nth_Cons split: nat.split)
qed simp

lemma run_task_charged:
  assumes "run_task E fm tk ts = Inr (res, ts')"
  shows "Transaction_Units view_handler (env_rules E) (task_tx tk) = Inr (result_Units res) \<and>
    Fee fm (result_Units res) = Inr (result_Fee res)"
proof -
  obtain v where "Transaction_Execute (env_sha256 E) (env_rand E (task_index tk)) fm view_handler (env_rules E)
      (task_tx tk) (task_view tk ts) (env_time E) = (Inr res, v)"
    using assms unfolding run_task_Inr by blast
  then show ?thesis by (cases rule: Transaction_Execute_cases) auto
qed

lemma run_tasks_results:
  assumes "run_tasks E fm tks ts = Inr (rs, ts')" and "distinct (map task_index tks)" and "tk \<in> set tks"
  shows "\<exists>res. rs (task_index tk) = Some res \<and>
    Transaction_Units view_handler (env_rules E) (task_tx tk) = Inr (result_Units res) \<and>
    Fee fm (result_Units res) = Inr (result_Fee res)"
  using assms
proof (induction tks arbitrary: ts rs)
  case (Cons a tks)
  obtain res ts1 rs1 where r: "run_task E fm a ts = Inr (res, ts1)" "run_tasks E fm tks ts1 = Inr (rs1, ts')"
      "rs = rs1(task_index a \<mapsto> res)"
    using Cons.prems(1) by (auto split: sum.splits prod.splits)
  show ?case
  proof (cases "tk = a")
    case True
    with run_task_charged [OF r(1)] r(3) show ?thesis by simp
  next
    case False
    with Cons.prems have "tk \<in> set tks" "task_index tk \<noteq> task_index a" by (auto simp: image_iff)
    with Cons.IH [OF r(2)] Cons.prems(2) r(3) show ?thesis by simp
  qed
qed simp

lemma executeTxs_results:
  assumes "executeTxs id E im txs fm0 = Inr (results, fm, ts)" and "j < length txs"
  shows "\<exists>res. results ! j = Some res \<and>
    Transaction_Units view_handler (env_rules E) (txs ! j) = Inr (result_Units res) \<and>
    Fee fm (result_Units res) = Inr (result_Fee res)"
proof -
  obtain tasks rs where q: "queue_txs im view_handler (env_rules E) 0 txs fm0 = Inr (tasks, fm)"
      "run_tasks E fm tasks TState_New = Inr (rs, ts)" "results = map rs [0..<length txs]"
    using assms(1) unfolding executeTxs_Inr by auto
  note n = queue_txs_nth [OF q(1)]
  then have "tasks ! j \<in> set tasks" "task_index (tasks ! j) = j" "task_tx (tasks ! j) = txs ! j"
    using assms(2) by (auto intro!: nth_mem)
  moreover have "distinct (map task_index tasks)" using queue_txs_index [OF q(1)] by simp
  ultimately show ?thesis using run_tasks_results [OF q(2), of "tasks ! j"] q(3) assms(2) by simp
qed

end
