(* ===== verification/Ledger.thy ===== *)
theory Ledger
  imports BlockProcessor
begin

text \<open>
  What blocks do to the ledger. The exchange of theory \<open>Exchange\<close> gets a step relation: someone pays
  a fee, or a purchase succeeds. Executing a transaction, and so a block, moves the exchange that is
  read off the state along these steps. The invariants of the steps are therefore invariants of the
  chain: outstanding shares match the totals of the markets, no balance ever grows, and no market is
  ever closed or resolved.
\<close>

section \<open>Steps of the exchange\<close>

inductive exchange_step :: "exchange \<Rightarrow> exchange \<Rightarrow> bool" where
  pay: "wf_Address a \<Longrightarrow> balance_of x a = Some bal \<Longrightarrow> fee \<le> bal \<Longrightarrow>
     exchange_step x (x\<lparr>balance_of := (balance_of x)(a \<mapsto> bal - fee)\<rparr>)"
| buy: "wf_Address a \<Longrightarrow> t \<in> {YesShareType, NoShareType} \<Longrightarrow> buy_fault t i n p ts a x = None \<Longrightarrow>
     exchange_step x (bought t i n p a x)"

inductive_cases exchange_stepE: "exchange_step x y"

text \<open>Everything the guards of a purchase say.\<close>

lemma buy_fault_None:
  "buy_fault t i n p ts a x = None \<longleftrightarrow>
     n \<noteq> 0 \<and> p \<noteq> 0 \<and> (\<exists>m. market_of x i = Some m \<and> tradable m ts) \<and>
     (\<exists>bal. balance_of x a = Some bal \<and> n * p \<le> bal) \<and> shares_of x i a t \<noteq> Some 0"
  by (auto simp: buy_fault_def split: option.splits)

subsection \<open>Outstanding shares\<close>

definition holding :: "u8 \<Rightarrow> u64 \<Rightarrow> exchange \<Rightarrow> Address \<Rightarrow> u64" where
  "holding t i x a = (case shares_of x i a t of None \<Rightarrow> 0 | Some n \<Rightarrow> n)"

definition outstanding :: "u8 \<Rightarrow> u64 \<Rightarrow> exchange \<Rightarrow> u64" where
  "outstanding t i x = (\<Sum>a | wf_Address a. holding t i x a)"

definition backed :: "exchange \<Rightarrow> bool" where
  "backed x \<longleftrightarrow> (\<forall>i m. market_of x i = Some m \<longrightarrow>
     TotalYesShares m = outstanding YesShareType i x \<and> TotalNoShares m = outstanding NoShareType i x)"

lemma finite_addresses [simp]: "finite {a. wf_Address a}"
proof -
  have "{a. wf_Address a} = {a. set a \<subseteq> UNIV \<and> length a = AddressLen}" by (auto simp: wf_Address_def)
  then show ?thesis using finite_lists_length_eq [of "UNIV :: byte set" AddressLen] by simp
qed

lemma holding_bought:
  "holding t' j (bought t i n p a x) b =
     (if t' = t \<and> j = i \<and> b = a then holding t i x a + n else holding t' j x b)"
  by (auto simp: holding_def bought_def shares_after_def split: option.split)

lemma outstanding_bought:
  assumes "wf_Address a"
  shows "outstanding t' j (bought t i n p a x) = outstanding t' j x + (if t' = t \<and> j = i then n else 0)"
proof (cases "t' = t \<and> j = i")
  case True
  let ?others = "{b. wf_Address b} - {a}"
  have split: "outstanding t i y = holding t i y a + sum (holding t i y) ?others" for y
    unfolding outstanding_def using assms by (intro sum.remove) simp_all
  have "sum (holding t i (bought t i n p a x)) ?others = sum (holding t i x) ?others"
    by (rule sum.cong) (simp_all add: holding_bought)
  with True show ?thesis by (simp add: split holding_bought)
next
  case False
  then have "holding t' j (bought t i n p a x) = holding t' j x" by (auto simp: holding_bought fun_eq_iff)
  with False show ?thesis by (auto simp: outstanding_def)
qed

lemma outstanding_pay [simp]:
  "outstanding t i (x\<lparr>balance_of := b\<rparr>) = outstanding t i x"
  by (simp add: outstanding_def holding_def)

lemma backed_step: "exchange_step x y \<Longrightarrow> backed x \<Longrightarrow> backed y"
proof (induction rule: exchange_step.induct)
  case (pay a x bal fee)
  then show ?case by (simp add: backed_def)
next
  case (buy a t i n p ts x)
  then obtain m where m: "market_of x i = Some m" by (auto simp: buy_fault_None)
  show ?case
    unfolding backed_def
  proof (intro allI impI)
    fix j m' assume m': "market_of (bought t i n p a x) j = Some m'"
    show "TotalYesShares m' = outstanding YesShareType j (bought t i n p a x) \<and>
        TotalNoShares m' = outstanding NoShareType j (bought t i n p a x)"
    proof (cases "j = i")
      case True
      then have "m' = add_total t n m" using m m' by (simp add: bought_def)
      moreover have "TotalYesShares m = outstanding YesShareType i x \<and> TotalNoShares m = outstanding NoShareType i x"
        using buy(4) m by (simp add: backed_def)
      ultimately show ?thesis
        using buy(2) True outstanding_bought [OF buy(1)]
        by (auto simp: add_total_def YesShareType_def NoShareType_def)
    next
      case False
      then have "market_of x j = Some m'" using m' by (simp add: bought_def)
      with False buy(4) outstanding_bought [OF buy(1)] show ?thesis by (simp add: backed_def)
    qed
  qed
qed

subsection \<open>Balances and markets\<close>

definition no_richer :: "exchange \<Rightarrow> exchange \<Rightarrow> bool" where
  "no_richer x y \<longleftrightarrow> (\<forall>a b'. balance_of y a = Some b' \<longrightarrow> (\<exists>b. balance_of x a = Some b \<and> b' \<le> b))"

definition same_terms :: "Market \<Rightarrow> Market \<Rightarrow> bool" where
  "same_terms m m' \<longleftrightarrow> m' = m\<lparr>TotalYesShares := TotalYesShares m', TotalNoShares := TotalNoShares m'\<rparr>"

definition markets_kept :: "exchange \<Rightarrow> exchange \<Rightarrow> bool" where
  "markets_kept x y \<longleftrightarrow> (\<forall>i. rel_option same_terms (market_of x i) (market_of y i))"

lemma word_minus_le: "(c :: u64) \<le> b \<Longrightarrow> b - c \<le> b"
  by (simp add: word_le_nat_alt unat_sub)

lemma no_richer_trans: "no_richer x y \<Longrightarrow> no_richer y z \<Longrightarrow> no_richer x z"
  unfolding no_richer_def by (meson order_trans)

lemma same_terms_refl [simp]: "same_terms m m"
  by (simp add: same_terms_def)

lemma same_terms_trans: "same_terms m m' \<Longrightarrow> same_terms m' m'' \<Longrightarrow> same_terms m m''"
  unfolding same_terms_def by (cases m; cases m'; cases m'') simp

lemma same_terms_add [simp]: "same_terms m (add_total t n m)"
  by (cases m) (simp add: same_terms_def add_total_def)

lemma markets_kept_refl [simp]: "markets_kept x x"
  by (simp add: markets_kept_def option.rel_refl)

lemma markets_kept_trans:
  assumes "markets_kept x y" and "markets_kept y z"
  shows "markets_kept x z"
  unfolding markets_kept_def
proof
  show "rel_option same_terms (market_of x i) (market_of z i)" for i
    using assms unfolding markets_kept_def
    by (cases "market_of x i"; cases "market_of y i"; cases "market_of z i")
       (metis option.rel_distinct option.rel_inject(2) same_terms_trans option.rel_inject(1))+
qed

lemma exchange_step_keeps:
  assumes "exchange_step x y"
  shows "no_richer x y \<and> markets_kept x y"
  using assms
proof (cases rule: exchange_step.cases)
  case (pay a bal fee)
  then show ?thesis by (auto simp: no_richer_def markets_kept_def option.rel_refl word_minus_le)
next
  case (buy a t i n p ts)
  then obtain m bal where "market_of x i = Some m" "balance_of x a = Some bal" "n * p \<le> bal"
    by (auto simp: buy_fault_None)
  with buy(1) show ?thesis
    by (auto simp: no_richer_def markets_kept_def bought_def option.rel_refl word_minus_le)
qed

lemma exchange_steps_keep:
  "exchange_step\<^sup>*\<^sup>* x y \<Longrightarrow> (backed x \<longrightarrow> backed y) \<and> no_richer x y \<and> markets_kept x y"
proof (induction rule: rtranclp_induct)
  case base
  then show ?case by (simp add: no_richer_def)
next
  case (step y z)
  with exchange_step_keeps [OF step(2)] show ?case
    by (blast intro: backed_step no_richer_trans markets_kept_trans)
qed

section \<open>Actions move along the steps\<close>

context scoped_store
begin

lemma insert_success:
  assumes "inv s" and "Insert mu s k v = (None, s')"
  shows "inv s' \<and> contents s' = (contents s)(k \<mapsto> v) \<and> allowed s' = allowed s"
proof (cases "insertable (contents s) (allowed s) roomy k v")
  case True
  from insert_ok [OF assms(1) True] assms(2) show ?thesis by auto
next
  case False
  from insert_fail [OF assms(1) False] assms(2) show ?thesis by simp
qed

lemma SetMarket_success:
  assumes "inv s" and "wf_Market m" and "market_size m \<le> MaxMarketDataSize" and "SetMarket mu s m = (None, s')"
  shows "inv s' \<and> contents s' = (contents s)(MarketKey (market_ID m) \<mapsto> enc_market m) \<and> allowed s' = allowed s"
  using insert_success [OF assms(1)] assms(2-4) by (simp add: SetMarket_Insert)

lemma GetShareBalance_not_NotFound:
  "inv s \<Longrightarrow> wf_contents (contents s) \<Longrightarrow> wf_Address a \<Longrightarrow> GetShareBalance mu s i a t = Inl e \<Longrightarrow>
   \<not> errors_Is e ErrNotFound"
  by (auto simp: GetShareBalance_stored wf_contents_read_shares err_simps zero_error_def
      split: if_splits option.splits)

text \<open>When every step of a purchase goes through, it is a purchase of the exchange.\<close>

lemma purchase_success:
  assumes inv: "inv s" and wf: "wf_contents (contents s)" and a: "wf_Address a"
    and guards: "n \<noteq> 0" "p \<noteq> 0" "GetMarket mu s i = Inr m" "tradable m ts"
    and bal: "GetValue mu s (BalanceKey a) = Inr bs" "database_ParseUInt64 bs = Inr bal" "\<not> bal < n * p"
    and s1: "Insert mu s (BalanceKey a) (PutUint64 (bal - n * p)) = (None, s1)"
    and k: "GetShareBalance mu s1 i a t = Inr k"
    and s2: "SetShareBalance mu s1 i a t (k + n) = (None, s2)"
    and s3: "SetMarket mu s2 (add_total t n m) = (None, s3)"
  shows "inv s3 \<and> allowed s3 = allowed s \<and> wf_contents (contents s3) \<and>
    buy_fault t i n p ts a (abs_exchange (contents s)) = None \<and>
    abs_exchange (contents s3) = bought t i n p a (abs_exchange (contents s))"
proof -
  let ?x = "abs_exchange (contents s)"
  have "allowed s (MarketKey i) PermRead" using guards(3) GetMarket_denied [OF inv, of i] by fastforce
  then have m: "market_of ?x i = Some m" using guards(3) by (auto simp: read_market [OF inv wf] split: option.splits)
  note M = abs_market_wf [OF wf m]
  have "allowed s (BalanceKey a) PermRead" using bal(1) by (auto simp: get [OF inv] split: if_splits)
  then have b: "balance_of ?x a = Some bal"
    using bal(1,2) by (auto simp: read_balance [OF inv wf _ a] split: option.splits)
  note c1 = insert_success [OF inv s1]
  note c2 = insert_success [OF c1 [THEN conjunct1] s2 [unfolded SetShareBalance_Insert]]
  have c3: "inv s3 \<and> contents s3 = (contents s2)(MarketKey i \<mapsto> enc_market (add_total t n m)) \<and> allowed s3 = allowed s2"
    using SetMarket_success [OF c2 [THEN conjunct1] _ _ s3] M by simp
  have "allowed s1 (ShareBalanceKey i a t) PermRead"
    using k c1 by (auto simp: GetShareBalance_stored split: if_splits)
  then have "GetShareBalance mu s1 i a t = GetShareBalance mu s i a t"
      "allowed s (ShareBalanceKey i a t) PermRead"
    using c1 inv a by (simp_all add: GetShareBalance_stored keys_distinct)
  then have sh: "shares_of ?x i a t \<noteq> Some 0" "k + n = shares_after (shares_of ?x i a t) n"
    using k by (auto simp: read_shares [OF inv wf _ a] shares_after_def split: option.splits if_splits)
  have "contents s3 = purchase_writes t a (bal - n * p) (shares_after (shares_of ?x i a t) n) (add_total t n m) (contents s)"
    using c1 c2 c3 M sh(2) by (simp add: purchase_writes_def)
  then have "wf_contents (contents s3)" "abs_exchange (contents s3) = bought t i n p a ?x"
    using wf a M m b wf_contents_purchase abs_purchase_writes [OF a, of m "contents s" bal t n p] by simp_all
  moreover have "buy_fault t i n p ts a ?x = None"
    using guards m b bal(3) sh(1) by (auto simp: buy_fault_None)
  ultimately show ?thesis using c1 c2 c3 by simp
qed

lemma BuyYes_success:
  assumes "inv s" and "wf_contents (contents s)" and "wf_Address a" and "BuyYes_Execute mu b s ts a = (Inr out, s')"
  shows "inv s' \<and> allowed s' = allowed s \<and> wf_contents (contents s') \<and>
    exchange_step (abs_exchange (contents s)) (abs_exchange (contents s'))"
proof -
  from assms(4) obtain m bs bal s1 k s2 where r: "by_Amount b \<noteq> 0" "by_MaxPrice b \<noteq> 0"
      "GetMarket mu s (by_MarketID b) = Inr m" "tradable m ts"
      "GetValue mu s (BalanceKey a) = Inr bs" "database_ParseUInt64 bs = Inr bal"
      "\<not> bal < by_Amount b * by_MaxPrice b"
      "Insert mu s (BalanceKey a) (PutUint64 (bal - by_Amount b * by_MaxPrice b)) = (None, s1)"
      "GetShareBalance mu s1 (by_MarketID b) a YesShareType = Inr k \<or>
       k = 0 \<and> (\<exists>e. GetShareBalance mu s1 (by_MarketID b) a YesShareType = Inl e \<and> errors_Is e ErrNotFound)"
      "SetShareBalance mu s1 (by_MarketID b) a YesShareType (k + by_Amount b) = (None, s2)"
      "SetMarket mu s2 (add_total YesShareType (by_Amount b) m) = (None, s')"
    by (auto simp: BuyYes_Execute_def BuyYes_checkMarket_None Let_def database_PackUInt64_def add_total_sides
        split: if_splits sum.splits option.splits prod.splits)
  note c1 = insert_success [OF assms(1) r(8)]
  have "wf_contents (contents s1)" using c1 wf_contents_balance [OF assms(2,3)] by simp
  then have "GetShareBalance mu s1 (by_MarketID b) a YesShareType = Inr k"
    using r(9) GetShareBalance_not_NotFound [of s1 a] c1 assms(3) by blast
  from purchase_success [OF assms(1-3) r(1-8) this r(10,11)] assms(3) show ?thesis
    by (auto intro: exchange_step.buy)
qed

lemma BuyNo_success:
  assumes "inv s" and "wf_contents (contents s)" and "wf_Address a" and "BuyNo_Execute mu b s ts a = (Inr out, s')"
  shows "inv s' \<and> allowed s' = allowed s \<and> wf_contents (contents s') \<and>
    exchange_step (abs_exchange (contents s)) (abs_exchange (contents s'))"
proof -
  from assms(4) obtain m bs bal s1 k s2 where r: "bn_Amount b \<noteq> 0" "bn_MaxPrice b \<noteq> 0"
      "GetMarket mu s (bn_MarketID b) = Inr m" "tradable m ts"
      "GetValue mu s (BalanceKey a) = Inr bs" "database_ParseUInt64 bs = Inr bal"
      "\<not> bal < bn_Amount b * bn_MaxPrice b"
      "Insert mu s (BalanceKey a) (PutUint64 (bal - bn_Amount b * bn_MaxPrice b)) = (None, s1)"
      "GetShareBalance mu s1 (bn_MarketID b) a NoShareType = Inr k \<or>
       k = 0 \<and> (\<exists>e. GetShareBalance mu s1 (bn_MarketID b) a NoShareType = Inl e \<and> errors_Is e ErrNotFound)"
      "SetShareBalance mu s1 (bn_MarketID b) a NoShareType (k + bn_Amount b) = (None, s2)"
      "SetMarket mu s2 (add_total NoShareType (bn_Amount b) m) = (None, s')"
    by (auto simp: BuyNo_Execute_def BuyNo_checkMarket_None Let_def database_PackUInt64_def add_total_sides
        split: if_splits sum.splits option.splits prod.splits)
  note c1 = insert_success [OF assms(1) r(8)]
  have "wf_contents (contents s1)" using c1 wf_contents_balance [OF assms(2,3)] by simp
  then have "GetShareBalance mu s1 (bn_MarketID b) a NoShareType = Inr k"
    using r(9) GetShareBalance_not_NotFound [of s1 a] c1 assms(3) by blast
  from purchase_success [OF assms(1-3) r(1-8) this r(10,11)] assms(3) show ?thesis
    by (auto intro: exchange_step.buy)
qed

end

section \<open>Transactions move along the steps\<close>

definition moves :: "(bytes \<rightharpoonup> bytes) \<Rightarrow> (bytes \<rightharpoonup> bytes) \<Rightarrow> bool" where
  "moves c c' \<longleftrightarrow> (wf_contents c \<longrightarrow> wf_contents c' \<and> exchange_step\<^sup>*\<^sup>* (abs_exchange c) (abs_exchange c'))"

lemma moves_refl [simp]: "moves c c"
  by (simp add: moves_def)

lemma moves_trans: "moves c d \<Longrightarrow> moves d e \<Longrightarrow> moves c e"
  by (auto simp: moves_def)

definition no_create :: "Action list \<Rightarrow> bool" where
  "no_create as \<longleftrightarrow> (\<forall>a \<in> set as. case a of ActCreateMarket _ \<Rightarrow> False | _ \<Rightarrow> True)"

lemma run_actions_moves:
  assumes "run_actions sha256 rnd ts actor i as outs v = ((None, outs'), v')" and "wf_view v"
    and "wf_Address actor" and "no_create as"
  shows "wf_view v' \<and> moves (view_contents v) (view_contents v')"
  using assms
proof (induction sha256 rnd ts actor i as outs v rule: run_actions.induct)
  case (2 sha256 rnd ts actor i a as outs v)
  obtain out w where w: "Action_Execute sha256 (rnd i) TStateView_Mutable a v ts actor = (Inr out, w)"
    "run_actions sha256 rnd ts actor (Suc i) as (outs @ [out]) w = ((None, outs'), v')"
    using 2(2) by (auto split: sum.splits prod.splits)
  have "wf_view w"
    using tview_log.rel_Action_Execute [OF w(1)] 2(3) by (simp add: extends_def)
  moreover have "moves (view_contents v) (view_contents w)"
    unfolding moves_def
  proof
    assume c: "wf_contents (view_contents v)"
    have "wf_contents (view_contents w) \<and> exchange_step (abs_exchange (view_contents v)) (abs_exchange (view_contents w))"
    proof (cases a)
      case (ActCreateMarket cm)
      with 2(5) show ?thesis by (simp add: no_create_def)
    next
      case (ActBuyYes b)
      with w(1) tview.BuyYes_success [OF 2(3) c 2(4)] show ?thesis by simp
    next
      case (ActBuyNo b)
      with w(1) tview.BuyNo_success [OF 2(3) c 2(4)] show ?thesis by simp
    qed
    then show "wf_contents (view_contents w) \<and>
        exchange_step\<^sup>*\<^sup>* (abs_exchange (view_contents v)) (abs_exchange (view_contents w))"
      by blast
  qed
  moreover have "no_create as" using 2(5) by (simp add: no_create_def)
  ultimately show ?case using 2(1) [OF w(1) [symmetric] refl w(2)] 2(4) by (blast intro: moves_trans)
qed simp

lemma Deduct_moves:
  assumes "wf_view v" and "no_alloc v" and "wf_Address a" and "bh_Deduct view_handler a v fee = (None, v1)"
  shows "wf_view v1 \<and> moves (view_contents v) (view_contents v1)"
proof -
  obtain bal where bal: "GetBalance TStateView_Mutable v a = Inr bal" "fee \<le> bal" "wf_view v1"
    "view_contents v1 = (view_contents v)(BalanceKey a \<mapsto> PutUint64 (bal - fee))"
    using Deduct_view [OF assms(1,4)] by blast
  have "keeps_keys v v1" using assms(4) by (rule tview_keys.rel_Controller_Deduct)
  then have "view_contents v (BalanceKey a) \<noteq> None"
    using assms(1,2) bal(4) by (auto simp: keeps_keys_def)
  then have "balance_of (abs_exchange (view_contents v)) a = Some bal" if "wf_contents (view_contents v)"
    using bal(1) assms(1,3) abs_balanceD [OF that assms(3)]
    by (auto simp: tview.GetBalance_stored split: if_splits)
  with bal assms(3) show ?thesis
    by (auto simp: moves_def wf_contents_balance abs_balance_update intro: exchange_step.pay)
qed

lemma Transaction_moves:
  assumes "wf_view v" and "no_alloc v" and "wf_Address (Sponsor (tx_Auth t))" and "wf_Address (Actor (tx_Auth t))"
    and "no_create (tx_Actions t)" and "Transaction_Execute sha256 rnd fm view_handler r t v ts = (Inr res, v')"
  shows "moves (view_contents v) (view_contents v')"
  using assms(6)
proof (cases rule: Transaction_Execute_cases)
  case (failed units fee e outs v1 v2)
  with Deduct_moves [OF assms(1-3) failed(3)] show ?thesis by (simp add: Rollback_run)
next
  case (succeeded units fee outs v1)
  with Deduct_moves [OF assms(1-3) succeeded(3)] run_actions_moves [OF succeeded(4) _ assms(4,5)] show ?thesis
    by (blast intro: moves_trans)
qed simp

section \<open>Blocks move along the steps\<close>

text \<open>A database that has a value for a key or answers that there is none.\<close>

definition wf_parent :: "parent \<Rightarrow> bool" where
  "wf_parent im \<longleftrightarrow> (\<forall>k e. im k = Inl e \<longrightarrow> e = Sentinel ErrNotFound)"

definition parent_contents :: "parent \<Rightarrow> bytes \<Rightarrow> bytes option" where
  "parent_contents im k = (case im k of Inr v \<Rightarrow> Some v | Inl _ \<Rightarrow> None)"

text \<open>The state of a block in progress: the parent state under the changes so far.\<close>

definition block_state :: "parent \<Rightarrow> TState \<Rightarrow> bytes \<Rightarrow> bytes option" where
  "block_state im ts k = (case changedKeys ts k of Some m \<Rightarrow> m | None \<Rightarrow> parent_contents im k)"

lemma view_contents_NewView [simp]: "view_contents (NewView ts sc im) = block_state im ts"
  by (simp add: fun_eq_iff view_contents_def parent_value_def block_state_def parent_contents_def split: option.split)

lemma block_state_Commit:
  "framed (NewView ts sc st) v \<Longrightarrow>
   block_state im (Commit v) k = (case pendingChangedKeys v k of Some m \<Rightarrow> m | None \<Rightarrow> block_state im ts k)"
  by (simp add: Commit_patched patched_def block_state_def map_add_def split: option.split)

lemma view_contents_framed:
  assumes "framed (NewView ts sc im) w"
  shows "view_contents w k = (case pendingChangedKeys w k of Some m \<Rightarrow> m | None \<Rightarrow> block_state im ts k)"
proof -
  have "view_ts w = ts" "view_storage w = im" using assms by (simp_all add: framed_def)
  then show ?thesis
    by (simp add: view_contents_def parent_value_def block_state_def parent_contents_def split: option.split)
qed

lemma wf_view_parent: "wf_parent im \<Longrightarrow> wf_view (NewView ts sc im)"
  by (simp add: wf_view_def wf_parent_def)

lemma fetch_lookup:
  "fetch im ks = Inr st \<Longrightarrow> wf_parent im \<Longrightarrow> st k = (if k \<in> set ks then parent_contents im k else None)"
proof (induction ks arbitrary: st)
  case (Cons j ks)
  then show ?case
    by (cases "im j"; cases "fetch im ks")
       (auto simp: wf_parent_def parent_contents_def split: if_splits sum.splits)
qed simp

text \<open>A task as the queue makes it.\<close>

definition fetched :: "parent \<Rightarrow> task \<Rightarrow> bool" where
  "fetched im tk \<longleftrightarrow> Transaction_StateKeys view_handler (task_tx tk) = Inr (task_keys tk) \<and>
     fetch im (WithoutPermissions (task_keys tk)) = Inr (task_storage tk)"

lemma task_view_full:
  assumes "wf_parent im" and "fetched im tk"
  shows "twin_views (task_view tk ts) (NewView ts (ScopeKeys (task_keys tk)) im)"
proof -
  have "parent_value (task_view tk ts) k = parent_value (NewView ts (ScopeKeys (task_keys tk)) im) k"
    if "task_reads tk k" for k
  proof -
    have "k \<in> set (WithoutPermissions (task_keys tk))"
      using Keys_Has_declared [OF that] by (simp add: WithoutPermissions_def Perm_Has_consts)
    moreover have f: "fetch im (WithoutPermissions (task_keys tk)) = Inr (task_storage tk)" using assms(2) by (simp add: fetched_def)
    ultimately have "task_storage tk k = parent_contents im k" using fetch_lookup [OF f assms(1), of k] by simp
    then show ?thesis
      by (simp add: parent_value_def ImmutableStorage_GetValue_def parent_contents_def split: option.split sum.split)
  qed
  then show ?thesis
    using assms(1) by (simp add: twin_views_def wf_view_NewView wf_view_parent same_layer_def checkScope_def)
qed

lemma no_create_StateKeys:
  assumes "Transaction_StateKeys bh t = Inr ks"
  shows "no_create (tx_Actions t)"
proof -
  have "([MarketPrefix], PermWrite) \<in> set (tx_declared bh t)" "\<not> keys_Valid [MarketPrefix]"
    if "ActCreateMarket cm \<in> set (tx_Actions t)" for cm
    using that by (auto simp: tx_declared_def keys_Valid_def CreateMarket_StateKeys_def
        intro!: bexI [of _ "ActCreateMarket cm"])
  moreover have "\<forall>(k, v) \<in> set (tx_declared bh t). keys_Valid k"
    using Transaction_StateKeys_ok [of bh t] assms by blast
  ultimately show ?thesis by (fastforce simp: no_create_def split: Action.splits)
qed

definition wf_tx :: "Transaction \<Rightarrow> bool" where
  "wf_tx t \<longleftrightarrow> wf_Address (Sponsor (tx_Auth t)) \<and> wf_Address (Actor (tx_Auth t))"

lemma run_task_moves:
  assumes "wf_parent im" and "fetched im tk" and "wf_tx (task_tx tk)" and "run_task E fm tk ts = Inr (res, ts1)"
  shows "moves (block_state im ts) (block_state im ts1)"
proof -
  let ?w = "NewView ts (ScopeKeys (task_keys tk)) im"
  let ?exec = "\<lambda>w. Transaction_Execute (env_sha256 E) (env_rand E (task_index tk)) fm view_handler (env_rules E)
    (task_tx tk) w (env_time E)"
  obtain v where v: "?exec (task_view tk ts) = (Inr res, v)" "ts1 = Commit v"
    using assms(4) unfolding run_task_Inr by blast
  have "rel_prod (=) twin_views (?exec (task_view tk ts)) (?exec ?w)"
    by (rule Transaction_Execute_twins) (rule task_view_full [OF assms(1,2)])
  with v(1) obtain w where w: "?exec ?w = (Inr res, w)" "twin_views v w"
    by (auto elim!: rel_prod.cases)
  have "framed (task_view tk ts) v" "framed ?w w"
    using Transaction_Execute_keeps [OF wf_view_NewView v(1)]
      Transaction_Execute_keeps [OF wf_view_parent [OF assms(1)] w(1)] by blast+
  then have "block_state im ts1 = view_contents w"
    using w(2) by (simp add: fun_eq_iff v(2) block_state_Commit view_contents_framed twin_views_def same_layer_def)
  moreover have "no_alloc ?w"
    using assms(2) by (intro program_scope_no_alloc [of "task_tx tk" "task_keys tk"]) (simp_all add: fetched_def)
  moreover have "no_create (tx_Actions (task_tx tk))"
    using assms(2) no_create_StateKeys by (auto simp: fetched_def)
  ultimately show ?thesis
    using Transaction_moves [OF wf_view_parent [OF assms(1)] _ _ _ _ w(1)] assms(3) by (simp add: wf_tx_def)
qed

lemma run_tasks_moves:
  assumes "wf_parent im" and "\<And>tk. tk \<in> set tks \<Longrightarrow> fetched im tk \<and> wf_tx (task_tx tk)"
    and "run_tasks E fm tks ts = Inr (rs, ts')"
  shows "moves (block_state im ts) (block_state im ts')"
  using assms(2,3)
proof (induction tks arbitrary: ts rs)
  case (Cons tk tks)
  then obtain res ts1 rs1 where r: "run_task E fm tk ts = Inr (res, ts1)" "run_tasks E fm tks ts1 = Inr (rs1, ts')"
    by (auto split: sum.splits prod.splits)
  have "moves (block_state im ts1) (block_state im ts')" using Cons.IH [OF _ r(2)] Cons.prems(1) by simp
  with run_task_moves [OF assms(1) _ _ r(1)] Cons.prems(1) [of tk] show ?case by (simp add: moves_trans)
qed simp

lemma executeTxs_moves:
  assumes "wf_parent im" and "\<And>t. t \<in> set txs \<Longrightarrow> wf_tx t" and "executeTxs id E im txs fm0 = Inr (results, fm, ts)"
  shows "moves (parent_contents im) (block_state im ts)"
proof -
  obtain tasks rs where q: "queue_txs im view_handler (env_rules E) 0 txs fm0 = Inr (tasks, fm)"
      "run_tasks E fm tasks TState_New = Inr (rs, ts)"
    using assms(3) unfolding executeTxs_Inr by auto
  have "fetched im tk \<and> wf_tx (task_tx tk)" if "tk \<in> set tasks" for tk
    using that queue_txs_nth [OF q(1)] nth_mem [of _ txs] assms(2) by (auto simp: fetched_def in_set_conv_nth [of tk])
  from run_tasks_moves [OF assms(1) this q(2)] show ?thesis
    by (simp add: block_state_def [abs_def] TState_New_def)
qed

section \<open>Accepted blocks\<close>

text \<open>A view of the database over changes: a changed key has its new value or is gone.\<close>

definition overlay :: "parent \<Rightarrow> changes \<Rightarrow> parent" where
  "overlay im ch k = (case ch k of Some m \<Rightarrow> found m | None \<Rightarrow> im k)"

lemma wf_overlay: "wf_parent im \<Longrightarrow> wf_parent (overlay im ch)"
  by (auto simp: wf_parent_def overlay_def found_def split: option.splits)

lemma parent_contents_overlay: "parent_contents (overlay im (changedKeys ts)) = block_state im ts"
  by (simp add: fun_eq_iff parent_contents_def overlay_def block_state_def found_def split: option.split)

lemmas metadata_defs = HeightKey_def TimestampKey_def FeeKey_def HeightPrefix_def TimestampPrefix_def
  FeePrefix_def EncodeChunks_def PutUint16_def

lemma metadata_keys [simp]:
  "HeightKey HeightPrefix = [0, 0, 1]" "TimestampKey TimestampPrefix = [1, 0, 1]" "FeeKey FeePrefix = [2, 0, 8]"
  by (simp_all add: metadata_defs)

text \<open>The metadata keys are none of the program's keys.\<close>

lemma short_keys:
  assumes "length k = 3"
  shows "wf_Address a \<Longrightarrow> k \<noteq> BalanceKey a" "k \<noteq> MarketKey i" "wf_Address a \<Longrightarrow> k \<noteq> ShareBalanceKey i a t"
  using assms by (auto simp: keys_simps wf_Address_def AddressLen_def)

lemma abs_metadata:
  assumes "length k = 3"
  shows "abs_exchange (c(k \<mapsto> v)) = abs_exchange c" "wf_contents (c(k \<mapsto> v)) = wf_contents c"
proof -
  have u: "\<And>a. wf_Address a \<Longrightarrow> (c(k \<mapsto> v)) (BalanceKey a) = c (BalanceKey a)"
      "\<And>i. (c(k \<mapsto> v)) (MarketKey i) = c (MarketKey i)"
      "\<And>i a t. wf_Address a \<Longrightarrow> (c(k \<mapsto> v)) (ShareBalanceKey i a t) = c (ShareBalanceKey i a t)"
    using short_keys [OF assms] by (metis fun_upd_other)+
  show "abs_exchange (c(k \<mapsto> v)) = abs_exchange c" by (simp add: abs_exchange_def fun_eq_iff u del: fun_upd_apply)
  show "wf_contents (c(k \<mapsto> v)) = wf_contents c" 
    unfolding wf_contents_def by (simp add: u del: fun_upd_apply cong: conj_cong)
qed

lemma moves_metadata: "length k = 3 \<Longrightarrow> moves c (c(k \<mapsto> v))"
  by (simp add: moves_def abs_metadata)

context scoped_store
begin

lemma writeBlockContext_success:
  assumes "inv s" and "writeBlockContext mu s ctx = (None, s')"
  shows "inv s' \<and> contents s' = (contents s)([0, 0, 1] \<mapsto> PutUint64 (ctx_height ctx),
    [1, 0, 1] \<mapsto> PutUint64 (ctx_timestamp ctx), [2, 0, 8] \<mapsto> fm_raw (ctx_feeManager ctx))"
proof -
  obtain s1 s2 where s: "Insert mu s [0, 0, 1] (PutUint64 (ctx_height ctx)) = (None, s1)"
      "Insert mu s1 [1, 0, 1] (PutUint64 (ctx_timestamp ctx)) = (None, s2)"
      "Insert mu s2 [2, 0, 8] (fm_raw (ctx_feeManager ctx)) = (None, s')"
    using assms(2) by (auto simp: writeBlockContext_def split: prod.splits option.splits)
  note s1 = insert_success [OF assms(1) s(1)]
  note s2 = insert_success [OF s1 [THEN conjunct1] s(2)]
  note s3 = insert_success [OF s2 [THEN conjunct1] s(3)]
  from s1 s2 s3 show ?thesis by simp
qed

end

lemma Insert_pending:
  assumes "TStateView_Insert v k x = (None, w)"
  shows "j \<noteq> k \<Longrightarrow> pendingChangedKeys w j = pendingChangedKeys v j" "view_ts w = view_ts v"
    "view_storage w = view_storage v" "view_scope w = view_scope v"
  using assms by (auto simp: TStateView_Insert_def Let_def split: if_splits sum.splits)

lemma block_context_written:
  assumes "writeBlockContext TStateView_Mutable (NewView ts FullAccess (ImmutableStorage_GetValue Map.empty)) ctx = (None, v)"
  shows "block_state im (Commit v) = (block_state im ts)([0, 0, 1] \<mapsto> PutUint64 (ctx_height ctx),
    [1, 0, 1] \<mapsto> PutUint64 (ctx_timestamp ctx), [2, 0, 8] \<mapsto> fm_raw (ctx_feeManager ctx))" (is "_ = ?new (block_state im ts)")
proof -
  let ?v0 = "NewView ts FullAccess (ImmutableStorage_GetValue Map.empty)"
  obtain v1 v2 where s: "TStateView_Insert ?v0 [0, 0, 1] (PutUint64 (ctx_height ctx)) = (None, v1)"
      "TStateView_Insert v1 [1, 0, 1] (PutUint64 (ctx_timestamp ctx)) = (None, v2)"
      "TStateView_Insert v2 [2, 0, 8] (fm_raw (ctx_feeManager ctx)) = (None, v)"
    using assms by (auto simp: writeBlockContext_def TStateView_Mutable_def split: prod.splits option.splits)
  have other: "pendingChangedKeys v k = None" if "k \<notin> {[0, 0, 1], [1, 0, 1], [2, 0, 8]}" for k
    using that Insert_pending(1) [OF s(1), of k] Insert_pending(1) [OF s(2), of k] Insert_pending(1) [OF s(3), of k]
    by simp
  have f: "framed ?v0 v" using Insert_pending(2-4) [OF s(1)] Insert_pending(2-4) [OF s(2)] Insert_pending(2-4) [OF s(3)]
    by (simp add: framed_def checkScope_def)
  have c: "view_contents v = ?new (block_state (ImmutableStorage_GetValue Map.empty) ts)"
    using tview.writeBlockContext_success [OF wf_view_NewView assms] unfolding view_contents_NewView by (rule conjunct2)
  have new: "block_state im (Commit v) k = Some x" if "view_contents v k = Some x" for k x
    using that unfolding block_state_Commit [OF f] view_contents_framed [OF f]
    by (auto simp: block_state_def parent_contents_def ImmutableStorage_GetValue_def split: option.splits)
  show ?thesis
  proof
    fix k
    show "block_state im (Commit v) k = ?new (block_state im ts) k"
    proof (cases "k \<in> {[0, 0, 1], [1, 0, 1], [2, 0, 8]}")
      case True
      then show ?thesis using new [of k] c by auto
    next
      case False
      with other [OF False] show ?thesis by (simp add: block_state_Commit [OF f])
    qed
  qed
qed

text \<open>
  What a block relies on: the new view of the database has the changes, and the tasks run as the
  executor runs them.
\<close>

definition good_services :: "services \<Rightarrow> bool" where
  "good_services S \<longleftrightarrow> (\<forall>im ch. svc_NewView S im ch = Inr (overlay im ch)) \<and> from_executor (svc_schedule S)"

lemma executeTxs_schedule:
  assumes "good_services S" and "executeTxs (svc_schedule S) E im txs fm0 = Inr (results, fm, ts)"
    and "int (length txs) \<le> MaxKeyDependencies"
  shows "executeTxs id E im txs fm0 = Inr (results, fm, ts)"
proof -
  obtain tasks rs where q: "queue_txs im view_handler (env_rules E) 0 txs fm0 = Inr (tasks, fm)"
      "run_tasks E fm (svc_schedule S tasks) TState_New = Inr (rs, ts)" "results = map rs [0..<length txs]"
    using assms(2) unfolding executeTxs_Inr by blast
  have "run_tasks E fm tasks TState_New = Inr (rs, ts)"
    using q(2) run_tasks_schedule [OF q(1) _ assms(3), of "svc_schedule S"] assms(1) by (simp add: good_services_def)
  with q show ?thesis unfolding executeTxs_Inr by auto
qed

lemma accepted_block:
  assumes "Processor_Execute S sha256 rand getRules im b isNormalOp = Some (Inr out)" and "good_services S"
  obtains E ctx fm ts and ts' :: TState where "env_rules E = getRules (blk_Tmstmp b)"
    "createBlockContext im b (getRules (blk_Tmstmp b)) = Some (Inr ctx)"
    "executeTxs (svc_schedule S) E im (blk_Txs b) (ctx_feeManager ctx) = Inr (out_Results out, fm, ts)"
    "parent_contents (out_View out) = (block_state im ts)([0, 0, 1] \<mapsto> PutUint64 (ctx_height ctx),
       [1, 0, 1] \<mapsto> PutUint64 (ctx_timestamp ctx), [2, 0, 8] \<mapsto> fm_raw fm)"
    "out_View out = overlay im (changedKeys ts')"
proof -
  let ?r = "getRules (blk_Tmstmp b)"
  let ?E = "\<lparr>env_sha256 = sha256, env_rand = rand, env_rules = ?r, env_time = blk_Tmstmp b\<rparr>"
  obtain ctx results fm ts where
    ctx: "createBlockContext im b ?r = Some (Inr ctx)" and
    ex: "executeTxs (svc_schedule S) ?E im (blk_Txs b) (ctx_feeManager ctx) = Inr (results, fm, ts)" and
    fin: "finish_block S im b (ctx\<lparr>ctx_feeManager := fm\<rparr>) results ts = Inr out"
    using assms(1)
    by (auto simp: Processor_Execute_def Let_def split: if_splits option.splits sum.splits prod.splits)
  obtain v where v: "writeBlockContext TStateView_Mutable
      (NewView ts FullAccess (ImmutableStorage_GetValue Map.empty)) (ctx\<lparr>ctx_feeManager := fm\<rparr>) = (None, v)"
    and out: "out_View out = overlay im (changedKeys (Commit v))" "out_Results out = results"
    using fin assms(2)
    by (auto simp: finish_block_def Let_def good_services_def split: prod.splits option.splits)
  have "parent_contents (out_View out) = (block_state im ts)([0, 0, 1] \<mapsto> PutUint64 (ctx_height ctx),
       [1, 0, 1] \<mapsto> PutUint64 (ctx_timestamp ctx), [2, 0, 8] \<mapsto> fm_raw fm)"
    using block_context_written [OF v, of im] by (simp add: out(1) parent_contents_overlay)
  then show thesis
    using ex out by (intro that [of ?E ctx fm ts "Commit v"] ctx) simp_all
qed

lemma accepted_moves:
  assumes "Processor_Execute S sha256 rand getRules im b isNormalOp = Some (Inr out)" and "good_services S"
    and "wf_parent im" and "\<forall>t \<in> set (blk_Txs b). wf_tx t" and "int (length (blk_Txs b)) \<le> MaxKeyDependencies"
  shows "wf_parent (out_View out) \<and> moves (parent_contents im) (parent_contents (out_View out))"
proof -
  obtain E ts and ts' :: TState and ctx :: blockContext and fm :: Manager
    where e: "executeTxs (svc_schedule S) E im (blk_Txs b) (ctx_feeManager ctx) = Inr (out_Results out, fm, ts)"
    and c: "parent_contents (out_View out) = (block_state im ts)([0, 0, 1] \<mapsto> PutUint64 (ctx_height ctx),
       [1, 0, 1] \<mapsto> PutUint64 (ctx_timestamp ctx), [2, 0, 8] \<mapsto> fm_raw fm)"
    and o: "out_View out = overlay im (changedKeys ts')"
    by (rule accepted_block [OF assms(1,2)], rule that)
  have "moves (parent_contents im) (block_state im ts)"
    using executeTxs_moves [OF assms(3) _ executeTxs_schedule [OF assms(2) e assms(5)]] assms(4) by blast
  moreover have "moves (block_state im ts) (parent_contents (out_View out))"
    unfolding c by (intro moves_trans [OF _ moves_metadata] moves_metadata) simp_all
  ultimately show ?thesis using assms(3) by (auto simp: o intro: moves_trans wf_overlay)
qed

text \<open>
  A node that accepts blocks one after the other. The executor bounds the transactions of a block: its
  counters leave room for one hundred million dependencies.
\<close>

inductive accepts :: "(i64 \<Rightarrow> Rules) \<Rightarrow> parent \<Rightarrow> parent \<Rightarrow> bool" for getRules where
  "Processor_Execute S sha256 rand getRules im b isNormalOp = Some (Inr out) \<Longrightarrow> good_services S \<Longrightarrow>
   (\<forall>t \<in> set (blk_Txs b). wf_tx t) \<Longrightarrow> int (length (blk_Txs b)) \<le> MaxKeyDependencies \<Longrightarrow> accepts getRules im (out_View out)"

inductive_simps accepts_iff: "accepts getRules im im'"

lemma chain_moves:
  "(accepts getRules)\<^sup>*\<^sup>* im im' \<Longrightarrow> wf_parent im \<Longrightarrow>
   wf_parent im' \<and> moves (parent_contents im) (parent_contents im')"
proof (induction rule: rtranclp_induct)
  case (step im1 im2)
  then obtain S sha256 rand b isNormalOp out where "Processor_Execute S sha256 rand getRules im1 b isNormalOp = Some (Inr out)"
      "good_services S" "im2 = out_View out" "\<forall>t \<in> set (blk_Txs b). wf_tx t"
      "int (length (blk_Txs b)) \<le> MaxKeyDependencies"
    unfolding accepts_iff by blast
  with accepted_moves step show ?case by (blast intro: moves_trans)
qed simp

end
