(* ===== verification/Chain.thy ===== *)
theory Chain
  imports Ledger
begin

text \<open>
  The properties of blocks and of chains of blocks, with the lemmas that show something happens: a
  purchase that goes through, and the next empty block that is always accepted. A sample block with
  one purchase is executed from the state of the database to the new view; it is the instance on
  which the properties are evaluated.
\<close>

section \<open>A purchase that goes through\<close>

text \<open>What a purchase orders: the kind of share, the market, the number of shares and the price of one.\<close>

fun order_of :: "Action \<Rightarrow> (u8 \<times> u64 \<times> u64 \<times> u64) option" where
  "order_of (ActBuyYes b) = Some (YesShareType, by_MarketID b, by_Amount b, by_MaxPrice b)"
| "order_of (ActBuyNo b) = Some (NoShareType, bn_MarketID b, bn_Amount b, bn_MaxPrice b)"
| "order_of (ActCreateMarket _) = None"

text \<open>The exchange after an account has paid.\<close>

definition charged :: "Address \<Rightarrow> u64 \<Rightarrow> exchange \<Rightarrow> exchange" where
  "charged p rest X = X\<lparr>balance_of := (balance_of X)(p \<mapsto> rest)\<rparr>"

lemma purchase_permitted_paid:
  assumes "wf_Address p" and "purchase_permitted t i n a c allow room"
  shows "purchase_permitted t i n a (c(BalanceKey p \<mapsto> PutUint64 b)) allow room"
  using assms writable_same by (simp add: purchase_permitted_def abs_balance_update)

lemma ordered_runs:
  assumes v: "wf_view v" "wf_contents (view_contents v)" and a: "wf_Address a"
    and act: "order_of act = Some (k, i, n, price)"
    and perm: "purchase_permitted k i n a (view_contents v) (checkScope v) VerifyValue"
    and ok: "buy_fault k i n price ts a (abs_exchange (view_contents v)) = None"
  obtains v' where "Action_Execute sha256 rnd TStateView_Mutable act v ts a = (Inr [], v')"
    "abs_exchange (view_contents v') = bought k i n price a (abs_exchange (view_contents v))"
proof (cases act)
  case (ActBuyYes b)
  then show thesis
    using that tview.BuyYes_Execute_refines [OF v a, of b ts] act perm ok by (auto simp: purchase_refined_def)
next
  case (ActBuyNo b)
  then show thesis
    using that tview.BuyNo_Execute_refines [OF v a, of b ts] act perm ok by (auto simp: purchase_refined_def)
qed (use act in simp)

lemma Transaction_buys:
  assumes v: "wf_view v" "wf_contents (view_contents v)" and a: "wf_Address a" and p: "wf_Address p"
    and t: "tx_Actions t = [act]" "order_of act = Some (k, i, n, price)" "Actor (tx_Auth t) = a" "Sponsor (tx_Auth t) = p"
    and fee: "Transaction_Units view_handler r t = Inr units" "Fee fm units = Inr fee"
    and bal: "balance_of (abs_exchange (view_contents v)) p = Some bal" "bal \<noteq> 0" "fee \<le> bal"
    and w: "writable (view_contents v) (checkScope v) (BalanceKey p)"
    and perm: "purchase_permitted k i n a (view_contents v) (checkScope v) VerifyValue"
    and paid: "paid = charged p (bal - fee) (abs_exchange (view_contents v))"
    and ok: "buy_fault k i n price ts a paid = None"
  shows "\<exists>v'. Transaction_Execute sha256 rnd fm view_handler r t v ts =
      (Inr \<lparr>Success = True, result_Error = None, Outputs = [[]], result_Units = units, result_Fee = fee\<rparr>, v') \<and>
    abs_exchange (view_contents v') = bought k i n price a paid"
proof -
  have "view_contents v (BalanceKey p) = Some (PutUint64 bal)" using abs_balanceD [OF v(2) p] bal(1) by simp
  then have g: "GetBalance TStateView_Mutable v p = Inr bal"
    using bal(2) tview.writable_reads [OF w] by (simp add: tview.GetBalance_stored [OF v(1)])
  have "insertable (view_contents v) (checkScope v) VerifyValue (BalanceKey p) (PutUint64 (bal - fee))"
    using w p by (simp add: insertable_writable VerifyValue_BalanceKey)
  from tview.DeductBalance_ok [OF v(1) g bal(3) this] obtain v1 where
    v1: "bh_Deduct view_handler p v fee = (None, v1)" "wf_view v1"
      "view_contents v1 = (view_contents v)(BalanceKey p \<mapsto> PutUint64 (bal - fee))" "checkScope v1 = checkScope v"
    by (auto simp: Controller_New_def Controller_Deduct_def)
  have x: "abs_exchange (view_contents v1) = paid" using p by (simp add: v1(3) paid charged_def abs_balance_update)
  have "wf_contents (view_contents v1)" using v(2) p by (simp add: v1(3) wf_contents_balance)
  moreover have "purchase_permitted k i n a (view_contents v1) (checkScope v1) VerifyValue"
    using purchase_permitted_paid [OF p perm] by (simp add: v1(3,4))
  ultimately obtain v2 where "Action_Execute sha256 (rnd 0) TStateView_Mutable act v1 ts a = (Inr [], v2)"
      "abs_exchange (view_contents v2) = bought k i n price a paid"
    using ordered_runs [OF v1(2) _ a t(2), where ?sha256.0 = sha256 and rnd = "rnd 0" and ts = ts] ok by (auto simp: x)
  with v1(1) fee t show ?thesis by (simp add: Transaction_Execute_def Let_def)
qed

section \<open>The next empty block\<close>

lemma context_room:
  assumes "wf_Manager (ctx_feeManager ctx)" and "wf_view s" and "checkScope s = (\<lambda>_ _. True)"
  shows "\<exists>v. writeBlockContext TStateView_Mutable s ctx = (None, v)"
proof -
  have room: "VerifyValue [0, 0, 1] (PutUint64 n)" "VerifyValue [1, 0, 1] (PutUint64 n)" for n
    by (simp_all add: VerifyValue_def MaxChunks_def)
  have "length (fm_raw (ctx_feeManager ctx)) = 488" using assms(1) by (simp add: manager_defs)
  then have raw: "VerifyValue [2, 0, 8] (fm_raw (ctx_feeManager ctx))"
    by (subst VerifyValue_iff) auto
  have ins: "\<exists>w. Insert TStateView_Mutable v k x = (None, w) \<and> wf_view w \<and> checkScope w = (\<lambda>_ _. True)"
    if "VerifyValue k x" "wf_view v" "checkScope v = (\<lambda>_ _. True)" for v k x
    using tview.insert_ok [of v k x] that by (auto simp: insertable_def)
  obtain s1 where s1: "Insert TStateView_Mutable s [0, 0, 1] (PutUint64 (ctx_height ctx)) = (None, s1)" "wf_view s1"
    "checkScope s1 = (\<lambda>_ _. True)" using ins [OF room(1) assms(2,3)] by blast
  obtain s2 where s2: "Insert TStateView_Mutable s1 [1, 0, 1] (PutUint64 (ctx_timestamp ctx)) = (None, s2)" "wf_view s2"
    "checkScope s2 = (\<lambda>_ _. True)" using ins [OF room(2) s1(2,3)] by blast
  show ?thesis using ins [OF raw s2(2,3)] s1(1) s2(1) by (auto simp: writeBlockContext_def)
qed

lemma context_written:
  assumes "wf_Manager (ctx_feeManager ctx)"
  obtains v where "writeBlockContext TStateView_Mutable (NewView ts FullAccess (ImmutableStorage_GetValue Map.empty)) ctx = (None, v)"
proof -
  have "checkScope (NewView ts FullAccess (ImmutableStorage_GetValue Map.empty)) = (\<lambda>_ _. True)"
    by (simp add: fun_eq_iff checkScope_def)
  from context_room [OF assms wf_view_NewView this] that show thesis by blast
qed

text \<open>A node that can build on its state: nothing fails, and the state root is the one of the block.\<close>

definition ready :: "services \<Rightarrow> bytes \<Rightarrow> bool" where
  "ready S root \<longleftrightarrow> svc_sigJob S = None \<and> svc_sigWait S = None \<and> svc_replay S = None \<and> svc_root S = Inr root"

lemma empty_block_runs:
  assumes "im [0, 0, 1] = Inr (PutUint64 h)" "im [1, 0, 1] = Inr (PutUint64 t0)" "im [2, 0, 8] = Inr raw" "length raw = 488"
    and "\<And>i. i < FeeDimensions \<Longrightarrow> GetWindowTargetUnits (getRules t) ! i \<noteq> 0 \<and> GetUnitPriceChangeDenominator (getRules t) ! i \<noteq> 0"
    and "i64_le (t0 + GetMinBlockGap (getRules t)) t" "i64_le (t0 + GetMinEmptyBlockGap (getRules t)) t"
    and "good_services S" "ready S root" "i64_le t (svc_now S + 1000)"
  shows "\<exists>out. Processor_Execute S sha256 rnd getRules im
    \<lparr>blk_Tmstmp = t, blk_Hght = h + 1, blk_Txs = [], blk_StateRoot = root\<rparr> isNormalOp = Some (Inr out)"
proof -
  let ?r = "fee_Rules.truncate (getRules t)"
  have "GetWindowTargetUnits ?r = GetWindowTargetUnits (getRules t)"
      "GetUnitPriceChangeDenominator ?r = GetUnitPriceChangeDenominator (getRules t)"
    by (simp_all add: fee_Rules.defs)
  then obtain fm where fm: "ComputeNext (NewManager raw) t ?r = Some fm" "wf_Manager fm"
    using ComputeNext_bounds [of "NewManager raw" ?r t] assms(4,5) by (auto simp: NewManager_def manager_defs)
  let ?ctx = "\<lparr>ctx_height = h + 1, ctx_timestamp = t, ctx_feeManager = fm\<rparr>"
  obtain v where "writeBlockContext TStateView_Mutable (NewView TState_New FullAccess (ImmutableStorage_GetValue Map.empty)) ?ctx = (None, v)"
    using context_written [of ?ctx] fm(2) by auto
  moreover have "svc_schedule S [] = []"
  proof -
    have f: "fair_calls MaxKeyDependencies (map task_keys ([] :: task list))" by (simp add: fair_calls_def MaxKeyDependencies_def)
    then obtain log where "executor_log MaxKeyDependencies (map task_keys ([] :: task list)) log" "svc_schedule S [] = map ((!) []) log"
      using assms(8) unfolding good_services_def from_executor_def by blast
    with executor_log_order(2) [OF _ f] show ?thesis by simp
  qed
  ultimately show ?thesis
    using fm(1) assms(1-3,6-10)
    by (simp add: Processor_Execute_def createBlockContext_def executeTxs_def finish_block_def verifyParentRoot_def
        ready_def good_services_def i64_less_not_le)
qed

lemma accepted_metadata:
  assumes "Processor_Execute S sha256 rand getRules im b isNormalOp = Some (Inr out)" and "good_services S"
  obtains raw where "out_View out [0, 0, 1] = Inr (PutUint64 (blk_Hght b))"
    "out_View out [1, 0, 1] = Inr (PutUint64 (blk_Tmstmp b))" "out_View out [2, 0, 8] = Inr raw" "length raw = 488"
proof -
  obtain E ctx ts fm where ctx: "createBlockContext im b (getRules (blk_Tmstmp b)) = Some (Inr ctx)"
    and ex: "executeTxs (svc_schedule S) E im (blk_Txs b) (ctx_feeManager ctx) = Inr (out_Results out, fm, ts)"
    and o: "parent_contents (out_View out) = (block_state im ts)([0, 0, 1] \<mapsto> PutUint64 (ctx_height ctx),
       [1, 0, 1] \<mapsto> PutUint64 (ctx_timestamp ctx), [2, 0, 8] \<mapsto> fm_raw fm)"
    by (rule accepted_block [OF assms], rule that)
  have c: "parent_contents (out_View out) [0, 0, 1] = Some (PutUint64 (ctx_height ctx))"
      "parent_contents (out_View out) [1, 0, 1] = Some (PutUint64 (ctx_timestamp ctx))"
      "parent_contents (out_View out) [2, 0, 8] = Some (fm_raw fm)"
    unfolding o by simp_all
  have "ctx_height ctx = blk_Hght b" "ctx_timestamp ctx = blk_Tmstmp b"
    using ctx by (auto simp: createBlockContext_def split: sum.splits if_splits option.splits)
  moreover have "wf_Manager (ctx_feeManager ctx)"
    using ctx by (auto simp: createBlockContext_def wf_ComputeNext split: sum.splits if_splits)
  then have "wf_Manager fm" using ex queue_txs_units unfolding executeTxs_Inr by blast
  then have "length (fm_raw fm) = 488" by (simp add: manager_defs)
  ultimately show thesis
    using c by (intro that [of "fm_raw fm"]) (auto simp: parent_contents_def split: sum.splits)
qed

section \<open>A sample block\<close>

text \<open>
  One account that holds five YES shares of an open market, a block with one purchase of it, rules
  without minimum prices, and a node with nothing to object.
\<close>

lemma buy_yes_keys:
  assumes "wf_Address a" and "tx_Actions t = [ActBuyYes b]" and "Actor (tx_Auth t) = a" and "Sponsor (tx_Auth t) = a"
  shows "Transaction_StateKeys view_handler t =
    Inr [(BalanceKey a, PermRead OR PermWrite), (MarketKey (by_MarketID b), PermRead OR PermWrite),
      (ShareBalanceKey (by_MarketID b) a YesShareType, PermRead OR PermWrite), (StateKeysBalance a, PermRead)]"
proof -
  note d = keys_distinct [OF assms(1,1)] keys_distinct(9,10) [OF assms(1,1), THEN not_sym]
  have "keys_Valid (StateKeysBalance a)" using assms(1) by (simp add: keys_simps keys_Valid_def wf_Address_def AddressLen_def)
  with assms d show ?thesis
    by (simp add: Transaction_StateKeys_def BuyYes_StateKeys_def Keys_Add_def keys_Valid_Market keys_Valid_Share
        keys_Valid_BalanceKey Controller_New_def SponsorStateKeys_def Keys_lookup_def PermNone_def)
qed

definition chain_rules :: Rules where
  "chain_rules = NewDefaultRules\<lparr>GetMaxBlockUnits := [10000, 10000, 10000, 10000, 10000], GetMinBlockGap := 10,
     GetMinUnitPrice := [0, 0, 0, 0, 0]\<rparr>"

definition chain_market :: Market where
  "chain_market = sample_market\<lparr>TotalYesShares := 5\<rparr>"

definition chain_accounts :: "bytes \<rightharpoonup> bytes" where
  "chain_accounts = [BalanceKey sample_address \<mapsto> PutUint64 1000, MarketKey 7 \<mapsto> enc_market chain_market,
     ShareBalanceKey 7 sample_address YesShareType \<mapsto> PutUint64 5]"

definition chain_parent :: parent where
  "chain_parent = ImmutableStorage_GetValue (chain_accounts([0, 0, 1] \<mapsto> PutUint64 3, [1, 0, 1] \<mapsto> PutUint64 0,
     [2, 0, 8] \<mapsto> replicate 488 0))"

definition chain_block :: ExecutionBlock where
  "chain_block = \<lparr>blk_Tmstmp = 50, blk_Hght = 4, blk_Txs = [sample_tx], blk_StateRoot = []\<rparr>"

definition chain_services :: services where
  "chain_services = \<lparr>svc_now = 50, svc_sigJob = None, svc_sigWait = None, svc_replay = None, svc_root = Inr [],
     svc_NewView = (\<lambda>im ch. Inr (overlay im ch)), svc_schedule = id\<rparr>"

lemma good_chain_services [simp]: "good_services chain_services"
  by (simp add: good_services_def chain_services_def from_executor_id)

lemma chain_market_simps [simp]:
  "wf_Market chain_market" "market_size chain_market \<le> MaxMarketDataSize" "market_ID chain_market = 7"
  "tradable chain_market 50" "TotalYesShares chain_market = 5" "TotalNoShares chain_market = 0"
  using wf_sample_market tradable_sample
  by (simp_all add: chain_market_def wf_Market_def market_size_def tradable_def) (simp add: sample_market_def)

lemma chain_accounts_wf [simp]: "wf_contents chain_accounts"
  using wf_contents_shares [OF wf_contents_market [OF wf_contents_balance [OF wf_contents_empty wf_sample_address]
      chain_market_simps(1,2)] wf_sample_address]
  by (simp add: chain_accounts_def)

lemma chain_accounts_abs [simp]:
  "balance_of (abs_exchange chain_accounts) = [sample_address \<mapsto> 1000]"
  "market_of (abs_exchange chain_accounts) = [7 \<mapsto> chain_market]"
  "shares_of (abs_exchange chain_accounts) i a t = (if i = 7 \<and> a = sample_address \<and> t = YesShareType then Some 5 else None)"
proof -
  have e: "balance_of (abs_exchange Map.empty) = Map.empty" "market_of (abs_exchange Map.empty) = Map.empty"
    "shares_of (abs_exchange Map.empty) i a t = None" for i a t
    by (auto simp: abs_exchange_def fun_eq_iff)
  show "balance_of (abs_exchange chain_accounts) = [sample_address \<mapsto> 1000]"
    "market_of (abs_exchange chain_accounts) = [7 \<mapsto> chain_market]"
    "shares_of (abs_exchange chain_accounts) i a t = (if i = 7 \<and> a = sample_address \<and> t = YesShareType then Some 5 else None)"
    unfolding chain_accounts_def abs_shares_update [OF wf_sample_address]
      abs_market_update [OF chain_market_simps(1), unfolded chain_market_simps(3)] abs_balance_update [OF wf_sample_address]
    by (simp_all add: e)
qed

lemma chain_parent_simps [simp]:
  "wf_parent chain_parent" "wf_contents (parent_contents chain_parent)"
  "abs_exchange (parent_contents chain_parent) = abs_exchange chain_accounts"
proof -
  have "parent_contents chain_parent = chain_accounts([0, 0, 1] \<mapsto> PutUint64 3, [1, 0, 1] \<mapsto> PutUint64 0,
     [2, 0, 8] \<mapsto> replicate 488 0)"
    by (auto simp: fun_eq_iff parent_contents_def chain_parent_def ImmutableStorage_GetValue_def split: option.split)
  then show "wf_contents (parent_contents chain_parent)"
    "abs_exchange (parent_contents chain_parent) = abs_exchange chain_accounts"
    by (simp_all add: abs_metadata del: fun_upd_apply)
  show "wf_parent chain_parent"
    by (auto simp: wf_parent_def chain_parent_def ImmutableStorage_GetValue_def split: option.splits)
qed

lemma sample_keys:
  "Transaction_StateKeys view_handler sample_tx =
    Inr [(BalanceKey sample_address, PermRead OR PermWrite), (MarketKey 7, PermRead OR PermWrite),
      (ShareBalanceKey 7 sample_address YesShareType, PermRead OR PermWrite), (StateKeysBalance sample_address, PermRead)]"
  using buy_yes_keys [of sample_address sample_tx sample_buy]
  by (simp add: sample_tx_def sample_auth_def) (simp add: sample_buy_def)

lemma chain_suffixes:
  "suffix_chunks (MarketKey 7) = 7" "suffix_chunks (ShareBalanceKey 7 sample_address YesShareType) = 256"
  "suffix_chunks (StateKeysBalance sample_address) = 257" "suffix_chunks (BalanceKey sample_address) = 1"
proof -
  have "PutUint64 7 = [0, 0, 0, 0, 0, 0, 0, 7]" by (simp add: PutUint64_def)
  then show "suffix_chunks (MarketKey 7) = 7" by (simp add: MarketKey_eq suffix_chunks_def)
qed ((simp add: ShareBalanceKey_eq StateKeysBalance_eq BalanceKey_eq,
      simp add: sample_address_def suffix_chunks_def YesShareType_def numeral_eq_Suc)+)

lemma sample_units: "Transaction_Units view_handler chain_rules sample_tx = Inr [150, 6, 1062, 2685, 1603]"
  unfolding Transaction_Units_exact [OF sample_keys] chunk_units_exact
  by (simp add: chain_rules_def NewDefaultRules_def exactly_def key_cost_def chain_suffixes)
     (simp add: compute_units_def sample_tx_def sample_auth_def BuyYes_ComputeUnits_def)

abbreviation idle :: "Manager \<Rightarrow> bool" where
  "idle fm \<equiv> wf_Manager fm \<and> (\<forall>i < FeeDimensions. unitPrice fm i = 0 \<and> lastConsumed fm i = 0)"

lemma chain_manager:
  obtains fm where "ComputeNext (NewManager (replicate 488 0)) 50 (fee_Rules.truncate chain_rules) = Some fm" "idle fm"
proof -
  let ?r = "fee_Rules.truncate chain_rules" and ?f = "NewManager (replicate 488 0)"
  have five: "i \<in> {0, 1, 2, 3, 4}" if "i < FeeDimensions" for i using that by (auto simp: FeeDimensions_def)
  have r: "GetWindowTargetUnits ?r ! i \<noteq> 0 \<and> GetUnitPriceChangeDenominator ?r ! i \<noteq> 0 \<and> GetMinUnitPrice ?r ! i = 0"
    if "i < FeeDimensions" for i
    using five [OF that] by (auto simp: fee_Rules.defs chain_rules_def NewDefaultRules_def)
  have z: "manager_window ?f i = replicate 80 0" "lastConsumed ?f i = 0" "unitPrice ?f i = 0" if "i < FeeDimensions" for i
    using five [OF that]
    by (auto simp: manager_window_def lastConsumed_def unitPrice_def NewManager_def Let_def manager_defs min_def)
       (simp_all add: numeral_eq_Suc)
  have w: "Window_Sum (next_window (replicate 80 0) 0 0) = 0"
  proof -
    have "next_window (replicate 80 0) 0 0 = replicate 80 0"
      by (simp add: next_window_def Roll_def WindowSliceSize_def WindowSize_def copy_at_def Window_Update_def Let_def
          safe_Add_def) (simp add: numeral_eq_Suc PutUint64_def)
    then show ?thesis
      by (simp add: Window_Sum_def window_slots_def WindowSize_def upt_rec safe_Add_def) (simp add: numeral_eq_Suc)
  qed
  obtain fm where "ComputeNext ?f 50 ?r = Some fm" "wf_Manager fm"
    "\<forall>i < FeeDimensions. lastConsumed fm i = 0 \<and> unitPrice fm i = 0"
  proof -
    obtain fm where fm: "ComputeNext ?f 50 ?r = Some fm" "wf_Manager fm"
      "\<And>i. i < FeeDimensions \<Longrightarrow> lastConsumed fm i = 0 \<and> manager_window fm i = next_window (manager_window ?f i)
         (lastConsumed ?f i) (go_int64_div 50 1000 - Uint64 (take 8 (fm_raw ?f))) \<and>
       (if Window_Sum (manager_window fm i) > GetWindowTargetUnits ?r ! i
        then unitPrice ?f i < unitPrice fm i \<or> unitPrice fm i = MaxUint64
        else unitPrice fm i \<le> max (unitPrice ?f i) (GetMinUnitPrice ?r ! i))"
      using ComputeNext_bounds [of ?f ?r 50] r by (auto simp: NewManager_def manager_defs)
    have "Uint64 (take 8 (fm_raw ?f)) = 0" "go_int64_div 50 1000 = 0"
      by (simp_all add: NewManager_def go_int64_div_def) (simp_all add: numeral_eq_Suc)
    with fm(3) r z w have "unitPrice fm i = 0" if "i < FeeDimensions" for i
      using that by fastforce
    with fm that show thesis by blast
  qed
  then show thesis using that by blast
qed

definition chain_env :: block_env where
  "chain_env = \<lparr>env_sha256 = (\<lambda>_. []), env_rand = (\<lambda>_ _. Inr []), env_rules = chain_rules, env_time = 50\<rparr>"

definition chain_task :: task where
  "chain_task = \<lparr>task_index = 0, task_tx = sample_tx,
     task_keys = [(BalanceKey sample_address, PermRead OR PermWrite), (MarketKey 7, PermRead OR PermWrite),
       (ShareBalanceKey 7 sample_address YesShareType, PermRead OR PermWrite), (StateKeysBalance sample_address, PermRead)],
     task_storage = chain_accounts\<rparr>"

definition chain_result :: Result where
  "chain_result = \<lparr>Success = True, result_Error = None, Outputs = [[]],
     result_Units = [150, 6, 1062, 2685, 1603], result_Fee = 0\<rparr>"

lemma fetch_ok:
  "(\<And>k v. k \<in> set ks \<Longrightarrow> im k = Inr v \<Longrightarrow> NumChunks v \<noteq> None) \<Longrightarrow> wf_parent im \<Longrightarrow> \<exists>st. fetch im ks = Inr st"
proof (induction ks)
  case (Cons k ks)
  then obtain st where "fetch im ks = Inr st" by auto
  with Cons.prems(1) [of k] Cons.prems(2) show ?case by (cases "im k") (force simp: wf_parent_def)+
qed simp

lemma chain_fetch: "fetch chain_parent (WithoutPermissions (task_keys chain_task)) = Inr chain_accounts"
proof -
  let ?ks = "WithoutPermissions (task_keys chain_task)"
  have ks: "set ?ks = {[], BalanceKey sample_address, MarketKey 7, ShareBalanceKey 7 sample_address YesShareType,
      StateKeysBalance sample_address}" by (simp add: WithoutPermissions_def chain_task_def)
  have s: "length k \<noteq> 3" if "k \<in> set ?ks" for k
    using that unfolding ks by (auto simp: keys_simps) (auto simp: sample_address_def)
  have same: "chain_parent k = found (chain_accounts k)" if "k \<in> set ?ks" for k
    using s [OF that] by (auto simp: chain_parent_def ImmutableStorage_GetValue_def found_def split: option.split)
  have "NumChunks v \<noteq> None" if "k \<in> set ?ks" "chain_parent k = Inr v" for k v
  proof -
    have "v \<in> {PutUint64 1000, PutUint64 5, enc_market chain_market}"
      using that(2) same [OF that(1)] by (auto simp: found_def chain_accounts_def split: option.splits if_splits)
    then have "length v \<le> MaxMarketDataSize"
      using chain_market_simps(1,2) by (auto simp: length_enc_market MaxMarketDataSize_def)
    then have "length v div 64 \<le> 65534" by (simp add: MaxMarketDataSize_def)
    then show ?thesis by (simp add: NumChunks_def numChunks_def chunkSize_def)
  qed
  then obtain st where st: "fetch chain_parent ?ks = Inr st" using fetch_ok [OF _ chain_parent_simps(1), of ?ks] by blast
  have "st k = chain_accounts k" for k
  proof (cases "k \<in> set ?ks")
    case True
    then show ?thesis
      using fetch_lookup [OF st, of k] same [OF True] by (simp add: parent_contents_def found_def split: option.splits)
  next
    case False
    then have "chain_accounts k = None" unfolding ks by (simp add: chain_accounts_def)
    with False show ?thesis using fetch_lookup [OF st, of k] by simp
  qed
  with st show ?thesis by (simp add: fun_eq_iff)
qed

lemma chain_queue:
  assumes "idle fm"
  obtains fm' where "queue_txs chain_parent view_handler chain_rules 0 [sample_tx] fm = Inr ([chain_task], fm')"
    "wf_Manager fm'" "\<And>i. i < FeeDimensions \<Longrightarrow> unitPrice fm' i = 0"
proof -
  let ?u = "[150, 6, 1062, 2685, 1603] :: Dimensions" and ?l = "GetMaxBlockUnits chain_rules"
  have "consumable fm ?u ?l i" if "i < FeeDimensions" for i
  proof -
    have "i \<in> {0, 1, 2, 3, 4}" using that by (auto simp: FeeDimensions_def)
    with assms that show ?thesis by (auto simp: consumable_def chain_rules_def NewDefaultRules_def)
  qed
  then obtain fm' where "Consume ?u ?l fm = ((True, 0), fm')" "wf_Manager fm'"
      "\<forall>i < FeeDimensions. unitPrice fm' i = unitPrice fm i"
    using assms by - (rule Consume_cases [of fm ?u ?l], auto)
  with assms sample_keys sample_units chain_fetch show thesis
    by (intro that [of fm']) (simp_all add: chain_task_def)
qed

lemma chain_state [simp]: "block_state (ImmutableStorage_GetValue (task_storage chain_task)) TState_New = chain_accounts"
  by (simp add: chain_task_def fun_eq_iff block_state_def TState_New_def parent_contents_def
      ImmutableStorage_GetValue_def split: option.split)

lemma chain_room:
  "VerifyValue (BalanceKey sample_address) (PutUint64 v)"
  "VerifyValue (ShareBalanceKey 7 sample_address YesShareType) (PutUint64 v)"
  "VerifyValue (MarketKey 7) (enc_market (add_total t n chain_market))"
proof -
  have m: "length (enc_market (add_total t n chain_market)) = market_size chain_market" "market_size chain_market \<le> 200"
    by (simp_all add: length_enc_market) (simp add: market_size_def chain_market_def sample_market_def bytes_of_string_def)
  show "VerifyValue (BalanceKey sample_address) (PutUint64 v)" by (simp add: VerifyValue_BalanceKey)
  show "VerifyValue (ShareBalanceKey 7 sample_address YesShareType) (PutUint64 v)"
    using chain_suffixes(2) by (subst VerifyValue_iff) (simp_all add: suffix_chunks_def, simp_all add: ShareBalanceKey_eq)
  show "VerifyValue (MarketKey 7) (enc_market (add_total t n chain_market))"
    using chain_suffixes(1) m by (subst VerifyValue_iff) (simp_all add: suffix_chunks_def, simp_all add: MarketKey_eq)
qed

lemma chain_scope:
  "k \<in> {BalanceKey sample_address, MarketKey 7, ShareBalanceKey 7 sample_address YesShareType} \<Longrightarrow>
   checkScope (task_view chain_task ts) k PermWrite"
  using keys_distinct [OF wf_sample_address wf_sample_address]
  by (auto simp: checkScope_def chain_task_def Keys_Has_def Keys_lookup_def Perm_Has_consts)

lemma chain_permitted:
  "purchase_permitted YesShareType 7 10 sample_address chain_accounts (checkScope (task_view chain_task ts)) VerifyValue"
  using chain_scope chain_room keys_distinct [OF wf_sample_address wf_sample_address]
  by (simp add: purchase_permitted_def writable_def) (simp add: chain_accounts_def)

lemma chain_writable: "writable chain_accounts (checkScope (task_view chain_task ts)) (BalanceKey sample_address)"
  using chain_permitted by (simp add: purchase_permitted_def)

lemma zero_fee:
  assumes "\<And>i. i < FeeDimensions \<Longrightarrow> unitPrice fm i = 0"
  shows "Fee fm [a, b, c, d, e] = Inr 0"
  using assms by (simp add: Fee_def FeeDimensions_def upt_rec safe_Mul_def safe_Add_def)

lemma chain_runs:
  assumes "\<And>i. i < FeeDimensions \<Longrightarrow> unitPrice fm i = 0"
  shows "\<exists>ts. run_task chain_env fm chain_task TState_New = Inr (chain_result, ts)"
proof -
  let ?v = "task_view chain_task TState_New"
  note fee = zero_fee [OF assms, of 150 6 1062 2685 1603]
  have g: "GetBalance TStateView_Mutable ?v sample_address = Inr 1000"
    using chain_scope [of "BalanceKey sample_address" TState_New] tview.write_reads
      keys_distinct [OF wf_sample_address wf_sample_address]
    by (simp add: tview.GetBalance_stored wf_view_NewView) (simp add: chain_accounts_def)
  then have "PreExecute fm view_handler chain_rules sample_tx ?v 50 = None"
  proof -
    have s: "Sponsor (tx_Auth sample_tx) = sample_address" "tx_Actions sample_tx = [ActBuyYes sample_buy]"
        "auth_ValidRange (tx_Auth sample_tx) = (- 1, - 1)" "unat (GetMaxActionsPerTx chain_rules) = 16"
      by (simp_all add: sample_tx_def sample_auth_def chain_rules_def NewDefaultRules_def)
    have "Base_Execute (tx_Base sample_tx) chain_rules 50 = None"
      by (simp add: Base_Execute_def VerifyTimestamp_def sample_tx_def chain_rules_def NewDefaultRules_def i64_less_def i64_le_def)
    moreover have "\<not> out_of_range (- 1, - 1) 50" by (simp add: out_of_range_def i64_less_def i64_le_def)
    ultimately show ?thesis
      using g sample_units fee
      by (simp add: PreExecute_def s Controller_New_def CanDeduct_def BuyYes_ValidRange_def)
  qed
  moreover have "\<exists>v'. Transaction_Execute (env_sha256 chain_env) (env_rand chain_env 0) fm view_handler chain_rules sample_tx ?v 50 =
      (Inr chain_result, v')"
    using Transaction_buys [OF _ _ wf_sample_address wf_sample_address _ _ _ _ sample_units fee _ _ _ _ _ refl, where v = ?v
        and bal = 1000 and act = "ActBuyYes sample_buy" and ts = 50 and ?sha256.0 = "env_sha256 chain_env" and rnd = "env_rand chain_env 0"] chain_permitted chain_writable
    by (auto simp: wf_view_NewView chain_result_def sample_tx_def sample_auth_def sample_buy_def buy_fault_None charged_def)
  ultimately show ?thesis
    unfolding run_task_Inr by (auto simp: chain_env_def chain_task_def)
qed

lemma chain_executes:
  assumes "idle fm"
  obtains fm' ts where "executeTxs id chain_env chain_parent [sample_tx] fm = Inr ([Some chain_result], fm', ts)" "wf_Manager fm'"
proof -
  obtain fm' where q: "queue_txs chain_parent view_handler chain_rules 0 [sample_tx] fm = Inr ([chain_task], fm')"
    "wf_Manager fm'" "\<And>i. i < FeeDimensions \<Longrightarrow> unitPrice fm' i = 0"
    using chain_queue [OF assms] by blast
  obtain ts where "run_task chain_env fm' chain_task TState_New = Inr (chain_result, ts)"
    using chain_runs [OF q(3)] by blast
  with q show thesis
    by (intro that [of fm' ts]) (simp_all add: executeTxs_def chain_env_def chain_task_def del: queue_txs.simps)
qed

lemma chain_accepted:
  "\<exists>out. Processor_Execute chain_services (\<lambda>_. []) (\<lambda>_ _. Inr []) (\<lambda>_. chain_rules) chain_parent chain_block True =
     Some (Inr out) \<and> out_Results out = [Some chain_result]"
proof -
  obtain fm where fm: "ComputeNext (NewManager (replicate 488 0)) 50 (fee_Rules.truncate chain_rules) = Some fm" "idle fm"
    using chain_manager by blast
  let ?ctx = "\<lparr>ctx_height = 4, ctx_timestamp = 50, ctx_feeManager = fm\<rparr>"
  have c: "createBlockContext chain_parent chain_block chain_rules = Some (Inr ?ctx)"
    using fm(1) 
    by (simp add: createBlockContext_def chain_parent_def chain_block_def ImmutableStorage_GetValue_def i64_less_def
      chain_rules_def NewDefaultRules_def)
  obtain fm' ts where x: "executeTxs id chain_env chain_parent [sample_tx] fm = Inr ([Some chain_result], fm', ts)" "wf_Manager fm'"
    using chain_executes [OF fm(2)] by blast
  obtain v where "writeBlockContext TStateView_Mutable (NewView ts FullAccess (ImmutableStorage_GetValue Map.empty))
      (?ctx\<lparr>ctx_feeManager := fm'\<rparr>) = (None, v)"
    using context_written [of "?ctx\<lparr>ctx_feeManager := fm'\<rparr>"] x(2) by auto
  with c x show ?thesis
    by (simp add: Processor_Execute_def chain_services_def chain_block_def i64_less_def finish_block_def verifyParentRoot_def
      chain_env_def)
qed

text \<open>A chain of the sample block and an empty one after it.\<close>

definition second_block :: ExecutionBlock where
  "second_block = \<lparr>blk_Tmstmp = 1000, blk_Hght = 5, blk_Txs = [], blk_StateRoot = []\<rparr>"

lemma chain_targets:
  "\<forall>i < FeeDimensions. GetWindowTargetUnits chain_rules ! i \<noteq> 0 \<and> GetUnitPriceChangeDenominator chain_rules ! i \<noteq> 0"
proof (intro allI impI)
  fix i assume "i < FeeDimensions"
  then have "i \<in> {0, 1, 2, 3, 4}" by (auto simp: FeeDimensions_def)
  then show "GetWindowTargetUnits chain_rules ! i \<noteq> 0 \<and> GetUnitPriceChangeDenominator chain_rules ! i \<noteq> 0"
    by (auto simp: chain_rules_def NewDefaultRules_def)
qed

lemma second_times:
  "i64_le (blk_Tmstmp chain_block + GetMinBlockGap chain_rules) 1000"
  "i64_le (blk_Tmstmp chain_block + GetMinEmptyBlockGap chain_rules) 1000"
  "i64_le 1000 (svc_now chain_services + 1000)" "ready chain_services []"
  by (simp_all add: i64_le_def chain_block_def chain_rules_def NewDefaultRules_def chain_services_def ready_def)

lemma second_accepted:
  assumes "Processor_Execute chain_services (\<lambda>_. []) (\<lambda>_ _. Inr []) (\<lambda>_. chain_rules) chain_parent chain_block True = Some (Inr out)"
  shows "\<exists>out'. Processor_Execute chain_services (\<lambda>_. []) (\<lambda>_ _. Inr []) (\<lambda>_. chain_rules) (out_View out) second_block True =
    Some (Inr out')"
proof -
  obtain raw where m: "out_View out [0, 0, 1] = Inr (PutUint64 4)" "out_View out [1, 0, 1] = Inr (PutUint64 50)"
      "out_View out [2, 0, 8] = Inr raw" "length raw = 488"
    using accepted_metadata [OF assms good_chain_services] by (auto simp: chain_block_def)
  show ?thesis
    using empty_block_runs [OF m, where getRules = "\<lambda>_. chain_rules" and t = 1000 and S = chain_services and root = "[]"]
      chain_targets second_times by (simp add: second_block_def) (simp add: chain_block_def)
qed

lemma chain_step: "\<exists>im'. accepts (\<lambda>_. chain_rules) chain_parent im'"
proof -
  have "\<forall>t \<in> set (blk_Txs chain_block). wf_tx t"
    by (simp add: chain_block_def wf_tx_def sample_tx_def sample_auth_def)
  moreover have "int (length (blk_Txs chain_block)) \<le> MaxKeyDependencies"
    by (simp add: chain_block_def MaxKeyDependencies_def)
  ultimately show ?thesis using chain_accepted by (blast intro: accepts.intros good_chain_services)
qed

lemma chain_backed: "backed (abs_exchange chain_accounts)"
proof -
  have "holding t i (abs_exchange chain_accounts) =
      (\<lambda>a. if a = sample_address then (if t = YesShareType \<and> i = 7 then 5 else 0) else 0)" for t i
    by (auto simp: holding_def fun_eq_iff)
  then show ?thesis by (simp add: backed_def outstanding_def sum.delta NoShareType_def YesShareType_def)
qed

text \<open>A purchase of another account in another market, which can run first.\<close>

definition other_tx :: Transaction where
  "other_tx = sample_tx\<lparr>tx_Actions := [ActBuyYes (sample_buy\<lparr>by_MarketID := 8\<rparr>)],
     tx_Auth := sample_auth\<lparr>Actor := replicate 33 2, Sponsor := replicate 33 2\<rparr>\<rparr>"

lemma other_runs_first:
  assumes "queue_txs im view_handler r 0 [sample_tx, other_tx] fm = Inr (tks, fm')"
  shows "eager tks = rev tks"
proof -
  let ?b = "replicate 33 2 :: Address"
  have b: "wf_Address ?b" by (simp add: wf_Address_def AddressLen_def)
  have k: "Transaction_StateKeys view_handler sample_tx =
      Inr [(BalanceKey sample_address, PermRead OR PermWrite), (MarketKey 7, PermRead OR PermWrite),
        (ShareBalanceKey 7 sample_address YesShareType, PermRead OR PermWrite), (StateKeysBalance sample_address, PermRead)]"
    using buy_yes_keys [OF wf_sample_address, of sample_tx sample_buy]
    by (simp add: sample_tx_def sample_auth_def sample_buy_def)
  have k': "Transaction_StateKeys view_handler other_tx =
      Inr [(BalanceKey ?b, PermRead OR PermWrite), (MarketKey 8, PermRead OR PermWrite),
        (ShareBalanceKey 8 ?b YesShareType, PermRead OR PermWrite), (StateKeysBalance ?b, PermRead)]"
    using buy_yes_keys [OF b, of other_tx "sample_buy\<lparr>by_MarketID := 8\<rparr>"] by (simp add: other_tx_def)
  have ab: "sample_address \<noteq> ?b" by (simp add: sample_address_def)
  note d = keys_distinct [OF wf_sample_address b] keys_distinct [OF b wf_sample_address]
  have "BalanceKey sample_address \<noteq> BalanceKey ?b" "MarketKey 7 \<noteq> MarketKey 8"
      "ShareBalanceKey 7 sample_address YesShareType \<noteq> ShareBalanceKey 8 ?b YesShareType"
      "StateKeysBalance sample_address \<noteq> StateKeysBalance ?b"
    using ab b wf_sample_address by (simp_all add: keys_simps)
  with d d [THEN not_sym] assms show ?thesis
    unfolding queue_txs_Cons by (auto simp: k k' eager_def)
qed

section \<open>Properties\<close>

text \<open>
  C3: a chain refines the abstract exchange. From a well-formed state, any number of accepted blocks
  with any transactions lead to a well-formed state, and the exchange read off it is reached from
  the first one by payments of fees and successful purchases only.
\<close>

theorem chain_refines_exchange:
  assumes "(accepts getRules)\<^sup>*\<^sup>* im im'" and "wf_parent im" and "wf_contents (parent_contents im)"
  shows "wf_contents (parent_contents im') \<and>
    exchange_step\<^sup>*\<^sup>* (abs_exchange (parent_contents im)) (abs_exchange (parent_contents im'))"
  using chain_moves [OF assms(1,2)] assms(3) by (simp add: moves_def)

theorem chain_refines_exchange_witness:
  "\<exists>im'. accepts (\<lambda>_. chain_rules) chain_parent im' \<and>
    exchange_step\<^sup>*\<^sup>* (abs_exchange chain_accounts) (abs_exchange (parent_contents im'))"
  using chain_step chain_refines_exchange [OF r_into_rtranclp chain_parent_simps(1,2)] by fastforce

text \<open>
  C4: shares are backed along the chain. If in the first state the totals of every market are the
  sums of the YES and of the NO shares over all accounts (modulo \<open>2 ^ 64\<close>), they are so in
  every state that accepted blocks lead to.
\<close>

theorem shares_stay_backed:
  assumes "(accepts getRules)\<^sup>*\<^sup>* im im'" and "wf_parent im" and "wf_contents (parent_contents im)"
    and "backed (abs_exchange (parent_contents im))"
  shows "backed (abs_exchange (parent_contents im'))"
  using chain_moves [OF assms(1,2)] assms(3,4) exchange_steps_keep by (auto simp: moves_def)

theorem shares_stay_backed_witness:
  "\<exists>im'. accepts (\<lambda>_. chain_rules) chain_parent im' \<and> backed (abs_exchange (parent_contents im'))"
  using chain_step shares_stay_backed [OF r_into_rtranclp chain_parent_simps(1,2)] chain_backed by fastforce

text \<open>
  C14: no block pays anyone, and no block closes or resolves a market. Along the chain an account
  never has more than it had before, and every market keeps everything but its two totals: no
  market appears, disappears, changes its status or gets an outcome.
\<close>

theorem nobody_gains:
  assumes "(accepts getRules)\<^sup>*\<^sup>* im im'" and "wf_parent im" and "wf_contents (parent_contents im)"
  shows "no_richer (abs_exchange (parent_contents im)) (abs_exchange (parent_contents im')) \<and>
    markets_kept (abs_exchange (parent_contents im)) (abs_exchange (parent_contents im'))"
  using chain_moves [OF assms(1,2)] assms(3) exchange_steps_keep by (auto simp: moves_def)

theorem nobody_gains_witness:
  "\<exists>im'. accepts (\<lambda>_. chain_rules) chain_parent im' \<and>
    no_richer (abs_exchange chain_accounts) (abs_exchange (parent_contents im'))"
  using chain_step nobody_gains [OF r_into_rtranclp chain_parent_simps(1,2)] by fastforce

text \<open>
  C17: heights and times of blocks. Of two blocks accepted one after the other the second has the
  height after the first, and a time that is at least the minimum gap later.
\<close>

theorem next_block:
  assumes "Processor_Execute S sha256 rand getRules im b isNormalOp = Some (Inr out)" and "good_services S"
    and "Processor_Execute S' sha256' rand' getRules (out_View out) b' isNormalOp' = Some (Inr out')"
  shows "blk_Hght b' = blk_Hght b + 1 \<and>
    i64_le (blk_Tmstmp b + GetMinBlockGap (getRules (blk_Tmstmp b'))) (blk_Tmstmp b')"
proof -
  obtain raw where im: "out_View out [0, 0, 1] = Inr (PutUint64 (blk_Hght b))"
      "out_View out [1, 0, 1] = Inr (PutUint64 (blk_Tmstmp b))" "out_View out [2, 0, 8] = Inr raw"
    using accepted_metadata [OF assms(1,2)] by blast
  obtain ctx' where "createBlockContext (out_View out) b' (getRules (blk_Tmstmp b')) = Some (Inr ctx')"
    using assms(3) by (auto simp: Processor_Execute_def Let_def split: if_splits option.splits sum.splits prod.splits)
  then show ?thesis
    by (auto simp: createBlockContext_def im i64_less_not_le split: sum.splits if_splits option.splits)
qed

theorem next_block_witness:
  "\<exists>out out'. Processor_Execute chain_services (\<lambda>_. []) (\<lambda>_ _. Inr []) (\<lambda>_. chain_rules) chain_parent chain_block True =
      Some (Inr out) \<and>
    Processor_Execute chain_services (\<lambda>_. []) (\<lambda>_ _. Inr []) (\<lambda>_. chain_rules) (out_View out) second_block True =
      Some (Inr out') \<and> blk_Hght second_block = blk_Hght chain_block + 1"
  using chain_accepted second_accepted next_block [OF _ good_chain_services] by metis

text \<open>
  C5: running the transactions of a block in parallel is running them one after the other. In
  whatever order a run of the executor, with any number of workers and any interleaving, lets the
  transactions return, the block succeeds exactly when the block's own order succeeds, with the same
  results, the same units and the same changes to the state.
\<close>

theorem schedule_does_not_matter:
  assumes "from_executor schedule" and "int (length txs) \<le> MaxKeyDependencies"
  shows "executeTxs schedule E im txs fm = Inr out \<longleftrightarrow> executeTxs id E im txs fm = Inr out"
proof -
  obtain results fm' ts where out: "out = (results, fm', ts)" by (cases out)
  have "run_tasks E fm' (schedule tasks) TState_New = Inr o1 \<longleftrightarrow> run_tasks E fm' tasks TState_New = Inr o1"
    if "queue_txs im view_handler (env_rules E) 0 txs fm = Inr (tasks, fm')" for tasks o1
    using that assms by (rule run_tasks_schedule)
  then show ?thesis unfolding out executeTxs_Inr by auto
qed

theorem schedule_does_not_matter_witness:
  "\<forall>fm out. executeTxs eager chain_env chain_parent [sample_tx, other_tx] fm = Inr out \<longleftrightarrow>
   executeTxs id chain_env chain_parent [sample_tx, other_tx] fm = Inr out"
  using schedule_does_not_matter [OF from_executor_eager, of "[sample_tx, other_tx]"]
  by (simp add: MaxKeyDependencies_def)

text \<open>
  C13: the accounting of a block is exact. When the transactions of a block are executed, every one
  has a result, with the units of its transaction and the fee these units cost at the prices of the
  block; in every dimension the consumption grows by exactly the units of the results, and stays
  within the limit of a block; the prices do not change.
\<close>

theorem block_accounting:
  assumes "wf_Manager fm" and "executeTxs id E im txs fm = Inr (results, fm', ts)"
  shows "length results = length txs \<and>
    (\<forall>j < length txs. \<exists>res. results ! j = Some res \<and>
       Transaction_Units view_handler (env_rules E) (txs ! j) = Inr (result_Units res) \<and>
       Fee fm (result_Units res) = Inr (result_Fee res)) \<and>
    (\<forall>d < FeeDimensions. unitPrice fm' d = unitPrice fm d \<and>
       unat (lastConsumed fm' d) = unat (lastConsumed fm d) + (\<Sum>r\<leftarrow>results. unat (result_Units (the r) ! d)) \<and>
       (txs \<noteq> [] \<longrightarrow> unat (lastConsumed fm' d) \<le> unat (GetMaxBlockUnits (env_rules E) ! d)))"
proof -
  obtain tasks rs where q: "queue_txs im view_handler (env_rules E) 0 txs fm = Inr (tasks, fm')"
      "results = map rs [0..<length txs]"
    using assms(2) unfolding executeTxs_Inr by auto
  note units = queue_txs_units [OF q(1) assms(1)]
  have fee: "Fee fm u = Fee fm' u" for u using units by (intro Fee_prices) simp
  have n: "length results = length txs" using q(2) by simp
  note res = executeTxs_results [OF assms(2), folded fee]
  have "map (\<lambda>tx. unat (projr (Transaction_Units view_handler (env_rules E) tx) ! d)) txs =
      map (\<lambda>r. unat (result_Units (the r) ! d)) results" for d
    by (rule nth_equalityI) (use n res in fastforce)+
  with n res units show ?thesis by auto
qed

theorem block_accounting_witness:
  "\<exists>fm fm' ts. idle fm \<and> executeTxs id chain_env chain_parent [sample_tx] fm = Inr ([Some chain_result], fm', ts) \<and>
    unat (lastConsumed fm' 3) = 2685"
proof -
  obtain fm where fm: "idle fm" using chain_manager by blast
  obtain fm' ts where x: "executeTxs id chain_env chain_parent [sample_tx] fm = Inr ([Some chain_result], fm', ts)"
    using chain_executes [OF fm] by blast
  have "unat (lastConsumed fm' 3) = unat (lastConsumed fm 3) + unat (result_Units chain_result ! 3)"
    using block_accounting [OF _ x] fm by (simp add: FeeDimensions_def)
  with fm x show ?thesis by (auto simp: chain_result_def FeeDimensions_def)
qed

text \<open>
  C16: the chain does not get stuck. After an accepted block, a node on which nothing fails accepts the
  empty block of the next height at every time that is late enough after it and not ahead of the
  node's clock, whatever the state holds.
\<close>

theorem next_empty_block:
  assumes "Processor_Execute S sha256 rand getRules im b isNormalOp = Some (Inr out)" and "good_services S"
    and "\<forall>i < FeeDimensions. GetWindowTargetUnits (getRules t) ! i \<noteq> 0 \<and> GetUnitPriceChangeDenominator (getRules t) ! i \<noteq> 0"
    and "i64_le (blk_Tmstmp b + GetMinBlockGap (getRules t)) t" "i64_le (blk_Tmstmp b + GetMinEmptyBlockGap (getRules t)) t"
    and "good_services S'" "ready S' root" "i64_le t (svc_now S' + 1000)"
  shows "\<exists>out'. Processor_Execute S' sha256' rand' getRules (out_View out)
    \<lparr>blk_Tmstmp = t, blk_Hght = blk_Hght b + 1, blk_Txs = [], blk_StateRoot = root\<rparr> isNormalOp' = Some (Inr out')"
proof -
  obtain raw where "out_View out [0, 0, 1] = Inr (PutUint64 (blk_Hght b))"
      "out_View out [1, 0, 1] = Inr (PutUint64 (blk_Tmstmp b))" "out_View out [2, 0, 8] = Inr raw" "length raw = 488"
    using accepted_metadata [OF assms(1,2)] by blast
  from empty_block_runs [OF this, where getRules = getRules and t = t and S = S' and root = root] assms(3-8)
  show ?thesis by blast
qed

theorem next_empty_block_witness:
  "\<exists>out out'. Processor_Execute chain_services (\<lambda>_. []) (\<lambda>_ _. Inr []) (\<lambda>_. chain_rules) chain_parent chain_block True =
      Some (Inr out) \<and>
    Processor_Execute chain_services (\<lambda>_. []) (\<lambda>_ _. Inr []) (\<lambda>_. chain_rules) (out_View out)
      \<lparr>blk_Tmstmp = 1000, blk_Hght = blk_Hght chain_block + 1, blk_Txs = [], blk_StateRoot = []\<rparr> True = Some (Inr out')"
  using chain_accepted next_empty_block [OF _ good_chain_services _ _ _ good_chain_services, where t = 1000 and root = "[]"]
    chain_targets second_times by blast

text \<open>
  C15: a purchase goes through. A transaction whose one action is a purchase of YES or of NO shares, in a
  view that permits it, from a sponsor who holds something and can pay the fee, for an order of its actor
  that the exchange accepts once the fee is paid, succeeds with the units and the fee in its result; the
  exchange is then the one with the fee taken from the sponsor and the purchase of the actor accounted.
  The sponsor may be the actor.
\<close>

theorem purchase_transaction:
  assumes "wf_view v" "wf_contents (view_contents v)" and "wf_Address a" and "wf_Address p"
    and "tx_Actions t = [act]" "order_of act = Some (k, i, n, price)" "Actor (tx_Auth t) = a" "Sponsor (tx_Auth t) = p"
    and "Transaction_Units view_handler r t = Inr units" "Fee fm units = Inr fee"
    and "balance_of (abs_exchange (view_contents v)) p = Some bal" "bal \<noteq> 0" "fee \<le> bal"
    and "writable (view_contents v) (checkScope v) (BalanceKey p)"
    and "purchase_permitted k i n a (view_contents v) (checkScope v) VerifyValue"
    and "paid = charged p (bal - fee) (abs_exchange (view_contents v))"
    and "buy_fault k i n price ts a paid = None"
  shows "\<exists>v'. Transaction_Execute sha256 rnd fm view_handler r t v ts =
      (Inr \<lparr>Success = True, result_Error = None, Outputs = [[]], result_Units = units, result_Fee = fee\<rparr>, v') \<and>
    abs_exchange (view_contents v') = bought k i n price a paid"
  using assms by (rule Transaction_buys)

theorem purchase_transaction_witness:
  "\<exists>fm v'. Transaction_Execute (env_sha256 chain_env) (env_rand chain_env 0) fm view_handler chain_rules sample_tx
      (task_view chain_task TState_New) 50 = (Inr chain_result, v') \<and>
    balance_of (abs_exchange (view_contents v')) sample_address = Some 970 \<and>
    shares_of (abs_exchange (view_contents v')) 7 sample_address YesShareType = Some 15"
proof -
  obtain fm where "idle fm" using chain_manager by blast
  then have fee: "Fee fm [150, 6, 1062, 2685, 1603] = Inr 0" by (intro zero_fee) simp
  show ?thesis
    using purchase_transaction [OF _ _ wf_sample_address wf_sample_address _ _ _ _ sample_units fee _ _ _ _ _ refl,
        where v = "task_view chain_task TState_New" and bal = 1000 and act = "ActBuyYes sample_buy" and ts = 50
        and ?sha256.0 = "env_sha256 chain_env" and rnd = "env_rand chain_env 0"] chain_permitted chain_writable
    by (intro exI [of _ fm])
       (auto simp: wf_view_NewView chain_result_def sample_tx_def sample_auth_def sample_buy_def buy_fault_None
        charged_def bought_def shares_after_def)
qed

end
