(* ===== verification/TxReader.thy ===== *)
theory TxReader
  imports TxBuilder VirtualMachine
begin

text \<open>
  Reading a transaction from bytes: the readers of \<^verbatim>\<open>canoto/canoto.go\<close>, the generated readers of
  \<^verbatim>\<open>hypersdk/chain/base.canoto.go\<close> and \<^verbatim>\<open>chain/transaction_codec.canoto.go\<close>, and \<^verbatim>\<open>UnmarshalTx\<close> of
  \<^verbatim>\<open>chain/transaction.go\<close>, which hands every action and the signature to the parsers the virtual
  machine has registered. The lemmas show that the readers accept exactly the bytes that the writers
  of \<open>TxBuilder\<close> produce, that the bytes a signature covers determine its base and its actions,
  and what a node makes of the transactions that this program builds. The locale \<open>canoto_message\<close>
  holds the argument that both messages share: a sequence of optional fields in ascending order.
\<close>

unbundle bit_operations_syntax

section \<open>canoto: reading numbers and bytes\<close>

text \<open>
  \<^verbatim>\<open>binary.Uvarint\<close> of Go's library: the value and the number of bytes read, which is 0 when the buffer
  ends too early and negative when the value does not fit 64 bits.
\<close>

fun Uvarint_loop :: "nat \<Rightarrow> u64 \<Rightarrow> nat \<Rightarrow> bytes \<Rightarrow> u64 \<times> int" where
  "Uvarint_loop i x s [] = (0, 0)"
| "Uvarint_loop i x s (b # bs) =
     (if i = 10 then (0, - (int i + 1))
      else if b < 0x80
      then (if i = 9 \<and> b > 1 then (0, - (int i + 1)) else (x OR push_bit s (ucast b), int i + 1))
      else Uvarint_loop (Suc i) (x OR push_bit s (ucast (b AND 0x7f))) (s + 7) bs)"

definition Uvarint :: "bytes \<Rightarrow> u64 \<times> int" where
  "Uvarint buf = Uvarint_loop 0 0 0 buf"

text \<open>\<^verbatim>\<open>ReadUint\<close> at an unsigned type of the given width.\<close>

definition ReadUint :: "nat \<Rightarrow> bytes \<Rightarrow> (u64 \<times> bytes) result" where
  "ReadUint width r =
     (let (val, bytesRead) = Uvarint r in
      if bytesRead = 0 then Inl (Sentinel ErrUnexpectedEOF)
      else if bytesRead < 0 \<or> take_bit width val \<noteq> val then Inl (Sentinel ErrCanotoOverflow)
      else if bytesRead > 1 \<and> r ! nat (bytesRead - 1) = 0 then Inl (Sentinel ErrPaddedZeroes)
      else Inr (val, drop (nat bytesRead) r))"

datatype WireType = Varint | I64 | Len | I32

definition WireType_of :: "u64 \<Rightarrow> WireType option" where
  "WireType_of w =
     (if w = 0 then Some Varint else if w = 1 then Some I64 else if w = 2 then Some Len
      else if w = 5 then Some I32 else None)"

definition ReadTag :: "bytes \<Rightarrow> (nat \<times> WireType \<times> bytes) result" where
  "ReadTag r =
     (case ReadUint 32 r of
        Inl err \<Rightarrow> Inl err
      | Inr (val, r1) \<Rightarrow>
         (case WireType_of (val AND 7) of
            None \<Rightarrow> Inl (Sentinel ErrInvalidWireType)
          | Some wireType \<Rightarrow> Inr (unat (drop_bit 3 val), wireType, r1)))"

definition unzigzag :: "u64 \<Rightarrow> i64" where
  "unzigzag largeVal = (let uVal = drop_bit 1 largeVal in if largeVal AND 1 \<noteq> 0 then NOT uVal else uVal)"

definition ReadInt :: "bytes \<Rightarrow> (i64 \<times> bytes) result" where
  "ReadInt r =
     (case ReadUint 64 r of Inl err \<Rightarrow> Inl err | Inr (largeVal, r1) \<Rightarrow> Inr (unzigzag largeVal, r1))"

definition ReadFint64 :: "bytes \<Rightarrow> (u64 \<times> bytes) result" where
  "ReadFint64 r =
     (if length r < 8 then Inl (Sentinel ErrUnexpectedEOF) else Inr (Uint64 (rev (take 8 r)), drop 8 r))"

definition ReadBytes :: "bytes \<Rightarrow> (bytes \<times> bytes) result" where
  "ReadBytes r =
     (case ReadUint 64 r of
        Inl err \<Rightarrow> Inl err
      | Inr (len, r1) \<Rightarrow>
          if unat len > length r1 then Inl (Sentinel ErrUnexpectedEOF)
          else Inr (take (unat len) r1, drop (unat len) r1))"

section \<open>base.canoto.go and transaction_codec.canoto.go: reading\<close>

text \<open>
  A message is read field by field; \<open>minField\<close> keeps the fields in order. The fields are 1, 2 and 3,
  so the successor does not wrap. Every step leaves fewer bytes than it found, so the loops end.
\<close>

definition zero_Base :: Base where
  "zero_Base = \<lparr>base_Timestamp = 0, base_ChainID = replicate IDLen 0, base_MaxFee = 0\<rparr>"

definition Base_readField :: "nat \<Rightarrow> WireType \<Rightarrow> Base \<Rightarrow> bytes \<Rightarrow> (Base \<times> bytes) result" where
  "Base_readField field wireType c r =
     (if field = 1 then
        (if wireType \<noteq> Varint then Inl (Sentinel ErrUnexpectedWireType)
         else case ReadInt r of
           Inl err \<Rightarrow> Inl err
         | Inr (v, r1) \<Rightarrow>
             if v = 0 then Inl (Sentinel ErrZeroValue) else Inr (c\<lparr>base_Timestamp := v\<rparr>, r1))
      else if field = 2 then
        (if wireType \<noteq> Len then Inl (Sentinel ErrUnexpectedWireType)
         else case ReadUint 64 r of
           Inl err \<Rightarrow> Inl err
         | Inr (len, r1) \<Rightarrow>
             if unat len \<noteq> IDLen then Inl (Sentinel ErrInvalidLength)
             else if IDLen > length r1 then Inl (Sentinel ErrUnexpectedEOF)
             else if take IDLen r1 = replicate IDLen 0 then Inl (Sentinel ErrZeroValue)
             else Inr (c\<lparr>base_ChainID := take IDLen r1\<rparr>, drop IDLen r1))
      else if field = 3 then
        (if wireType \<noteq> I64 then Inl (Sentinel ErrUnexpectedWireType)
         else case ReadFint64 r of
           Inl err \<Rightarrow> Inl err
         | Inr (v, r1) \<Rightarrow>
             if v = 0 then Inl (Sentinel ErrZeroValue) else Inr (c\<lparr>base_MaxFee := v\<rparr>, r1))
      else Inl (Sentinel ErrUnknownField))"

lemma ReadUint_shorter: "ReadUint w r = Inr (v, r1) \<Longrightarrow> r \<noteq> [] \<and> length r1 < length r"
proof -
  assume *: "ReadUint w r = Inr (v, r1)"
  obtain y m where m: "Uvarint r = (y, m)" by force
  have "snd (Uvarint_loop i x s r) > 0 \<Longrightarrow> r \<noteq> []" for i x s by (cases r) simp_all
  then have "m > 0 \<Longrightarrow> r \<noteq> []" using m unfolding Uvarint_def by (metis snd_conv)
  with * m show ?thesis by (auto simp: ReadUint_def split: if_splits)
qed

lemma ReadTag_shorter: "ReadTag r = Inr (f, t, r1) \<Longrightarrow> length r1 < length r"
  using ReadUint_shorter by (fastforce simp: ReadTag_def split: sum.splits option.splits)

lemma ReadBytes_shorter: "ReadBytes r = Inr (v, r1) \<Longrightarrow> length r1 < length r"
  using ReadUint_shorter by (fastforce simp: ReadBytes_def split: sum.splits if_splits)

lemma Base_readField_shorter: "Base_readField f t c r = Inr (c', r1) \<Longrightarrow> length r1 \<le> length r"
  using ReadUint_shorter
  by (fastforce simp: Base_readField_def ReadInt_def ReadFint64_def split: if_splits sum.splits)

function Base_readFields :: "nat \<Rightarrow> Base \<Rightarrow> bytes \<Rightarrow> Base result" where
  "Base_readFields minField c r =
     (if r = [] then Inr c
      else case ReadTag r of
        Inl err \<Rightarrow> Inl err
      | Inr (field, wireType, r1) \<Rightarrow>
          if field < minField then Inl (Sentinel ErrInvalidFieldOrder)
          else (case Base_readField field wireType c r1 of
            Inl err \<Rightarrow> Inl err
          | Inr (c1, r2) \<Rightarrow> Base_readFields (field + 1) c1 r2))"
  by pat_completeness auto
termination
  by (relation "measure (\<lambda>(_, _, r). length r)")
     (auto dest!: ReadTag_shorter Base_readField_shorter)

declare Base_readFields.simps [simp del]

definition Base_UnmarshalCanotoFrom :: "bytes \<Rightarrow> Base result" where
  "Base_UnmarshalCanotoFrom r = Base_readFields 0 zero_Base r"

text \<open>How many further entries of a repeated field follow, and reading them.\<close>

definition HasPrefix :: "bytes \<Rightarrow> bytes \<Rightarrow> bool" where
  "HasPrefix bs prefix \<longleftrightarrow> length prefix \<le> length bs \<and> take (length prefix) bs = prefix"

function CountBytes :: "byte \<Rightarrow> bytes \<Rightarrow> nat result" where
  "CountBytes tag r =
     (if HasPrefix r [tag]
      then (case ReadUint 64 (drop 1 r) of
              Inl err \<Rightarrow> Inl err
            | Inr (len, r1) \<Rightarrow>
                if unat len > length r1 then Inl (Sentinel ErrUnexpectedEOF)
                else (case CountBytes tag (drop (unat len) r1) of Inl err \<Rightarrow> Inl err | Inr count \<Rightarrow> Inr (Suc count)))
      else Inr 0)"
  by pat_completeness auto
termination
  by (relation "measure (\<lambda>(_, r). length r)") (auto dest!: ReadUint_shorter)

declare CountBytes.simps [simp del]

fun read_entries :: "nat \<Rightarrow> bytes \<Rightarrow> (bytes list \<times> bytes) result" where
  "read_entries 0 r = Inr ([], r)"
| "read_entries (Suc n) r =
     (case ReadBytes (drop 1 r) of
        Inl err \<Rightarrow> Inl err
      | Inr (v, r1) \<Rightarrow>
         (case read_entries n r1 of Inl err \<Rightarrow> Inl err | Inr (vs, r2) \<Rightarrow> Inr (v # vs, r2)))"

definition SerializeTx_readField :: "nat \<Rightarrow> WireType \<Rightarrow> SerializeTx \<Rightarrow> bytes \<Rightarrow> (SerializeTx \<times> bytes) result" where
  "SerializeTx_readField field wireType c r =
     (if field = 1 then
        (if wireType \<noteq> Len then Inl (Sentinel ErrUnexpectedWireType)
         else case ReadBytes r of
           Inl err \<Rightarrow> Inl err
         | Inr (msgBytes, r1) \<Rightarrow>
             if length msgBytes = 0 then Inl (Sentinel ErrZeroValue)
             else (case Base_UnmarshalCanotoFrom msgBytes of
                 Inl err \<Rightarrow> Inl err
               | Inr b \<Rightarrow> Inr (c\<lparr>st_Base := b\<rparr>, r1)))
      else if field = 2 then
        (if wireType \<noteq> Len then Inl (Sentinel ErrUnexpectedWireType)
         else case ReadBytes r of
           Inl err \<Rightarrow> Inl err
         | Inr (_, r1) \<Rightarrow>
            (case CountBytes 0x12 r1 of
               Inl err \<Rightarrow> Inl err
             | Inr countMinus1 \<Rightarrow>
                (case ReadBytes r of
                   Inl err \<Rightarrow> Inl err
                 | Inr (v, r2) \<Rightarrow>
                    (case read_entries countMinus1 r2 of
                       Inl err \<Rightarrow> Inl err
                     | Inr (vs, r3) \<Rightarrow> Inr (c\<lparr>st_Actions := v # vs\<rparr>, r3)))))
      else if field = 3 then
        (if wireType \<noteq> Len then Inl (Sentinel ErrUnexpectedWireType)
         else case ReadBytes r of
           Inl err \<Rightarrow> Inl err
         | Inr (v, r1) \<Rightarrow>
             if length v = 0 then Inl (Sentinel ErrZeroValue) else Inr (c\<lparr>st_Auth := v\<rparr>, r1))
      else Inl (Sentinel ErrUnknownField))"

lemma read_entries_shorter: "read_entries n r = Inr (vs, r1) \<Longrightarrow> length r1 \<le> length r"
proof (induction n arbitrary: r vs)
  case (Suc n)
  then obtain v r2 vs' where "ReadBytes (drop 1 r) = Inr (v, r2)" "read_entries n r2 = Inr (vs', r1)"
    by (auto split: sum.splits)
  with Suc.IH ReadBytes_shorter show ?case by fastforce
qed simp

lemma SerializeTx_readField_shorter: "SerializeTx_readField f t c r = Inr (c', r1) \<Longrightarrow> length r1 \<le> length r"
  using ReadBytes_shorter read_entries_shorter
  by (fastforce simp: SerializeTx_readField_def split: if_splits sum.splits)

function SerializeTx_readFields :: "nat \<Rightarrow> SerializeTx \<Rightarrow> bytes \<Rightarrow> SerializeTx result" where
  "SerializeTx_readFields minField c r =
     (if r = [] then Inr c
      else case ReadTag r of
        Inl err \<Rightarrow> Inl err
      | Inr (field, wireType, r1) \<Rightarrow>
          if field < minField then Inl (Sentinel ErrInvalidFieldOrder)
          else (case SerializeTx_readField field wireType c r1 of
            Inl err \<Rightarrow> Inl err
          | Inr (c1, r2) \<Rightarrow> SerializeTx_readFields (field + 1) c1 r2))"
  by pat_completeness auto
termination
  by (relation "measure (\<lambda>(_, _, r). length r)")
     (auto dest!: ReadTag_shorter SerializeTx_readField_shorter)

declare SerializeTx_readFields.simps [simp del]

definition SerializeTx_UnmarshalCanotoFrom :: "bytes \<Rightarrow> SerializeTx result" where
  "SerializeTx_UnmarshalCanotoFrom r =
     SerializeTx_readFields 0 \<lparr>st_Base = zero_Base, st_Actions = [], st_Auth = []\<rparr> r"

section \<open>transaction.go: reading a transaction\<close>

fun parse_actions :: "'auth TxTypeParser \<Rightarrow> nat \<Rightarrow> bytes list \<Rightarrow> Action list result" where
  "parse_actions parser i [] = Inr []"
| "parse_actions parser i (actionBytes # bs) =
     (case ParseAction parser actionBytes of
        Inl err \<Rightarrow> Inl (Wrapf ''failed to parse action %x at index %d: %w'' [FBytes actionBytes, FNat i] err)
      | Inr action \<Rightarrow>
         (case parse_actions parser (Suc i) bs of Inl err \<Rightarrow> Inl err | Inr actions \<Rightarrow> Inr (action # actions)))"

text \<open>The bytes without the signature at their end.\<close>

definition unsignedTxBytes_of :: "bytes \<Rightarrow> bytes \<Rightarrow> bytes result" where
  "unsignedTxBytes_of r auth =
     (if length auth = 0 then Inr r
      else let authSuffixSize = 1 + SizeBytes auth;
               unsignedTxBytesLimit = int (length r) - int authSuffixSize
        in if unsignedTxBytesLimit < 0 \<or> unsignedTxBytesLimit > int (length r)
           then Inl (Errorf ''failed to extract unsigned tx bytes due to invalid offset: %d, tx size: %d auth suffix size: %d''
                  [FI64 (word_of_int unsignedTxBytesLimit), FNat (length r), FNat authSuffixSize])
           else Inr (take (length r - authSuffixSize) r))"

definition Transaction_UnmarshalCanotoFrom ::
  "(bytes \<Rightarrow> bytes) \<Rightarrow> SignedAuth TxTypeParser \<Rightarrow> bytes \<Rightarrow> SignedTransaction result" where
  "Transaction_UnmarshalCanotoFrom sha256 parser r =
     (case SerializeTx_UnmarshalCanotoFrom r of
        Inl err \<Rightarrow> Inl err
      | Inr serializeTx \<Rightarrow>
       (case parse_actions parser 0 (st_Actions serializeTx) of
          Inl err \<Rightarrow> Inl err
        | Inr actions \<Rightarrow>
         (case ParseAuth parser (st_Auth serializeTx) of
            Inl err \<Rightarrow> Inl (Wrapf ''failed to parse auth %x: %w'' [FBytes (st_Auth serializeTx)] err)
          | Inr au \<Rightarrow>
           (case unsignedTxBytes_of r (st_Auth serializeTx) of
              Inl err \<Rightarrow> Inl err
            | Inr unsignedTxBytes \<Rightarrow>
                Inr \<lparr>tx_Base = st_Base serializeTx, tx_Actions = actions, tx_Auth = Auth.truncate au,
                     tx_Size = word_of_nat (length r), tx_unsignedBytes = unsignedTxBytes, tx_bytes = r,
                     tx_id = sha256 r\<rparr>))))"

definition UnmarshalTx ::
  "(bytes \<Rightarrow> bytes) \<Rightarrow> SignedAuth TxTypeParser \<Rightarrow> bytes \<Rightarrow> SignedTransaction result" where
  "UnmarshalTx sha256 parser bs =
     (case Transaction_UnmarshalCanotoFrom sha256 parser bs of Inl err \<Rightarrow> Inl err | Inr tx \<Rightarrow> Inr tx)"

section \<open>What the readers accept\<close>

text \<open>The bytes of a varint, as numbers: its value and how many bytes it takes.\<close>

fun varint :: "bytes \<Rightarrow> (nat \<times> nat) option" where
  "varint [] = None"
| "varint (b # bs) =
     (if unat b < 128 then Some (unat b, 1)
      else map_option (\<lambda>(v, k). (unat b - 128 + 128 * v, Suc k)) (varint bs))"

lemma or_shifted:
  assumes "unat (x :: u64) < 2 ^ s" and "n * 2 ^ s < 2 ^ 64" and "n = unat y"
  shows "unat (x OR push_bit s y) = unat x + n * 2 ^ s"
proof -
  have p: "unat (push_bit s y) = n * 2 ^ s"
    using assms(2,3) by (subst unsigned_push_bit_eq) (simp add: push_bit_eq_mult [of s "unat y"] take_bit_eq_mod)
  have x: "take_bit s x = x" using assms(1) by (simp add: word_unat_eq_iff unsigned_take_bit_eq take_bit_nat_eq_self)
  have "\<not> bit x k \<or> \<not> bit (push_bit s y) k" for k
    by (subst x [symmetric]) (auto simp: bit_simps)
  then have "x OR push_bit s y = x + push_bit s y" by (rule disjunctive_add [symmetric])
  moreover have "unat x + unat (push_bit s y) < 2 ^ 64"
  proof -
    have "s < 64 \<or> n = 0" using assms(2) 
    proof (cases "s < 64")
      case False
      then have "(2 :: nat) ^ 64 \<le> 2 ^ s" by (intro power_increasing) simp_all
      then have "n * 2 ^ 64 < 2 ^ 64" using assms(2) by (meson le_less_trans mult_le_mono2)
      then show ?thesis by simp
    qed simp
    then show ?thesis
    proof
      assume "s < 64"
      have "2 ^ s dvd (2 :: nat) ^ 64" using \<open>s < 64\<close> by (intro le_imp_power_dvd) simp
      then obtain q where q: "(2 :: nat) ^ 64 = 2 ^ s * q" by blast
      then have "n * 2 ^ s < q * 2 ^ s" using assms(2) by (metis mult.commute)
      then have "n < q" by simp
      then have "Suc n * 2 ^ s \<le> q * 2 ^ s" by (intro mult_right_mono) simp_all
      then show ?thesis using p q assms(1) by (simp add: mult.commute)
    next
      assume "n = 0"
      then show ?thesis using p unsigned_less [of x, where ?'a = nat] by simp
    qed
  qed
  ultimately show ?thesis using p by (simp add: unat_add_no_wrap)
qed

lemma varint_pos: "varint bs = Some (v, k) \<Longrightarrow> 0 < k \<and> k \<le> length bs"
  by (induction bs arbitrary: v k) (auto split: if_splits)

lemma byte_low: "unat (ucast (b AND 0x7f :: byte) :: u64) = (if unat b < 128 then unat b else unat b - 128)"
proof -
  have "b AND 0x7f = take_bit 7 b" by (simp add: take_bit_eq_mask mask_eq_exp_minus_1)
  then have "unat (b AND 0x7f) = unat b mod 128" by (simp only: unsigned_take_bit_eq) (simp add: take_bit_eq_mod)
  then have "unat (ucast (b AND 0x7f) :: u64) = unat b mod 128"
    by (simp add: unsigned_ucast_eq take_bit_nat_eq_self)
  moreover have "unat b < 256" using unsigned_less [of b, where ?'a = nat] by simp
  ultimately show ?thesis by (auto simp: mod_if)
qed

lemma Uvarint_loop_pos:
  assumes "i \<le> 9" and "unat x < 2 ^ (7 * i)"
  shows "Uvarint_loop i x (7 * i) bs = (y, m) \<and> m > 0 \<longleftrightarrow>
    (\<exists>v k. varint bs = Some (v, k) \<and> i + k \<le> 10 \<and> unat x + v * 2 ^ (7 * i) < 2 ^ 64 \<and>
       m = int (i + k) \<and> unat y = unat x + v * 2 ^ (7 * i))"
  using assms
proof (induction bs arbitrary: i x)
  case (Cons b bs)
  have b: "unat b < 256" using unsigned_less [of b, where ?'a = nat] by simp
  have lt: "b < 0x80 \<longleftrightarrow> unat b < 128" by (simp add: word_less_nat_alt)
  have gt: "b > 1 \<longleftrightarrow> unat b > 1" by (simp add: word_less_nat_alt)
  have pow: "(2 :: nat) ^ (7 * Suc i) = 128 * 2 ^ (7 * i)" by (simp add: power_add)
  have step: "unat x + n * 2 ^ (7 * i) < 2 ^ (7 * Suc i)" if "n < 128" for n
  proof -
    have "Suc n * 2 ^ (7 * i) \<le> 128 * 2 ^ (7 * i)" using that by (intro mult_right_mono) simp_all
    then show ?thesis using Cons.prems(2) unfolding pow mult_Suc by linarith
  qed
  have small: "(2 :: nat) ^ (7 * Suc i) \<le> 2 ^ 63" if "i < 9" using that by (intro power_increasing) simp_all
  show ?case
  proof (cases "unat b < 128")
    case True
    have fits: "unat x + unat b * 2 ^ (7 * i) < 2 ^ 64 \<longleftrightarrow> \<not> (i = 9 \<and> b > 1)"
    proof (cases "i = 9")
      case False
      then show ?thesis using step [OF True] small Cons.prems(1) by simp
    next
      case i: True
      have "unat x < 2 ^ 63" using Cons.prems(2) i by simp
      then show ?thesis using i by (auto simp: gt)
    qed
    have "unat (x OR push_bit (7 * i) (ucast b)) = unat x + unat b * 2 ^ (7 * i)" if "unat x + unat b * 2 ^ (7 * i) < 2 ^ 64"
      using that Cons.prems(2) b by (intro or_shifted) (simp_all add: unsigned_ucast_eq take_bit_eq_mod)
    with True fits Cons.prems(1) show ?thesis by (auto simp: lt word_unat_eq_iff)
  next
    case False
    show ?thesis
    proof (cases "i = 9")
      case True
      have "snd (Uvarint_loop 10 z s bs) \<le> 0" for z s by (cases bs) simp_all
      then have "\<not> (Uvarint_loop i x (7 * i) (b # bs) = (y, m) \<and> m > 0)"
        using True False by (auto simp: lt) (metis linorder_not_less snd_conv)
      moreover have "\<not> i + k \<le> 10" if "varint (b # bs) = Some (v, k)" for v k
        using that True False varint_pos [of bs] by (auto split: if_splits)
      ultimately show ?thesis by blast
    next
      case i: False
      let ?n = "unat b - 128" and ?x = "x OR push_bit (7 * i) (ucast (b AND 0x7f))"
      have n: "?n < 128" using b by simp
      have x: "unat ?x = unat x + ?n * 2 ^ (7 * i)"
        using step [OF n] small i Cons.prems False by (intro or_shifted) (simp_all add: byte_low)
      have "Uvarint_loop i x (7 * i) (b # bs) = Uvarint_loop (Suc i) ?x (7 * Suc i) bs"
        using False i Cons.prems(1) by (simp add: lt add.commute)
      moreover have "Uvarint_loop (Suc i) ?x (7 * Suc i) bs = (y, m) \<and> m > 0 \<longleftrightarrow>
        (\<exists>v k. varint bs = Some (v, k) \<and> Suc i + k \<le> 10 \<and> unat ?x + v * 2 ^ (7 * Suc i) < 2 ^ 64 \<and>
         m = int (Suc i + k) \<and> unat y = unat ?x + v * 2 ^ (7 * Suc i))"
        using step [OF n] i Cons.prems(1) x by (intro Cons.IH) simp_all
      moreover have "unat ?x + v * 2 ^ (7 * Suc i) = unat x + (?n + 128 * v) * 2 ^ (7 * i)" for v
        unfolding x pow by (simp add: algebra_simps)
      ultimately show ?thesis using False by (auto simp del: Uvarint_loop.simps)
    qed
  qed
qed simp

text \<open>\<^verbatim>\<open>AppendUvarint\<close> writes the only form without padding.\<close>

lemma uvarint_not_Nil [simp]: "uvarint n \<noteq> []"
  by (simp add: uvarint.simps [of n])

lemma varint_uvarint: "varint (uvarint n @ r) = Some (n, length (uvarint n))"
proof (induction n rule: uvarint.induct)
  case (1 n)
  show ?case
  proof (cases "n < 128")
    case True
    then show ?thesis by (simp add: uvarint.simps [of n] unat_of_nat)
  next
    case False
    have "unat (word_of_nat (n mod 128 + 128) :: byte) = n mod 128 + 128"
      by (simp only: unat_of_nat) simp
    with False 1 show ?thesis by (simp add: uvarint.simps [of n])
  qed
qed

lemma last_uvarint: "1 < length (uvarint n) \<Longrightarrow> last (uvarint n) \<noteq> 0"
proof (induction n rule: uvarint.induct)
  case (1 n)
  then have n: "\<not> n < 128" by (simp add: uvarint.simps [of n] split: if_splits)
  show ?case
  proof (cases "n div 128 < 128")
    case True
    have "unat (word_of_nat (n div 128) :: byte) \<noteq> 0" using n True by (simp add: unat_of_nat)
    then show ?thesis using n True by (auto simp: uvarint.simps [of n] uvarint.simps [of "n div 128"])
  next
    case False
    then have "1 < length (uvarint (n div 128))" by (simp add: uvarint.simps [of "n div 128"] Suc_lessI)
    with 1 n show ?thesis by (simp add: uvarint.simps [of n])
  qed
qed

lemma varint_zero: "varint bs = Some (0, k) \<Longrightarrow> bs ! (k - 1) = 0"
proof (induction bs arbitrary: k)
  case (Cons b bs)
  show ?case
  proof (cases "unat b < 128")
    case True
    with Cons.prems show ?thesis by (simp add: unat_eq_zero)
  next
    case False
    with Cons.prems obtain k' where k': "varint bs = Some (0, k')" "k = Suc k'" by auto
    with Cons.IH [OF k'(1)] varint_pos [OF k'(1)] show ?thesis by (simp add: nth_Cons')
  qed
qed simp

lemma varint_canonical:
  assumes "varint bs = Some (v, k)" and "k = 1 \<or> bs ! (k - 1) \<noteq> 0"
  shows "take k bs = uvarint v"
  using assms
proof (induction bs arbitrary: v k)
  case (Cons b bs)
  show ?case
  proof (cases "unat b < 128")
    case True
    with Cons.prems show ?thesis by (auto simp: uvarint.simps [of v])
  next
    case False
    with Cons.prems obtain v' k' where k': "varint bs = Some (v', k')" "k = Suc k'" "v = unat b - 128 + 128 * v'" by auto
    have p: "0 < k'" using varint_pos [OF k'(1)] by simp
    then have last: "bs ! (k' - 1) \<noteq> 0" using Cons.prems(2) k'(2) by (simp add: nth_Cons')
    have "v' \<noteq> 0" using varint_zero [of bs k'] k'(1) last by (cases "v' = 0") simp_all
    moreover have "unat b < 256" using unsigned_less [of b, where ?'a = nat] by simp
    ultimately obtain d where d: "unat b = d + 128" "d < 128" "v = d + 128 * v'" "v' \<noteq> 0"
      using False k'(3) by (intro that [of "unat b - 128"]) simp_all
    then have v: "\<not> v < 128" "v mod 128 + 128 = unat b" "v div 128 = v'" by simp_all
    have "take k' bs = uvarint v'" using Cons.IH [OF k'(1)] last by simp
    with v k'(2) show ?thesis by (simp add: uvarint.simps [of v])
  qed
qed simp

lemma length_uvarint_le: "n < 2 ^ 64 \<Longrightarrow> length (uvarint n) \<le> 10"
  using Len64_le [of n 64] div_le_mono [of "Len64 n + 6" 70 7] by (simp add: length_uvarint)

lemma take_bit_width: "take_bit w (v :: u64) = v \<longleftrightarrow> unat v < 2 ^ w"
  by (simp add: word_unat_eq_iff unsigned_take_bit_eq take_bit_nat_eq_self_iff)

lemma ReadUint_iff: "ReadUint w r = Inr (v, r') \<longleftrightarrow> r = uvarint (unat v) @ r' \<and> unat v < 2 ^ w"
proof -
  have u: "Uvarint r = (y, m) \<and> m > 0 \<longleftrightarrow>
      (\<exists>k. varint r = Some (unat y, k) \<and> k \<le> 10 \<and> m = int k)" for y m
    using Uvarint_loop_pos [of 0 0 r y m] unsigned_less [of y, where ?'a = nat] by (auto simp: Uvarint_def)
  show ?thesis
  proof
    assume "ReadUint w r = Inr (v, r')"
    then obtain m where m: "Uvarint r = (v, m)" "m > 0" "unat v < 2 ^ w" "m \<le> 1 \<or> r ! nat (m - 1) \<noteq> 0" "r' = drop (nat m) r"
      by (auto simp: ReadUint_def take_bit_width split: prod.splits if_splits)
    then obtain k where k: "varint r = Some (unat v, k)" "m = int k" using u by blast
    have "k = 1 \<or> r ! (k - 1) \<noteq> 0" using m(2,4) k(2) by (cases k) (auto simp: nat_diff_distrib)
    from varint_canonical [OF k(1) this] m(3,5) k(2) show "r = uvarint (unat v) @ r' \<and> unat v < 2 ^ w"
      by (metis append_take_drop_id nat_int)
  next
    assume r: "r = uvarint (unat v) @ r' \<and> unat v < 2 ^ w"
    let ?k = "length (uvarint (unat v))"
    have "?k \<le> 10" by (rule length_uvarint_le) (use unsigned_less [of v, where ?'a = nat] in simp)
    then have m: "Uvarint r = (v, int ?k)" using u varint_uvarint r by auto
    have "r ! (?k - 1) = last (uvarint (unat v))" using r by (simp add: nth_append last_conv_nth)
    with last_uvarint [of "unat v"] m r show "ReadUint w r = Inr (v, r')"
      by (simp add: ReadUint_def take_bit_width nat_diff_distrib)
  qed
qed

fun wire_code :: "WireType \<Rightarrow> nat" where
  "wire_code Varint = 0"
| "wire_code I64 = 1"
| "wire_code Len = 2"
| "wire_code I32 = 5"

lemma WireType_of_iff: "WireType_of w = Some t \<longleftrightarrow> unat w = wire_code t"
  by (cases t) (auto simp: WireType_of_def word_unat_eq_iff)

lemma ReadTag_iff: "ReadTag r = Inr (f, t, r') \<longleftrightarrow> r = uvarint (8 * f + wire_code t) @ r' \<and> f < 2 ^ 29"
proof -
  have "val AND 7 = take_bit 3 val" for val :: u64 by (simp add: take_bit_eq_mask mask_eq_exp_minus_1)
  then have low: "unat (val AND 7) = unat val mod 8" for val :: u64
    by (simp only: unsigned_take_bit_eq) (simp add: take_bit_eq_mod)
  have high: "unat (drop_bit 3 val) = unat val div 8" for val :: u64
    by (simp only: unat_drop_bit_eq) (simp add: drop_bit_eq_div)
  have t: "wire_code t < 8" by (cases t) simp_all
  have split: "m mod 8 = wire_code t \<and> m div 8 = f \<longleftrightarrow> m = 8 * f + wire_code t" for m :: nat
  proof
    assume "m mod 8 = wire_code t \<and> m div 8 = f"
    then show "m = 8 * f + wire_code t" using mult_div_mod_eq [of 8 m] by metis
  qed (use t in simp)
  have "ReadTag r = Inr (f, t, r') \<longleftrightarrow>
      (\<exists>val. ReadUint 32 r = Inr (val, r') \<and> WireType_of (val AND 7) = Some t \<and> unat (drop_bit 3 val) = f)"
    by (auto simp: ReadTag_def split: sum.split option.split)
  also have "\<dots> \<longleftrightarrow> (\<exists>val :: u64. unat val = 8 * f + wire_code t \<and> r = uvarint (unat val) @ r' \<and> unat val < 2 ^ 32)"
    unfolding ReadUint_iff WireType_of_iff low high split by blast
  also have "\<dots> \<longleftrightarrow> r = uvarint (8 * f + wire_code t) @ r' \<and> f < 2 ^ 29"
  proof
    assume r: "r = uvarint (8 * f + wire_code t) @ r' \<and> f < 2 ^ 29"
    then have n: "8 * f + wire_code t < 2 ^ 32" using t by simp
    have "unat (word_of_nat n :: u64) = n" if "n < 2 ^ 32" for n using that by (simp add: unat_of_nat)
    from this [OF n] r n show "\<exists>val :: u64. unat val = 8 * f + wire_code t \<and> r = uvarint (unat val) @ r' \<and> unat val < 2 ^ 32"
      by metis
  qed auto
  finally show ?thesis .
qed

text \<open>Zigzag coding of signed numbers.\<close>

lemma i64_le_0: "i64_le 0 v \<longleftrightarrow> \<not> bit v 63"
  using bit_last_iff [of v] by (auto simp: i64_le_def)

lemma shift_bits: "bit (push_bit 1 (v :: u64)) n \<longleftrightarrow> 0 < n \<and> n < 64 \<and> bit v (n - 1)"
    "bit (drop_bit 1 v) n \<longleftrightarrow> bit v (Suc n)"
  by (simp_all only: bit_push_bit_iff bit_drop_bit_eq) auto

lemma bit_one: "bit (1 :: u64) n \<longleftrightarrow> n = 0"
  by (simp add: bit_1_iff)

lemma low_bit: "z AND 1 = 0 \<longleftrightarrow> \<not> bit (z :: u64) 0"
  by (metis and_one_eq bit_0 bit_one bit_and_iff bot_apply bot_bool_def bit_0_eq even_iff_mod_2_eq_zero)

lemma unzigzag_zigzag: "unzigzag (zigzag v) = v"
proof (cases "i64_le 0 v")
  case True
  then have "n < 63" if "bit v n" for n
    using that bit_imp_le_length [OF that] by (cases "n = 63") (auto simp: i64_le_0)
  then have "drop_bit 1 (push_bit 1 v) = v" by (intro bit_word_eqI; unfold shift_bits) auto
  moreover have "push_bit 1 v AND 1 = 0" unfolding low_bit shift_bits by simp
  ultimately show ?thesis using True by (simp only: unzigzag_def zigzag_def Let_def if_True not_True_eq_False if_False refl)
next
  case False
  then have "n < 63" if "\<not> bit v n" "n < 64" for n
    using that by (cases "n = 63") (auto simp: i64_le_0)
  then have "drop_bit 1 (push_bit 1 (NOT v) OR 1) = NOT v"
    by (intro bit_word_eqI; unfold shift_bits bit_or_iff bit_one bit_not_iff) auto
  moreover have "(push_bit 1 (NOT v) OR 1) AND 1 \<noteq> 0" unfolding low_bit shift_bits bit_or_iff bit_one by simp
  ultimately show ?thesis using False by (simp only: unzigzag_def zigzag_def Let_def if_True if_False not_False_eq_True bit.double_compl)
qed

lemma zigzag_unzigzag: "zigzag (unzigzag z) = z"
proof (cases "bit z 0")
  case True
  have "bit (NOT (drop_bit 1 z)) 63" unfolding bit_not_iff shift_bits by (auto dest: bit_imp_le_length)
  then have "\<not> i64_le 0 (NOT (drop_bit 1 z))" by (simp only: i64_le_0) simp
  moreover have "push_bit 1 (drop_bit 1 z) OR 1 = z"
    using True by (intro bit_word_eqI; unfold shift_bits bit_or_iff bit_one) auto
  moreover have "z AND 1 \<noteq> 0" unfolding low_bit using True by simp
  ultimately show ?thesis by (simp only: unzigzag_def zigzag_def Let_def if_True if_False not_False_eq_True bit.double_compl)
next
  case False
  have "\<not> bit (drop_bit 1 z) 63" unfolding shift_bits by (auto dest: bit_imp_le_length)
  then have "i64_le 0 (drop_bit 1 z)" by (simp only: i64_le_0) simp
  moreover have "push_bit 1 (drop_bit 1 z) = z"
  proof (rule bit_word_eqI)
    show "bit (push_bit 1 (drop_bit 1 z)) n \<longleftrightarrow> bit z n" if "n < LENGTH(64)" for n
      unfolding shift_bits using that False by (cases n) simp_all
  qed
  moreover have "z AND 1 = 0" unfolding low_bit using False by simp
  ultimately show ?thesis by (simp only: unzigzag_def zigzag_def Let_def if_True if_False refl not_True_eq_False)
qed

lemma ReadInt_iff: "ReadInt r = Inr (v, r') \<longleftrightarrow> r = uvarint (unat (zigzag v)) @ r'"
proof -
  have "ReadInt r = Inr (v, r') \<longleftrightarrow> (\<exists>z. ReadUint 64 r = Inr (z, r') \<and> v = unzigzag z)"
    by (auto simp: ReadInt_def split: sum.split)
  also have "\<dots> \<longleftrightarrow> ReadUint 64 r = Inr (zigzag v, r')"
    using unzigzag_zigzag zigzag_unzigzag by metis
  finally show ?thesis using unsigned_less [of "zigzag v", where ?'a = nat] by (simp add: ReadUint_iff)
qed

lemma ReadFint64_iff: "ReadFint64 r = Inr (v, r') \<longleftrightarrow> r = rev (PutUint64 v) @ r'"
proof
  assume "ReadFint64 r = Inr (v, r')"
  then have r: "8 \<le> length r" "v = Uint64 (rev (take 8 r))" "r' = drop 8 r" by (auto simp: ReadFint64_def split: if_splits)
  then have "PutUint64 v = rev (take 8 r)" by (simp add: PutUint64_Uint64)
  then have "rev (PutUint64 v) = take 8 r" by simp
  then show "r = rev (PutUint64 v) @ r'" using r(3) by simp
qed (simp add: ReadFint64_def)

lemma ReadBytes_iff:
  "ReadBytes r = Inr (v, r') \<longleftrightarrow> r = uvarint (length v) @ v @ r' \<and> length v < 2 ^ 64"
proof
  assume "ReadBytes r = Inr (v, r')"
  then obtain n r1 where r1: "ReadUint 64 r = Inr (n, r1)" "unat n \<le> length r1" "v = take (unat n) r1" "r' = drop (unat n) r1"
    by (auto simp: ReadBytes_def split: sum.splits if_splits)
  then have "length v = unat n" by simp
  then show "r = uvarint (length v) @ v @ r' \<and> length v < 2 ^ 64" using r1 by (simp add: ReadUint_iff)
next
  assume "r = uvarint (length v) @ v @ r' \<and> length v < 2 ^ 64"
  then have "ReadUint 64 r = Inr (word_of_nat (length v), v @ r')" "unat (word_of_nat (length v) :: u64) = length v"
    by (simp_all add: ReadUint_iff unat_of_nat)
  then show "ReadBytes r = Inr (v, r')" by (simp add: ReadBytes_def)
qed

section \<open>Messages with three fields in order\<close>

text \<open>
  A reader of messages: \<open>item f c c' bs\<close> says that the bytes \<open>bs\<close>, tag included, are a value of field \<open>f\<close>
  that turns the message \<open>c\<close> into \<open>c'\<close>. A repeated field reads on while its tag follows, so what comes
  next has to stop it.
\<close>

locale canoto_message =
  fixes readField :: "nat \<Rightarrow> WireType \<Rightarrow> 'c \<Rightarrow> bytes \<Rightarrow> ('c \<times> bytes) result"
    and readFields :: "nat \<Rightarrow> 'c \<Rightarrow> bytes \<Rightarrow> 'c result"
    and item :: "nat \<Rightarrow> 'c \<Rightarrow> 'c \<Rightarrow> bytes \<Rightarrow> bool"
    and stops :: "nat \<Rightarrow> bytes \<Rightarrow> bool"
  assumes loop: "readFields m c r =
      (if r = [] then Inr c
       else case ReadTag r of
         Inl err \<Rightarrow> Inl err
       | Inr (f, t, r1) \<Rightarrow>
           if f < m then Inl (Sentinel ErrInvalidFieldOrder)
           else (case readField f t c r1 of Inl err \<Rightarrow> Inl err | Inr (c1, r2) \<Rightarrow> readFields (f + 1) c1 r2))"
    and field: "(\<exists>t r1. ReadTag r = Inr (f, t, r1) \<and> readField f t c r1 = Inr (c1, r2)) \<longleftrightarrow>
      (\<exists>bs. item f c c1 bs \<and> r = bs @ r2 \<and> stops f r2)"
    and item_field: "item f c c1 bs \<Longrightarrow> f = 1 \<or> f = 2 \<or> f = 3"
    and stops_Nil: "stops f []"
    and stops_item: "f < g \<Longrightarrow> item g c c1 bs \<Longrightarrow> stops f (bs @ r)"
begin

definition optional :: "nat \<Rightarrow> 'c \<Rightarrow> 'c \<Rightarrow> bytes \<Rightarrow> bool" where
  "optional f c c1 bs \<longleftrightarrow> bs = [] \<and> c1 = c \<or> item f c c1 bs"

lemma read_step:
  "readFields m c r = Inr c' \<longleftrightarrow> r = [] \<and> c' = c \<or>
     (\<exists>f c1 bs r2. m \<le> f \<and> item f c c1 bs \<and> r = bs @ r2 \<and> stops f r2 \<and> readFields (Suc f) c1 r2 = Inr c')"
proof -
  have "ReadTag [] \<noteq> Inr (f, t, r1)" for f t r1 by (simp add: ReadTag_iff)
  then have "readFields m c r = Inr c' \<longleftrightarrow> r = [] \<and> c' = c \<or>
      (\<exists>f c1 r2. m \<le> f \<and> (\<exists>t r1. ReadTag r = Inr (f, t, r1) \<and> readField f t c r1 = Inr (c1, r2)) \<and>
         readFields (Suc f) c1 r2 = Inr c')"
    by (subst loop) (auto split: sum.split)
  then show ?thesis unfolding field by blast
qed

lemma read_stops: "readFields (Suc f) c r = Inr c' \<Longrightarrow> stops f r"
  unfolding read_step [of "Suc f"] using stops_Nil stops_item by (auto simp: Suc_le_eq)

text \<open>A field is there or left out, and then the later ones follow.\<close>

lemma read_field:
  "readFields f c r = Inr c' \<longleftrightarrow>
     (\<exists>c1 bs r2. optional f c c1 bs \<and> r = bs @ r2 \<and> readFields (Suc f) c1 r2 = Inr c')" (is "?l \<longleftrightarrow> ?r")
proof
  assume ?l
  then consider "r = []" "c' = c"
    | g c1 bs r2 where "f \<le> g" "item g c c1 bs" "r = bs @ r2" "stops g r2" "readFields (Suc g) c1 r2 = Inr c'"
    using read_step [of f c r] by blast
  then show ?r
  proof cases
    case 1
    then show ?thesis using read_step [of "Suc f" c r] by (fastforce simp: optional_def)
  next
    case (2 g c1 bs r2)
    show ?thesis
    proof (cases "g = f")
      case True
      with 2 show ?thesis unfolding optional_def by blast
    next
      case False
      with 2(1) have "Suc f \<le> g" by simp
      then have "readFields (Suc f) c r = Inr c'" using 2(2-5) read_step [of "Suc f" c r] by blast
      then show ?thesis by (fastforce simp: optional_def)
    qed
  qed
next
  assume ?r
  then obtain c1 bs r2 where *: "optional f c c1 bs" "r = bs @ r2" "readFields (Suc f) c1 r2 = Inr c'" by blast
  show ?l
  proof (cases "bs = [] \<and> c1 = c")
    case True
    with * have "readFields (Suc f) c r = Inr c'" by simp
    then consider "r = []" "c' = c"
      | g c1 bs r2 where "Suc f \<le> g" "item g c c1 bs" "r = bs @ r2" "stops g r2" "readFields (Suc g) c1 r2 = Inr c'"
      using read_step [of "Suc f" c r] by blast
    then show ?thesis
    proof cases
      case (2 g c1 bs r2)
      from 2(1) have "f \<le> g" by simp
      with 2(2-5) show ?thesis using read_step [of f c r] by blast
    qed (use read_step [of f c r] in blast)
  next
    case False
    with * have "item f c c1 bs" by (auto simp: optional_def)
    then show ?thesis using *(2,3) read_stops [OF *(3)] read_step [of f c r] by blast
  qed
qed

lemma read_end: "readFields 4 c r = Inr c' \<longleftrightarrow> r = [] \<and> c' = c"
  unfolding read_step [of 4] using item_field by fastforce

lemma optional_0: "optional 0 c c1 bs \<longleftrightarrow> bs = [] \<and> c1 = c"
  using item_field [of 0] by (auto simp: optional_def)

lemma read_all:
  "readFields 0 c r = Inr c' \<longleftrightarrow>
     (\<exists>c1 c2 b1 b2 b3. r = b1 @ b2 @ b3 \<and> optional 1 c c1 b1 \<and> optional 2 c1 c2 b2 \<and> optional 3 c2 c' b3)"
proof -
  have s: "Suc 0 = 1" "Suc 1 = 2" "Suc 2 = 3" "Suc 3 = 4" by simp_all
  have last: "readFields 3 c r = Inr c' \<longleftrightarrow> optional 3 c c' r" for c r
    unfolding read_field [of 3 c r] s read_end by simp
  have two: "readFields 2 c r = Inr c' \<longleftrightarrow> (\<exists>c2 b2 b3. optional 2 c c2 b2 \<and> r = b2 @ b3 \<and> optional 3 c2 c' b3)" for c r
    unfolding read_field [of 2 c r] s last ..
  have "readFields 1 c r = Inr c' \<longleftrightarrow> (\<exists>c1 b1 r1. optional 1 c c1 b1 \<and> r = b1 @ r1 \<and>
      (\<exists>c2 b2 b3. optional 2 c1 c2 b2 \<and> r1 = b2 @ b3 \<and> optional 3 c2 c' b3))" for c r
    unfolding read_field [of 1 c r] s two ..
  moreover have "readFields 0 c r = Inr c' \<longleftrightarrow> readFields 1 c r = Inr c'"
    unfolding read_field [of 0 c r] optional_0 s by simp
  ultimately have "readFields 0 c r = Inr c' \<longleftrightarrow> (\<exists>c1 b1 r1. optional 1 c c1 b1 \<and> r = b1 @ r1 \<and>
      (\<exists>c2 b2 b3. optional 2 c1 c2 b2 \<and> r1 = b2 @ b3 \<and> optional 3 c2 c' b3))" by (rule trans [rotated]) 
  then show ?thesis by (simp only:) (intro iffI; elim exE conjE; force)
qed

end

section \<open>Base: what is read is what was written\<close>

definition enc_time :: "i64 \<Rightarrow> bytes" where
  "enc_time v = (if v = 0 then [] else 0x08 # uvarint (unat (zigzag v)))"

definition enc_chain :: "bytes \<Rightarrow> bytes" where
  "enc_chain i = (if i = replicate IDLen 0 then [] else 0x12 # uvarint IDLen @ i)"

definition enc_fee :: "u64 \<Rightarrow> bytes" where
  "enc_fee v = (if v = 0 then [] else 0x19 # rev (PutUint64 v))"

definition wf_Base :: "Base \<Rightarrow> bool" where
  "wf_Base c \<longleftrightarrow> length (base_ChainID c) = IDLen"

lemma Base_Marshal_eq:
  "wf_Base c \<Longrightarrow> Base_MarshalCanotoInto c w =
     w @ enc_time (base_Timestamp c) @ enc_chain (base_ChainID c) @ enc_fee (base_MaxFee c)"
  by (simp add: Base_MarshalCanotoInto_def enc_time_def enc_chain_def enc_fee_def AppendInt_def AppendBytes_def
      AppendUint_def AppendFint64_def wf_Base_def IDLen_def)

text \<open>The tags of the three fields are single bytes.\<close>

lemma ReadTag_small:
  assumes "8 * f + wire_code t < 128"
  shows "ReadTag r = Inr (f, t, r') \<longleftrightarrow> r = word_of_nat (8 * f + wire_code t) # r'"
  using assms by (simp add: ReadTag_iff uvarint.simps [of "8 * f + wire_code t"])


definition Base_item :: "nat \<Rightarrow> Base \<Rightarrow> Base \<Rightarrow> bytes \<Rightarrow> bool" where
  "Base_item f c c1 bs \<longleftrightarrow>
     f = 1 \<and> (\<exists>v. v \<noteq> 0 \<and> bs = enc_time v \<and> c1 = c\<lparr>base_Timestamp := v\<rparr>) \<or>
     f = 2 \<and> (\<exists>i. i \<noteq> replicate IDLen 0 \<and> length i = IDLen \<and> bs = enc_chain i \<and> c1 = c\<lparr>base_ChainID := i\<rparr>) \<or>
     f = 3 \<and> (\<exists>v. v \<noteq> 0 \<and> bs = enc_fee v \<and> c1 = c\<lparr>base_MaxFee := v\<rparr>)"

lemma Base_field:
  "(\<exists>t r1. ReadTag r = Inr (f, t, r1) \<and> Base_readField f t c r1 = Inr (c1, r2)) \<longleftrightarrow>
     (\<exists>bs. Base_item f c c1 bs \<and> r = bs @ r2)"
proof -
  have time: "Base_readField 1 t c r1 = Inr (c1, r2) \<longleftrightarrow>
      t = Varint \<and> (\<exists>v. v \<noteq> 0 \<and> r1 = uvarint (unat (zigzag v)) @ r2 \<and> c1 = c\<lparr>base_Timestamp := v\<rparr>)" for t r1
    unfolding ReadInt_iff [symmetric] by (auto simp: Base_readField_def split: sum.split)
  have fee: "Base_readField 3 t c r1 = Inr (c1, r2) \<longleftrightarrow>
      t = I64 \<and> (\<exists>v. v \<noteq> 0 \<and> r1 = rev (PutUint64 v) @ r2 \<and> c1 = c\<lparr>base_MaxFee := v\<rparr>)" for t r1
    unfolding ReadFint64_iff [symmetric] by (auto simp: Base_readField_def split: sum.split)
  have len: "Base_readField 2 t c r1 = Inr (c1, r2) \<longleftrightarrow>
      t = Len \<and> (\<exists>i. ReadBytes r1 = Inr (i, r2) \<and> i \<noteq> replicate IDLen 0 \<and> length i = IDLen \<and> c1 = c\<lparr>base_ChainID := i\<rparr>)" for t r1
    by (auto simp: Base_readField_def ReadBytes_def split: sum.split)
  have "ReadBytes r1 = Inr (i, r2) \<longleftrightarrow> r1 = uvarint IDLen @ i @ r2" if "length i = IDLen" for i r1
    using that by (simp add: ReadBytes_iff IDLen_def)
  then have chain: "Base_readField 2 t c r1 = Inr (c1, r2) \<longleftrightarrow>
      t = Len \<and> (\<exists>i. i \<noteq> replicate IDLen 0 \<and> length i = IDLen \<and> r1 = uvarint IDLen @ i @ r2 \<and> c1 = c\<lparr>base_ChainID := i\<rparr>)" for t r1
    unfolding len by blast
  have other: "Base_readField f t c r1 = Inr (c1, r2) \<Longrightarrow> f = 1 \<or> f = 2 \<or> f = 3" for t r1
    by (auto simp: Base_readField_def split: if_splits)
  consider "f = 1" | "f = 2" | "f = 3" | "f \<noteq> 1" "f \<noteq> 2" "f \<noteq> 3" by blast
  then show ?thesis
  proof cases
    case 1
    then show ?thesis using ReadTag_small [of 1 Varint] by (auto simp: time [unfolded One_nat_def] enc_time_def Base_item_def)
  next
    case 2
    then show ?thesis using ReadTag_small [of 2 Len] by (auto simp: chain enc_chain_def Base_item_def)
  next
    case 3
    then show ?thesis using ReadTag_small [of 3 I64] by (auto simp: fee enc_fee_def Base_item_def)
  qed (use other in \<open>auto simp: Base_item_def\<close>)
qed

interpretation base: canoto_message Base_readField Base_readFields Base_item "\<lambda>_ _. True"
  by unfold_locales (use Base_field in \<open>auto simp: Base_readFields.simps Base_item_def\<close>)

lemma Base_optional:
  "base_Timestamp c = 0 \<Longrightarrow> base.optional 1 c c1 bs \<longleftrightarrow> (\<exists>v. bs = enc_time v \<and> c1 = c\<lparr>base_Timestamp := v\<rparr>)"
  "base_ChainID c = replicate IDLen 0 \<Longrightarrow> base.optional 2 c c1 bs \<longleftrightarrow>
     (\<exists>i. length i = IDLen \<and> bs = enc_chain i \<and> c1 = c\<lparr>base_ChainID := i\<rparr>)"
  "base_MaxFee c = 0 \<Longrightarrow> base.optional 3 c c1 bs \<longleftrightarrow> (\<exists>v. bs = enc_fee v \<and> c1 = c\<lparr>base_MaxFee := v\<rparr>)"
proof -
  assume *: "base_Timestamp c = 0"
  then have "c\<lparr>base_Timestamp := 0\<rparr> = c" by simp
  then show "base.optional 1 c c1 bs \<longleftrightarrow> (\<exists>v. bs = enc_time v \<and> c1 = c\<lparr>base_Timestamp := v\<rparr>)"
    unfolding base.optional_def Base_item_def enc_time_def by (auto; metis)
next
  assume "base_ChainID c = replicate IDLen 0"
  then have "c\<lparr>base_ChainID := replicate IDLen 0\<rparr> = c" by (cases c) simp
  then show "base.optional 2 c c1 bs \<longleftrightarrow> (\<exists>i. length i = IDLen \<and> bs = enc_chain i \<and> c1 = c\<lparr>base_ChainID := i\<rparr>)"
    unfolding base.optional_def Base_item_def enc_chain_def by (auto; metis length_replicate)
next
  assume "base_MaxFee c = 0"
  then have "c\<lparr>base_MaxFee := 0\<rparr> = c" by simp
  then show "base.optional 3 c c1 bs \<longleftrightarrow> (\<exists>v. bs = enc_fee v \<and> c1 = c\<lparr>base_MaxFee := v\<rparr>)"
    unfolding base.optional_def Base_item_def enc_fee_def by (auto; metis)
qed

lemma Base_Unmarshal_iff:
  "Base_UnmarshalCanotoFrom r = Inr c \<longleftrightarrow> wf_Base c \<and> r = Base_MarshalCanotoInto c []"
proof -
  let ?c = "\<lambda>v i f. \<lparr>base_Timestamp = v, base_ChainID = i, base_MaxFee = f\<rparr>"
  have "Base_UnmarshalCanotoFrom r = Inr c \<longleftrightarrow>
      (\<exists>v i f. length i = IDLen \<and> r = enc_time v @ enc_chain i @ enc_fee f \<and> c = ?c v i f)" (is "_ \<longleftrightarrow> ?r")
    unfolding Base_UnmarshalCanotoFrom_def base.read_all zero_Base_def
  proof
    assume ?r
    then obtain v i f where "length i = IDLen" "r = enc_time v @ enc_chain i @ enc_fee f" "c = ?c v i f" by blast
    then show "\<exists>c1 c2 b1 b2 b3. r = b1 @ b2 @ b3 \<and> base.optional 1 (?c 0 (replicate IDLen 0) 0) c1 b1 \<and>
        base.optional 2 c1 c2 b2 \<and> base.optional 3 c2 c b3"
      by (intro exI [of _ "?c v (replicate IDLen 0) 0"] exI [of _ "?c v i 0"] exI [of _ "enc_time v"]
          exI [of _ "enc_chain i"] exI [of _ "enc_fee f"]) (simp add: Base_optional [unfolded One_nat_def])
  qed (auto simp: Base_optional [unfolded One_nat_def])
  also have "\<dots> \<longleftrightarrow> wf_Base c \<and> r = Base_MarshalCanotoInto c []"
    by (cases c) (auto simp: Base_Marshal_eq wf_Base_def)
  finally show ?thesis .
qed

section \<open>Transactions: what is read is what was written\<close>

definition enc_base :: "Base \<Rightarrow> bytes" where
  "enc_base b = (if Base_CanotoSize b = 0 then [] else 0x0a # uvarint (Base_CanotoSize b) @ Base_MarshalCanotoInto b [])"

definition enc_action :: "bytes \<Rightarrow> bytes" where
  "enc_action a = 0x12 # uvarint (length a) @ a"

definition enc_auth :: "bytes \<Rightarrow> bytes" where
  "enc_auth v = (if v = [] then [] else 0x1a # uvarint (length v) @ v)"

definition wf_SerializeTx :: "SerializeTx \<Rightarrow> bool" where
  "wf_SerializeTx s \<longleftrightarrow> wf_Base (st_Base s) \<and> (\<forall>a \<in> set (st_Actions s). length a < 2 ^ 64) \<and> length (st_Auth s) < 2 ^ 64"

lemma Base_size_le: "wf_Base b \<Longrightarrow> Base_CanotoSize b < 2 ^ 64"
  using Base_CanotoSize_le [of b] by (simp add: wf_Base_def)

lemma Base_size_0: "wf_Base b \<Longrightarrow> Base_CanotoSize b = 0 \<longleftrightarrow> b = zero_Base"
proof -
  assume wf: "wf_Base b"
  have "Base_CanotoSize b = 0 \<longleftrightarrow> Base_MarshalCanotoInto b [] = []"
    using length_Base_MarshalCanotoInto [of b "[]"] by (metis add_0 length_0_conv list.size(3))
  also have "\<dots> \<longleftrightarrow> b = zero_Base"
    using wf by (cases b) (auto simp: Base_Marshal_eq enc_time_def enc_chain_def enc_fee_def zero_Base_def split: if_splits)
  finally show ?thesis .
qed

lemma fold_actions:
  "\<forall>a \<in> set as. length a < 2 ^ 64 \<Longrightarrow>
   fold (\<lambda>v w. AppendBytes (w @ [0x12]) v) as w = w @ concat (map enc_action as)"
  by (induction as arbitrary: w) (simp_all add: AppendBytes_def AppendUint_def enc_action_def unat_of_nat)

lemma SerializeTx_Marshal_eq:
  assumes "wf_SerializeTx s"
  shows "SerializeTx_MarshalCanoto s =
    enc_base (st_Base s) @ concat (map enc_action (st_Actions s)) @ enc_auth (st_Auth s)"
proof -
  have b: "wf_Base (st_Base s)" and a: "\<forall>a \<in> set (st_Actions s). length a < 2 ^ 64" and u: "length (st_Auth s) < 2 ^ 64"
    using assms by (simp_all add: wf_SerializeTx_def)
  have "unat (word_of_nat (Base_CanotoSize (st_Base s)) :: u64) = Base_CanotoSize (st_Base s)"
    using Base_size_le [OF b] by (simp add: unat_of_nat)
  with u show ?thesis
    unfolding SerializeTx_MarshalCanoto_def Let_def fold_actions [OF a]
    by (simp add: enc_base_def enc_auth_def AppendBytes_def AppendUint_def unat_of_nat Base_Marshal_eq [OF b])
qed

text \<open>Counting the entries of the repeated field and reading them.\<close>

lemma HasPrefix_byte: "HasPrefix r [b] \<longleftrightarrow> (\<exists>r1. r = b # r1)"
  by (cases r) (auto simp: HasPrefix_def)

lemma CountBytes_0: "CountBytes tag r = Inr 0 \<longleftrightarrow> \<not> HasPrefix r [tag]"
  by (subst CountBytes.simps) (auto split: sum.split)

lemma CountBytes_Suc:
  "CountBytes tag r = Inr (Suc n) \<longleftrightarrow>
     HasPrefix r [tag] \<and> (\<exists>v r1. ReadBytes (drop 1 r) = Inr (v, r1) \<and> CountBytes tag r1 = Inr n)"
  by (subst CountBytes.simps) (auto simp: ReadBytes_def split: sum.split)

lemma entries_iff:
  "CountBytes 0x12 r = Inr n \<and> read_entries n r = Inr (vs, r3) \<longleftrightarrow>
     n = length vs \<and> (\<forall>v \<in> set vs. length v < 2 ^ 64) \<and> r = concat (map enc_action vs) @ r3 \<and> \<not> HasPrefix r3 [0x12]"
proof (induction n arbitrary: r vs)
  case 0
  then show ?case by (auto simp: CountBytes_0)
next
  case (Suc n)
  have "CountBytes 0x12 r = Inr (Suc n) \<and> read_entries (Suc n) r = Inr (vs, r3) \<longleftrightarrow>
      (\<exists>v vs' r1 r2. r = 0x12 # r1 \<and> ReadBytes r1 = Inr (v, r2) \<and> vs = v # vs' \<and>
         CountBytes 0x12 r2 = Inr n \<and> read_entries n r2 = Inr (vs', r3))"
    by (auto simp: CountBytes_Suc HasPrefix_byte split: sum.splits)
  also have "\<dots> \<longleftrightarrow> (\<exists>v vs' r1 r2. r = 0x12 # r1 \<and> ReadBytes r1 = Inr (v, r2) \<and> vs = v # vs' \<and>
      n = length vs' \<and> (\<forall>v \<in> set vs'. length v < 2 ^ 64) \<and> r2 = concat (map enc_action vs') @ r3 \<and> \<not> HasPrefix r3 [0x12])"
    unfolding Suc.IH ..
  also have "\<dots> \<longleftrightarrow> Suc n = length vs \<and> (\<forall>v \<in> set vs. length v < 2 ^ 64) \<and> r = concat (map enc_action vs) @ r3 \<and>
      \<not> HasPrefix r3 [0x12]"
    unfolding ReadBytes_iff by (cases vs) (auto simp: enc_action_def)
  finally show ?case .
qed

definition SerializeTx_item :: "nat \<Rightarrow> SerializeTx \<Rightarrow> SerializeTx \<Rightarrow> bytes \<Rightarrow> bool" where
  "SerializeTx_item f c c1 bs \<longleftrightarrow>
     f = 1 \<and> (\<exists>b. wf_Base b \<and> b \<noteq> zero_Base \<and> bs = enc_base b \<and> c1 = c\<lparr>st_Base := b\<rparr>) \<or>
     f = 2 \<and> (\<exists>as. as \<noteq> [] \<and> (\<forall>a \<in> set as. length a < 2 ^ 64) \<and> bs = concat (map enc_action as) \<and> c1 = c\<lparr>st_Actions := as\<rparr>) \<or>
     f = 3 \<and> (\<exists>v. v \<noteq> [] \<and> length v < 2 ^ 64 \<and> bs = enc_auth v \<and> c1 = c\<lparr>st_Auth := v\<rparr>)"

definition SerializeTx_stops :: "nat \<Rightarrow> bytes \<Rightarrow> bool" where
  "SerializeTx_stops f r \<longleftrightarrow> (f = 2 \<longrightarrow> \<not> HasPrefix r [0x12])"

lemma SerializeTx_field:
  "(\<exists>t r1. ReadTag r = Inr (f, t, r1) \<and> SerializeTx_readField f t c r1 = Inr (c1, r2)) \<longleftrightarrow>
     (\<exists>bs. SerializeTx_item f c c1 bs \<and> r = bs @ r2 \<and> SerializeTx_stops f r2)"
proof -
  have "SerializeTx_readField 1 t c r1 = Inr (c1, r2) \<longleftrightarrow>
      t = Len \<and> (\<exists>m b. ReadBytes r1 = Inr (m, r2) \<and> m \<noteq> [] \<and> Base_UnmarshalCanotoFrom m = Inr b \<and> c1 = c\<lparr>st_Base := b\<rparr>)" for t r1
    by (auto simp: SerializeTx_readField_def split: sum.split)
  moreover have "ReadBytes r1 = Inr (Base_MarshalCanotoInto b [], r2) \<and> Base_MarshalCanotoInto b [] \<noteq> [] \<longleftrightarrow>
      b \<noteq> zero_Base \<and> 0x0a # r1 = enc_base b @ r2" if "wf_Base b" for b r1
  proof -
    have "Base_MarshalCanotoInto b [] \<noteq> [] \<longleftrightarrow> b \<noteq> zero_Base"
      using Base_size_0 [OF that] length_Base_MarshalCanotoInto [of b "[]"] by (metis add_0 length_0_conv list.size(3))
    then show ?thesis
      using Base_size_0 [OF that] Base_size_le [OF that] by (auto simp: ReadBytes_iff enc_base_def)
  qed
  ultimately have base: "SerializeTx_readField 1 t c r1 = Inr (c1, r2) \<longleftrightarrow>
      t = Len \<and> (\<exists>b. wf_Base b \<and> b \<noteq> zero_Base \<and> 0x0a # r1 = enc_base b @ r2 \<and> c1 = c\<lparr>st_Base := b\<rparr>)" for t r1
    unfolding Base_Unmarshal_iff by blast
  have "SerializeTx_readField 2 t c r1 = Inr (c1, r2) \<longleftrightarrow>
      t = Len \<and> (\<exists>v r3 n vs. ReadBytes r1 = Inr (v, r3) \<and> (CountBytes 0x12 r3 = Inr n \<and> read_entries n r3 = Inr (vs, r2)) \<and>
        c1 = c\<lparr>st_Actions := v # vs\<rparr>)" for t r1
    by (auto simp: SerializeTx_readField_def split: sum.split)
  moreover have "(\<exists>as. as \<noteq> [] \<and> Q as) \<longleftrightarrow> (\<exists>v vs. Q (v # vs))" for Q :: "bytes list \<Rightarrow> bool"
    by (metis list.distinct(1) neq_Nil_conv)
  ultimately have acts: "SerializeTx_readField 2 t c r1 = Inr (c1, r2) \<longleftrightarrow>
      t = Len \<and> \<not> HasPrefix r2 [0x12] \<and> (\<exists>as. as \<noteq> [] \<and> (\<forall>a \<in> set as. length a < 2 ^ 64) \<and>
        0x12 # r1 = concat (map enc_action as) @ r2 \<and> c1 = c\<lparr>st_Actions := as\<rparr>)" for t r1
    unfolding entries_iff ReadBytes_iff by (simp add: enc_action_def) blast
  have auth: "SerializeTx_readField 3 t c r1 = Inr (c1, r2) \<longleftrightarrow>
      t = Len \<and> (\<exists>v. v \<noteq> [] \<and> length v < 2 ^ 64 \<and> 0x1a # r1 = enc_auth v @ r2 \<and> c1 = c\<lparr>st_Auth := v\<rparr>)" for t r1
  proof -
    have "SerializeTx_readField 3 t c r1 = Inr (c1, r2) \<longleftrightarrow>
        t = Len \<and> (\<exists>v. ReadBytes r1 = Inr (v, r2) \<and> v \<noteq> [] \<and> c1 = c\<lparr>st_Auth := v\<rparr>)"
      by (auto simp: SerializeTx_readField_def split: sum.split)
    then show ?thesis unfolding ReadBytes_iff enc_auth_def by auto
  qed
  have other: "SerializeTx_readField f t c r1 = Inr (c1, r2) \<Longrightarrow> f = 1 \<or> f = 2 \<or> f = 3" for t r1
    by (auto simp: SerializeTx_readField_def split: if_splits)
  have tags: "ReadTag r = Inr (1, Len, r1) \<longleftrightarrow> r = 0x0a # r1" "ReadTag r = Inr (2, Len, r1) \<longleftrightarrow> r = 0x12 # r1"
      "ReadTag r = Inr (3, Len, r1) \<longleftrightarrow> r = 0x1a # r1" for r1
    using ReadTag_small [of 1 Len r] ReadTag_small [of 2 Len r] ReadTag_small [of 3 Len r] by simp_all
  have heads: "\<exists>y. enc_base b = 0x0a # y" if "wf_Base b" "b \<noteq> zero_Base" for b
    using Base_size_0 [OF that(1)] that(2) by (simp add: enc_base_def)
  have heads': "\<exists>y. concat (map enc_action as) = 0x12 # y" if "as \<noteq> []" for as
    using that by (cases as) (simp_all add: enc_action_def)
  consider "f = 1" | "f = 2" | "f = 3" | "f \<noteq> 1" "f \<noteq> 2" "f \<noteq> 3" by blast
  then show ?thesis
  proof cases
    case 1
    have "(\<exists>t r1. ReadTag r = Inr (1, t, r1) \<and> SerializeTx_readField 1 t c r1 = Inr (c1, r2)) \<longleftrightarrow>
        (\<exists>r1 b. r = 0x0a # r1 \<and> wf_Base b \<and> b \<noteq> zero_Base \<and> 0x0a # r1 = enc_base b @ r2 \<and> c1 = c\<lparr>st_Base := b\<rparr>)"
      unfolding base tags(1) [symmetric] by blast
    also have "\<dots> \<longleftrightarrow> (\<exists>bs. SerializeTx_item 1 c c1 bs \<and> r = bs @ r2)"
      unfolding SerializeTx_item_def using heads by fastforce
    finally show ?thesis unfolding 1 SerializeTx_stops_def by simp
  next
    case 2
    have "(\<exists>t r1. ReadTag r = Inr (2, t, r1) \<and> SerializeTx_readField 2 t c r1 = Inr (c1, r2)) \<longleftrightarrow>
        \<not> HasPrefix r2 [0x12] \<and> (\<exists>r1 as. r = 0x12 # r1 \<and> as \<noteq> [] \<and> (\<forall>a \<in> set as. length a < 2 ^ 64) \<and>
          0x12 # r1 = concat (map enc_action as) @ r2 \<and> c1 = c\<lparr>st_Actions := as\<rparr>)"
      unfolding acts tags(2) [symmetric] by blast
    also have "\<dots> \<longleftrightarrow> \<not> HasPrefix r2 [0x12] \<and> (\<exists>bs. SerializeTx_item 2 c c1 bs \<and> r = bs @ r2)"
      unfolding SerializeTx_item_def using heads' by fastforce
    finally show ?thesis unfolding 2 SerializeTx_stops_def by auto
  next
    case 3
    have "(\<exists>t r1. ReadTag r = Inr (3, t, r1) \<and> SerializeTx_readField 3 t c r1 = Inr (c1, r2)) \<longleftrightarrow>
        (\<exists>r1 v. r = 0x1a # r1 \<and> v \<noteq> [] \<and> length v < 2 ^ 64 \<and> 0x1a # r1 = enc_auth v @ r2 \<and> c1 = c\<lparr>st_Auth := v\<rparr>)"
      unfolding auth tags(3) [symmetric] by blast
    also have "\<dots> \<longleftrightarrow> (\<exists>bs. SerializeTx_item 3 c c1 bs \<and> r = bs @ r2)"
      unfolding SerializeTx_item_def by (fastforce simp: enc_auth_def)
    finally show ?thesis unfolding 3 SerializeTx_stops_def by simp
  qed (use other in \<open>auto simp: SerializeTx_item_def\<close>)
qed

interpretation wire: canoto_message SerializeTx_readField SerializeTx_readFields SerializeTx_item SerializeTx_stops
proof unfold_locales
  show "SerializeTx_stops f []" for f by (simp add: SerializeTx_stops_def HasPrefix_def)
  show "SerializeTx_stops f (bs @ r)" if "f < g" "SerializeTx_item g c c1 bs" for f g c c1 bs r
    using that by (auto simp: SerializeTx_stops_def SerializeTx_item_def enc_auth_def HasPrefix_byte)
qed (use SerializeTx_field in \<open>auto simp: SerializeTx_readFields.simps SerializeTx_item_def\<close>)

lemma SerializeTx_optional:
  "st_Base c = zero_Base \<Longrightarrow> wire.optional 1 c c1 bs \<longleftrightarrow> (\<exists>b. wf_Base b \<and> bs = enc_base b \<and> c1 = c\<lparr>st_Base := b\<rparr>)"
  "st_Actions c = [] \<Longrightarrow> wire.optional 2 c c1 bs \<longleftrightarrow>
     (\<exists>as. (\<forall>a \<in> set as. length a < 2 ^ 64) \<and> bs = concat (map enc_action as) \<and> c1 = c\<lparr>st_Actions := as\<rparr>)"
  "st_Auth c = [] \<Longrightarrow> wire.optional 3 c c1 bs \<longleftrightarrow>
     (\<exists>v. length v < 2 ^ 64 \<and> bs = enc_auth v \<and> c1 = c\<lparr>st_Auth := v\<rparr>)"
proof -
  assume "st_Base c = zero_Base"
  then have "c\<lparr>st_Base := zero_Base\<rparr> = c" by (cases c) simp
  moreover have "wf_Base zero_Base" by (simp add: wf_Base_def zero_Base_def)
  moreover have "enc_base zero_Base = []" using Base_size_0 [of zero_Base] calculation(2) by (simp add: enc_base_def)
  ultimately show "wire.optional 1 c c1 bs \<longleftrightarrow> (\<exists>b. wf_Base b \<and> bs = enc_base b \<and> c1 = c\<lparr>st_Base := b\<rparr>)"
    unfolding wire.optional_def SerializeTx_item_def by (auto; metis)
next
  assume "st_Actions c = []"
  then have "c\<lparr>st_Actions := []\<rparr> = c" by (cases c) simp
  then show "wire.optional 2 c c1 bs \<longleftrightarrow>
     (\<exists>as. (\<forall>a \<in> set as. length a < 2 ^ 64) \<and> bs = concat (map enc_action as) \<and> c1 = c\<lparr>st_Actions := as\<rparr>)"
    unfolding wire.optional_def SerializeTx_item_def by (auto; metis list.simps(8) concat.simps(1) empty_iff empty_set)
next
  assume "st_Auth c = []"
  then have "c\<lparr>st_Auth := []\<rparr> = c" by (cases c) simp
  then show "wire.optional 3 c c1 bs \<longleftrightarrow> (\<exists>v. length v < 2 ^ 64 \<and> bs = enc_auth v \<and> c1 = c\<lparr>st_Auth := v\<rparr>)"
    unfolding wire.optional_def SerializeTx_item_def enc_auth_def by (auto; metis list.size(3) zero_less_numeral)
qed

lemma SerializeTx_Unmarshal_iff:
  "SerializeTx_UnmarshalCanotoFrom r = Inr s \<longleftrightarrow> wf_SerializeTx s \<and> r = SerializeTx_MarshalCanoto s"
proof -
  let ?s = "\<lambda>b as v. \<lparr>st_Base = b, st_Actions = as, st_Auth = v\<rparr>"
  have "SerializeTx_UnmarshalCanotoFrom r = Inr s \<longleftrightarrow>
      (\<exists>b as v. wf_SerializeTx (?s b as v) \<and> r = enc_base b @ concat (map enc_action as) @ enc_auth v \<and> s = ?s b as v)"
      (is "_ \<longleftrightarrow> ?r")
    unfolding SerializeTx_UnmarshalCanotoFrom_def wire.read_all
  proof
    assume ?r
    then obtain b as v where "wf_SerializeTx (?s b as v)" "r = enc_base b @ concat (map enc_action as) @ enc_auth v"
        "s = ?s b as v" by blast
    then show "\<exists>c1 c2 b1 b2 b3. r = b1 @ b2 @ b3 \<and> wire.optional 1 (?s zero_Base [] []) c1 b1 \<and>
        wire.optional 2 c1 c2 b2 \<and> wire.optional 3 c2 s b3"
      by (intro exI [of _ "?s b [] []"] exI [of _ "?s b as []"] exI [of _ "enc_base b"]
          exI [of _ "concat (map enc_action as)"] exI [of _ "enc_auth v"])
         (simp add: SerializeTx_optional [unfolded One_nat_def] wf_SerializeTx_def)
  qed (auto simp: SerializeTx_optional [unfolded One_nat_def] wf_SerializeTx_def)
  also have "\<dots> \<longleftrightarrow> wf_SerializeTx s \<and> r = SerializeTx_MarshalCanoto s"
    using SerializeTx_Marshal_eq [of s] by (cases s) auto
  finally show ?thesis .
qed

section \<open>UnmarshalTx\<close>

lemma enc_auth_size: "length v < 2 ^ 64 \<Longrightarrow> v \<noteq> [] \<Longrightarrow> length (enc_auth v) = 1 + SizeBytes v"
  by (simp add: enc_auth_def SizeBytes_def SizeUint_def length_uvarint unat_of_nat unat_eq_zero [symmetric])

text \<open>What is signed: the same bytes without the signature.\<close>

lemma unsigned_part:
  assumes "wf_SerializeTx s"
  shows "SerializeTx_MarshalCanoto s = SerializeTx_MarshalCanoto (s\<lparr>st_Auth := []\<rparr>) @ enc_auth (st_Auth s)"
proof -
  have "wf_SerializeTx (s\<lparr>st_Auth := []\<rparr>)" using assms by (simp add: wf_SerializeTx_def)
  from SerializeTx_Marshal_eq [OF this] SerializeTx_Marshal_eq [OF assms] show ?thesis by (simp add: enc_auth_def)
qed

lemma unsignedTxBytes_Marshal:
  assumes "wf_SerializeTx s"
  shows "unsignedTxBytes_of (SerializeTx_MarshalCanoto s) (st_Auth s) = Inr (SerializeTx_MarshalCanoto (s\<lparr>st_Auth := []\<rparr>))"
proof (cases "st_Auth s = []")
  case True
  then show ?thesis by (cases s) (simp add: unsignedTxBytes_of_def)
next
  case False
  then have "length (enc_auth (st_Auth s)) = 1 + SizeBytes (st_Auth s)"
    using enc_auth_size assms by (simp add: wf_SerializeTx_def)
  with False unsigned_part [OF assms] show ?thesis by (simp add: unsignedTxBytes_of_def Let_def)
qed

definition read_tx :: "(bytes \<Rightarrow> bytes) \<Rightarrow> SerializeTx \<Rightarrow> Action list \<Rightarrow> SignedAuth \<Rightarrow> SignedTransaction" where
  "read_tx sha256 s as au =
     (let r = SerializeTx_MarshalCanoto s in
      \<lparr>tx_Base = st_Base s, tx_Actions = as, tx_Auth = Auth.truncate au, tx_Size = word_of_nat (length r),
       tx_unsignedBytes = SerializeTx_MarshalCanoto (s\<lparr>st_Auth := []\<rparr>), tx_bytes = r, tx_id = sha256 r\<rparr>)"

lemma UnmarshalTx_Marshal:
  assumes "wf_SerializeTx s"
  shows "UnmarshalTx sha256 parser (SerializeTx_MarshalCanoto s) =
    (case parse_actions parser 0 (st_Actions s) of
       Inl err \<Rightarrow> Inl err
     | Inr actions \<Rightarrow>
        (case ParseAuth parser (st_Auth s) of
           Inl err \<Rightarrow> Inl (Wrapf ''failed to parse auth %x: %w'' [FBytes (st_Auth s)] err)
         | Inr au \<Rightarrow> Inr (read_tx sha256 s actions au)))"
proof -
  have "SerializeTx_UnmarshalCanotoFrom (SerializeTx_MarshalCanoto s) = Inr s"
    using assms by (simp add: SerializeTx_Unmarshal_iff)
  then show ?thesis
    by (simp add: UnmarshalTx_def Transaction_UnmarshalCanotoFrom_def unsignedTxBytes_Marshal [OF assms] read_tx_def Let_def
        split: sum.split)
qed

lemma UnmarshalTx_Inr:
  assumes "UnmarshalTx sha256 parser r = Inr tx"
  obtains s actions au where "wf_SerializeTx s" "r = SerializeTx_MarshalCanoto s"
    "parse_actions parser 0 (st_Actions s) = Inr actions" "tx = read_tx sha256 s actions au"
proof -
  obtain s where "SerializeTx_UnmarshalCanotoFrom r = Inr s"
    using assms by (auto simp: UnmarshalTx_def Transaction_UnmarshalCanotoFrom_def split: sum.splits)
  then have s: "wf_SerializeTx s" "r = SerializeTx_MarshalCanoto s" by (simp_all add: SerializeTx_Unmarshal_iff)
  from that [OF s] assms show thesis
    unfolding s(2) UnmarshalTx_Marshal [OF s(1)] by (auto split: sum.splits)
qed

text \<open>What the parser of a node makes of an action this program has written.\<close>

fun node_reads :: "Action \<Rightarrow> Action option" where
  "node_reads (ActCreateMarket cm) = None"
| "node_reads (ActBuyYes b) = (if drop_bit 56 (by_MarketID b) = 5 then Some (ActBuyYes b) else None)"
| "node_reads (ActBuyNo n) =
     (if drop_bit 56 (bn_MarketID n) = 5
      then Some (ActBuyYes \<lparr>by_MarketID = bn_MarketID n, by_Amount = bn_Amount n, by_MaxPrice = bn_MaxPrice n\<rparr>)
      else None)"

definition writable :: "Action \<Rightarrow> bool" where
  "writable a \<longleftrightarrow> (\<forall>cm. a = ActCreateMarket cm \<longrightarrow> cm_size cm \<le> MaxStringLen)"

lemma ParseAction_written:
  assumes "vm_init fs us = Inr (g, parser)" and "writable a" and "Action_Bytes a = Some bs"
  shows "ParseAction parser bs = (case node_reads a of None \<Rightarrow> Inl (no_type bs) | Some a' \<Rightarrow> Inr a')"
proof (cases a)
  case (ActCreateMarket cm)
  with assms node_action_parsing [OF assms(1), of cm] show ?thesis by (auto simp: writable_def split: sum.splits)
next
  case (ActBuyYes b)
  have "cm_size sample_create \<le> MaxStringLen"
    by (simp add: cm_size_def sample_create_def MaxStringLen_def bytes_of_string_def)
  from node_action_parsing [OF assms(1) this, of b] ActBuyYes assms(3) show ?thesis by (simp add: Let_def)
next
  case (ActBuyNo n)
  have "cm_size sample_create \<le> MaxStringLen"
    by (simp add: cm_size_def sample_create_def MaxStringLen_def bytes_of_string_def)
  from node_action_parsing [OF assms(1) this, of _ n] ActBuyNo assms(3) show ?thesis by (simp add: Let_def)
qed

lemma parse_actions_written:
  assumes "vm_init fs us = Inr (g, parser)" and "\<forall>a \<in> set as. writable a" and "those (map Action_Bytes as) = Some bss"
  shows "case those (map node_reads as) of
      None \<Rightarrow> \<exists>e. parse_actions parser i bss = Inl e
    | Some as' \<Rightarrow> parse_actions parser i bss = Inr as'"
  using assms(2,3)
proof (induction as arbitrary: bss i)
  case (Cons a as)
  then obtain bs bss' where b: "Action_Bytes a = Some bs" "those (map Action_Bytes as) = Some bss'" "bss = bs # bss'"
    by (auto split: option.splits)
  note p = ParseAction_written [OF assms(1) _ b(1)]
  show ?case
  proof (cases "node_reads a")
    case None
    then show ?thesis using p Cons.prems(1) by (simp add: b(3))
  next
    case (Some a')
    have IH: "case those (map node_reads as) of None \<Rightarrow> \<exists>e. parse_actions parser (Suc i) bss' = Inl e
        | Some as' \<Rightarrow> parse_actions parser (Suc i) bss' = Inr as'"
      using Cons.IH [OF _ b(2)] Cons.prems(1) by simp
    show ?thesis
      using p Cons.prems(1) Some IH by (cases "those (map node_reads as)") (auto simp: b(3))
  qed
qed simp

lemma wf_built:
  assumes "length (base_ChainID b) = IDLen" and "length (SerializeTx_MarshalCanoto \<lparr>st_Base = b, st_Actions = bss, st_Auth = v\<rparr>) < 2 ^ 64"
  shows "wf_SerializeTx \<lparr>st_Base = b, st_Actions = bss, st_Auth = v\<rparr>"
proof -
  have "length a < 2 ^ 64" if "a \<in> set bss" for a
  proof -
    have "1 + SizeBytes a \<le> sum_list (map (\<lambda>v. 1 + SizeBytes v) bss)" using that by (intro member_le_sum_list) auto
    then show ?thesis using assms(2) by (simp add: length_SerializeTx SizeBytes_def)
  qed
  moreover have "length v < 2 ^ 64" using assms(2) by (cases "v = []") (simp_all add: length_SerializeTx SizeBytes_def)
  ultimately show ?thesis using assms(1) by (simp add: wf_SerializeTx_def wf_Base_def)
qed

section \<open>Properties\<close>

text \<open>
  C19: the wire format of transactions is canonical. The reader accepts a byte string exactly when it
  is what the writer makes of a transaction, and then returns this transaction: what was written is
  read back, and no transaction has a second encoding (padded numbers, fields that are zero, out of
  order or unknown, and trailing bytes are all refused).
\<close>

theorem tx_wire_format:
  "SerializeTx_UnmarshalCanotoFrom r = Inr s \<longleftrightarrow> wf_SerializeTx s \<and> r = SerializeTx_MarshalCanoto s"
  by (rule SerializeTx_Unmarshal_iff)

text \<open>
  C20: a signature covers the whole transaction. Two transactions a node has read, and for which the
  same bytes are signed, have the same base and the same actions, and their bytes differ in the
  signature at the end only. The signed bytes are a prefix of the bytes of the transaction.
\<close>

theorem signature_covers_transaction:
  assumes "UnmarshalTx sha256 parser r = Inr tx" and "UnmarshalTx sha256 parser r' = Inr tx'"
    and "tx_unsignedBytes tx = tx_unsignedBytes tx'"
  shows "tx_Base tx = tx_Base tx' \<and> tx_Actions tx = tx_Actions tx' \<and>
    (\<exists>v v'. r = tx_unsignedBytes tx @ enc_auth v \<and> r' = tx_unsignedBytes tx @ enc_auth v')"
proof -
  obtain s actions au where s: "wf_SerializeTx s" "r = SerializeTx_MarshalCanoto s"
      "parse_actions parser 0 (st_Actions s) = Inr actions" "tx = read_tx sha256 s actions au"
    using UnmarshalTx_Inr [OF assms(1)] by blast
  obtain s' actions' au' where s': "wf_SerializeTx s'" "r' = SerializeTx_MarshalCanoto s'"
      "parse_actions parser 0 (st_Actions s') = Inr actions'" "tx' = read_tx sha256 s' actions' au'"
    using UnmarshalTx_Inr [OF assms(2)] by blast
  have "wf_SerializeTx (s\<lparr>st_Auth := []\<rparr>)" "wf_SerializeTx (s'\<lparr>st_Auth := []\<rparr>)"
    using s(1) s'(1) by (simp_all add: wf_SerializeTx_def)
  then have "s\<lparr>st_Auth := []\<rparr> = s'\<lparr>st_Auth := []\<rparr>"
    using SerializeTx_Unmarshal_iff assms(3) unfolding s(4) s'(4) read_tx_def Let_def
    by (metis (no_types) SignedTransaction.select_convs(1) sum.inject(2))
  then have "st_Base s = st_Base s' \<and> st_Actions s = st_Actions s'" by (cases s; cases s') simp
  then show ?thesis
    using s(2-4) s'(2-4) assms(3) unsigned_part [OF s(1)] unsigned_part [OF s'(1)] by (auto simp: read_tx_def Let_def)
qed

text \<open>The parser of a node whose signature schemes accept everything.\<close>

definition sample_signature :: "bytes \<Rightarrow> SignedAuth" where
  "sample_signature bs = Auth.extend sample_auth \<lparr>auth_Bytes = bs\<rparr>"

definition sample_parser :: "SignedAuth TxTypeParser" where
  "sample_parser = NewTxTypeParser \<lparr>indexToDecoder = [(BuyYesID, decode_BuyYes)], registeredTypes = [BuyYesID]\<rparr>
     \<lparr>indexToDecoder = map (\<lambda>i. (i, \<lambda>bs. Inr (sample_signature bs))) [BLSID, SECP256R1ID, ED25519ID],
      registeredTypes = [ED25519ID, SECP256R1ID, BLSID]\<rparr>"

lemma sample_parser_made:
  "\<exists>fs us g. vm_init fs us = Inr (g, sample_parser)"
proof -
  let ?f = "\<lparr>factory_Generate = (\<lambda>_. Inl (ErrNew [])), factory_Load = (\<lambda>_. Inl (ErrNew []))\<rparr>"
  let ?u = "\<lambda>bs. Inr (sample_signature bs)"
  have "\<exists>g. vm_init (?f, ?f, ?f) (?u, ?u, ?u) = Inr (g, sample_parser)"
    by (simp add: vm_init_def WithDefaultPrivateKeyFactories_def AuthProvider_Register_def sample_parser_def
          ED25519Key_def Secp256r1Key_def BLSKey_def Register_def NewTypeParser_def ED25519ID_def
          SECP256R1ID_def BLSID_def BuyYes_GetTypeID_def)
  then show ?thesis by blast
qed

definition far_buy :: BuyYes where
  "far_buy = sample_buy\<lparr>by_MarketID := 0x0500000000000007\<rparr>"

definition far_tx :: "bytes \<Rightarrow> SerializeTx" where
  "far_tx v = \<lparr>st_Base = \<lparr>base_Timestamp = 1000, base_ChainID = replicate IDLen 7, base_MaxFee = 5\<rparr>,
     st_Actions = [BuyYes_Bytes far_buy], st_Auth = v\<rparr>"

lemma far_tx_read:
  assumes "length v < 100"
  shows "\<exists>tx. UnmarshalTx sha256 sample_parser (SerializeTx_MarshalCanoto (far_tx (0 # v))) = Inr tx \<and>
    tx_Actions tx = [ActBuyYes far_buy] \<and> tx_unsignedBytes tx = SerializeTx_MarshalCanoto (far_tx [])"
proof -
  obtain fs us g where g: "vm_init fs us = Inr (g, sample_parser)" using sample_parser_made by blast
  have "ParseAction sample_parser (BuyYes_Bytes far_buy) = Inr (ActBuyYes far_buy)"
    using ParseAction_written [OF g, of "ActBuyYes far_buy"] by (simp add: writable_def far_buy_def)
  moreover have "ParseAuth sample_parser (0 # v) = Inr (sample_signature (0 # v))"
    by (simp add: ParseAuth_def sample_parser_def NewTxTypeParser_def TypeParser_Unmarshal_def lookupIndex_def
        ED25519ID_def SECP256R1ID_def BLSID_def)
  moreover have "wf_SerializeTx (far_tx (0 # v))"
    using assms by (simp add: wf_SerializeTx_def far_tx_def wf_Base_def BuyYes_Bytes_eq)
  ultimately show ?thesis using UnmarshalTx_Marshal [of "far_tx (0 # v)"] by (simp add: far_tx_def read_tx_def Let_def)
qed

theorem signature_covers_transaction_witness:
  "\<exists>tx tx'. UnmarshalTx id sample_parser (SerializeTx_MarshalCanoto (far_tx [0, 1])) = Inr tx \<and>
    UnmarshalTx id sample_parser (SerializeTx_MarshalCanoto (far_tx [0, 2, 3])) = Inr tx' \<and>
    tx_Actions tx = [ActBuyYes far_buy] \<and> tx_Base tx = tx_Base tx' \<and> tx_Actions tx = tx_Actions tx'"
proof -
  obtain tx where tx: "UnmarshalTx id sample_parser (SerializeTx_MarshalCanoto (far_tx [0, 1])) = Inr tx"
      "tx_Actions tx = [ActBuyYes far_buy]" "tx_unsignedBytes tx = SerializeTx_MarshalCanoto (far_tx [])"
    using far_tx_read [of "[1]" id] by auto
  obtain tx' where tx': "UnmarshalTx id sample_parser (SerializeTx_MarshalCanoto (far_tx [0, 2, 3])) = Inr tx'"
      "tx_unsignedBytes tx' = SerializeTx_MarshalCanoto (far_tx [])"
    using far_tx_read [of "[2, 3]" id] by auto
  show ?thesis using tx tx' signature_covers_transaction [OF tx(1) tx'(1)] by auto
qed

text \<open>
  C21: what a node makes of a transaction that this program has built and signed. If every action buys
  in a market whose identifier has 5 as its highest byte, the node reads the transaction, but every
  purchase of NO shares as one of YES shares; with any other action it refuses the transaction.
\<close>

theorem node_reads_built_transaction:
  assumes "NewTransaction sha256 b as au = Some tx" and "vm_init fs us = Inr (g, parser)"
    and "length (base_ChainID b) = IDLen" and "length (tx_bytes tx) < 2 ^ 64" and "\<forall>a \<in> set as. writable a"
    and "ParseAuth parser (auth_Bytes au) = Inr au"
  shows "case those (map node_reads as) of
      None \<Rightarrow> \<exists>e. UnmarshalTx sha256 parser (tx_bytes tx) = Inl e
    | Some as' \<Rightarrow> UnmarshalTx sha256 parser (tx_bytes tx) = Inr (tx\<lparr>tx_Actions := as'\<rparr>)"
proof -
  obtain bss where bss: "those (map Action_Bytes as) = Some bss"
    using assms(1) by (auto simp: NewTransaction_def NewTxData_def split: option.splits)
  let ?s = "\<lparr>st_Base = b, st_Actions = bss, st_Auth = auth_Bytes au\<rparr>"
  have tx: "tx = read_tx sha256 ?s as au"
    using assms(1) bss by (simp add: NewTransaction_def NewTxData_def Let_def read_tx_def)
  then have bytes: "tx_bytes tx = SerializeTx_MarshalCanoto ?s" by (simp add: read_tx_def Let_def)
  have "wf_SerializeTx ?s" using wf_built [OF assms(3)] assms(4) by (simp add: bytes)
  note read = UnmarshalTx_Marshal [OF this, of sha256 parser, folded bytes]
  show ?thesis
    using parse_actions_written [OF assms(2,5) bss, of 0] assms(6) read
    by (cases "those (map node_reads as)") (auto simp: tx read_tx_def Let_def)
qed

theorem node_reads_built_transaction_witness:
  "\<exists>tx. NewTransaction id (st_Base (far_tx [])) [ActBuyNo \<lparr>bn_MarketID = by_MarketID far_buy, bn_Amount = by_Amount far_buy,
       bn_MaxPrice = by_MaxPrice far_buy\<rparr>] (sample_signature [0, 1]) = Some tx \<and>
     UnmarshalTx id sample_parser (tx_bytes tx) = Inr (tx\<lparr>tx_Actions := [ActBuyYes far_buy]\<rparr>)"
proof -
  obtain fs us g where g: "vm_init fs us = Inr (g, sample_parser)" using sample_parser_made by blast
  let ?n = "\<lparr>bn_MarketID = by_MarketID far_buy, bn_Amount = by_Amount far_buy, bn_MaxPrice = by_MaxPrice far_buy\<rparr>"
  obtain tx where tx: "NewTransaction id (st_Base (far_tx [])) [ActBuyNo ?n] (sample_signature [0, 1]) = Some tx"
    by (auto simp: NewTransaction_def NewTxData_def Let_def)
  have "ParseAuth sample_parser (auth_Bytes (sample_signature [0, 1])) = Inr (sample_signature [0, 1])"
    by (simp add: ParseAuth_def sample_parser_def NewTxTypeParser_def TypeParser_Unmarshal_def lookupIndex_def
        ED25519ID_def SECP256R1ID_def BLSID_def sample_signature_def Auth.defs)
  moreover have "length (tx_bytes tx) < 2 ^ 64"
    using tx length_signed_le [of "st_Base (far_tx [])" "[0, 1]" "[BuyNo_Bytes ?n]"]
    by (auto simp: NewTransaction_def NewTxData_def Let_def sample_signature_def Auth.defs far_tx_def SizeBytes_def SizeUint_def
        BuyNo_Bytes_eq Len64.simps)
  moreover have "node_reads (ActBuyNo ?n) = Some (ActBuyYes far_buy)" "writable (ActBuyNo ?n)"
    by (simp_all add: far_buy_def sample_buy_def writable_def)
  moreover have "length (base_ChainID (st_Base (far_tx []))) = IDLen" by (simp add: far_tx_def)
  ultimately have "UnmarshalTx id sample_parser (tx_bytes tx) = Inr (tx\<lparr>tx_Actions := [ActBuyYes far_buy]\<rparr>)"
    using node_reads_built_transaction [OF tx g] by simp
  with tx show ?thesis by blast
qed

end
