(* ===== verification/Spec2Isabelle.thy ===== *)
theory Spec2Isabelle
  imports MockRules NodeCommand Chain TxReader
begin

text \<open>
  PredictionVM: a virtual machine for binary prediction markets on top of hypersdk.

  \<^bold>\<open>The program.\<close> A transaction carries actions: create a market, buy YES shares or buy NO shares.
  Executing it takes a fee from the sponsor's balance and runs the actions over the state, where
  balances, markets and share balances are entries of a key-value store. hypersdk supplies the store
  and its transaction views, the byte codec, the fee market, the parsing and the building of
  transactions, and the processor that executes blocks of them in parallel. Around this core are the genesis, the node binary with its RPC server, an RPC
  client, an issuer of load transactions and the command line tool.

  \<^bold>\<open>Theories and sources.\<close> Paths are under \<^verbatim>\<open>src/\<close>; \<^verbatim>\<open>vendor:\<close> stands for the vendored packages
  \<^verbatim>\<open>vendor/github.com/ava-labs\<close>.
  \<^item> \<open>Prelude\<close>: Go integers as words, errors with wrapping (\<open>go_error\<close>, \<open>errors_Is\<close>), results as
    sums, big-endian bytes; the collections of simplification rules.
  \<^item> \<open>Packing\<close>, \<open>LinearCodec\<close>: avalanchego's byte packer and the reflective codec
    (\<^verbatim>\<open>vendor:avalanchego/utils/wrappers\<close>, \<^verbatim>\<open>codec/reflectcodec\<close>). Locale \<open>wire_field\<close> is the
    contract of a packed field: what is written is read back, and what is read without an error is
    what the writer makes of the value.
  \<^item> \<open>StateKeys\<close>, \<open>StateStore\<close>, \<open>TState\<close>: key validity, chunk limits and permissions, the
    in-memory store, and the transaction view with its operation log and rollback
    (\<^verbatim>\<open>vendor:hypersdk/state\<close>, \<^verbatim>\<open>keys\<close>, \<^verbatim>\<open>state/tstate\<close>). Locale \<open>scoped_store\<close> is what the program
    relies on of a store, \<open>tracked_store\<close> what holds along every operation; both stores interpret it.
  \<^item> \<open>Consts\<close> (\<^verbatim>\<open>consts/\<close>), \<open>Balances\<close> (\<^verbatim>\<open>storage/state.go\<close>, \<^verbatim>\<open>storage/storage.go\<close>,
    \<^verbatim>\<open>controller/\<close>), \<open>Markets\<close> (\<^verbatim>\<open>storage/market.go\<close>): constants, addresses, balances, markets and
    shares with every error path.
  \<^item> \<open>Exchange\<close>: the abstract exchange, a specification of a purchase over balances, markets and
    holdings, and its relation to the stored bytes.
  \<^item> \<open>BuyYesAction\<close>, \<open>BuyNoAction\<close>, \<open>CreateMarketAction\<close>: the three files of \<^verbatim>\<open>actions/\<close>; both
    purchases refine the abstract exchange. \<open>MockRules\<close>: \<^verbatim>\<open>actions/actions_test_utils.go\<close>.
  \<^item> \<open>Fees\<close>, \<open>Transactions\<close>: the fee manager with its windows, and the execution of a transaction
    (\<^verbatim>\<open>vendor:hypersdk/internal/fees\<close>, \<^verbatim>\<open>fees\<close>, \<^verbatim>\<open>internal/window\<close>, \<^verbatim>\<open>chain/transaction.go\<close>).
  \<^item> \<open>ViewFrames\<close>: no code of its own; what a transaction reads and writes beyond the keys it
    declares, namely nothing. Locale \<open>twin_stores\<close> follows a client through two stores that answer
    alike.
  \<^item> \<open>Executor\<close>: the parallel executor (\<^verbatim>\<open>vendor:hypersdk/internal/executor\<close>) as a step relation
    of the caller and the workers, one step per lock or atomic operation.
  \<^item> \<open>BlockProcessor\<close>: the processor of blocks (\<^verbatim>\<open>vendor:hypersdk/chain/processor.go\<close>) with the
    prefetching of values, the metadata keys and the new view; the order in which the tasks run is
    one that a run of \<open>Executor\<close> produces.
  \<^item> \<open>Ledger\<close>, \<open>Chain\<close>: steps of the abstract exchange, chains of accepted blocks and the properties
    of both.
  \<^item> \<open>Bech32\<close>, \<open>GenesisState\<close>: \<^verbatim>\<open>genesis/genesis.go\<close>, the bech32 text it reads
    (\<^verbatim>\<open>vendor/github.com/btcsuite\<close>) and hypersdk's default genesis. Locale \<open>open_store\<close> extends
    \<open>scoped_store\<close> by room for every balance.
  \<^item> \<open>VirtualMachine\<close> (\<^verbatim>\<open>vm/vm.go\<close>, \<^verbatim>\<open>option.go\<close>, \<^verbatim>\<open>server.go\<close>), \<open>RpcClient\<close> (\<^verbatim>\<open>vm/client.go\<close>).
  \<^item> \<open>TxBuilder\<close>: the wire format of transactions and their generation
    (\<^verbatim>\<open>vendor:hypersdk/chain\<close>); \<open>LoadIssuer\<close>: \<^verbatim>\<open>load/issuer.go\<close>.
  \<^item> \<open>TxReader\<close>: reading a transaction from bytes (\<^verbatim>\<open>UnmarshalTx\<close> of \<^verbatim>\<open>chain/transaction.go\<close>, the
    generated readers beside it and \<^verbatim>\<open>vendor/github.com/StephenButtolph/canoto\<close>). Locale
    \<open>canoto_message\<close> is the contract of a message of optional fields in ascending order; both
    messages interpret it.
  \<^item> \<open>CliStorage\<close>, \<open>CommandLine\<close>: the command line tool (\<^verbatim>\<open>cmd/prediction-cli\<close>) with the key and
    chain database (\<^verbatim>\<open>vendor:hypersdk/cli\<close>) and the dispatch of cobra. Locale \<open>cli_shell\<close> is the
    contract of the database and the prompts.
  \<^item> \<open>NodeCommand\<close>: the binary of the node and the version command (\<^verbatim>\<open>cmd/predictionvm\<close>).

  \<^bold>\<open>State and operations.\<close> A Go struct is a record, a w-bit integer a word with its wrap-around, a
  result \<^verbatim>\<open>(T, error)\<close> the type \<open>'a result\<close>, a lone error an option. A function that changes state
  returns the new state with its result. The stores are passed as a record of operations
  (\<^verbatim>\<open>state.Mutable\<close>), so that an action runs over the in-memory store and over a transaction view. The
  commands of the tool run in a world that holds database, prompts and network; a panic is the value
  \<open>None\<close>.

  \<^bold>\<open>What is shown.\<close> Round trips of the codec, of addresses, actions, markets, bech32 text and flags;
  nothing but an encoding is unmarshalled.
  Each storage operation and each action on every branch, errors included; the purchases refine the
  abstract exchange. A view behaves as a map guarded by permissions and rollback restores it. A failed
  transaction leaves only its fee. Consuming block units is all or nothing, fees are exact or an
  overflow error, the windows and prices of the next block are stated slot by slot, saturation
  included; a manager of short length makes the processor panic, and an accepted block never leaves one. The executor lets conflicting
  tasks run in the order they were given and neither deadlocks nor runs forever, so a block has the
  results and the state of its own order whatever the interleaving. A block accounts for every
  transaction within the unit limits. A chain of accepted blocks refines the abstract exchange:
  share totals stay the sums of the holdings, no balance grows, a purchase the exchange accepts
  goes through, and the empty block that follows is always accepted in time. The wire format of transactions is canonical, the signed bytes determine
  base and actions, and what a node makes of a transaction this program builds is stated for every
  action. The fee estimate of a built transaction with at most 16 actions covers what is
  charged. Waiting for a balance returns exactly when some round ends it. Sessions of the command line
  tool without a failed import of a cluster file keep its database well-formed, so that the commands
  that follow do not panic. Several theorems
  state behaviour that is surely not meant, such as costs that wrap around, accounts that lock when
  they are spent to zero, and queries under a key that nothing is stored under.

  \<^bold>\<open>Bounds and termination.\<close> There is no fuel. Loops over data are structural or have a measure
  (the length of what is left to read, the bits left in a group). Three loops may run
  forever and are partial functions into the option type, \<open>None\<close> meaning no return: \<^verbatim>\<open>Wait\<close> of the
  RPC client, \<^verbatim>\<open>Listen\<close> of the issuer and the message loop of \<^verbatim>\<open>sendAndWait\<close>; when they return is
  proved. Byte limits (1024 bytes of an action and of a market, 64-byte chunks, 8-byte balances) are
  those of the source.

  \<^bold>\<open>Not modelled.\<close> Printing, logging, metrics and tracing; locks other than those of the executor,
  and \<^verbatim>\<open>Stop\<close> of the executor; block building, gossip and consensus of hypersdk and avalanchego;
  the merkle database; the simulation of actions over recorded keys. Requests of the RPC client are
  answered at once. Verification of signatures and hashing, JSON, YAML and the flag parser are
  parameters. \<^verbatim>\<open>WatchChain\<close> and the generation of prometheus files only print and write files. The
  workload of \<^verbatim>\<open>tests/\<close> drives a running network. Code in comments (most of \<^verbatim>\<open>storage/storage.go\<close>) is
  not code. Go ranges over maps in no fixed order; the model uses the order of insertion, and no
  theorem depends on it.

  \<^bold>\<open>State of the development.\<close> Tests aside, every live function of the repository's own packages is
  modelled, with the parts of the vendored packages it rests on. What remains lies outside the
  repository: consensus, the network and the databases.
\<close>

end
